(* ===== verification/Nc_Prelude.thy ===== *)
theory Nc_Prelude
  imports Main "HOL-Library.Word"
begin

text \<open>
  Shared vocabulary of the development.

  \<^item> The collections \<open>nc_defs\<close> (definitions of straight-line code, unfolded together)
    and \<open>nc_os\<close> (the wrappers around calls into the operating system).
  \<^item> \<open>run_loop\<close>: a C loop whose body either goes round again (\<open>Inl\<close>) or leaves the loop
    (\<open>Inr\<close>), as a partial function: \<open>None\<close> means that the loop never returns. Three rules
    carry every loop proof: an invariant rule, a termination rule with a measure, and a
    divergence rule.
  \<^item> \<open>mem_read\<close> and \<open>mem_write\<close>: memory addressed relative to the start of a caller's buffer.
    Addresses are integers, so an access outside the buffer is a value, not an error.
\<close>

named_theorems nc_defs "definitions of straight-line code"
named_theorems nc_os "wrappers around calls into the operating system"

type_synonym byte = "8 word"
type_synonym mem = "int \<Rightarrow> byte"

section \<open>Loops\<close>

partial_function (option) run_loop :: "('s \<Rightarrow> 's + 'r) \<Rightarrow> 's \<Rightarrow> 'r option" where
  "run_loop body s = (case body s of Inl s' \<Rightarrow> run_loop body s' | Inr r \<Rightarrow> Some r)"

lemma run_loop_exit [simp]: "body s = Inr r \<Longrightarrow> run_loop body s = Some r"
  by (simp add: run_loop.simps)

lemma run_loop_again: "body s = Inl s' \<Longrightarrow> run_loop body s = run_loop body s'"
  by (subst run_loop.simps) simp

lemma run_loop_inv:
  assumes run: "run_loop body s = Some r" and "I s"
    and keep: "\<And>s s'. I s \<Longrightarrow> body s = Inl s' \<Longrightarrow> I s'"
    and leave: "\<And>s r. I s \<Longrightarrow> body s = Inr r \<Longrightarrow> Q r"
  shows "Q r"
proof -
  have "body = body \<longrightarrow> I s \<longrightarrow> Q r"
  proof (rule run_loop.raw_induct [where P = "\<lambda>b s r. b = body \<longrightarrow> I s \<longrightarrow> Q r", OF _ run])
    fix f b s r
    assume IH: "\<And>b s r. f b s = Some r \<Longrightarrow> b = body \<longrightarrow> I s \<longrightarrow> Q r"
      and eq: "(case b s of Inl s' \<Rightarrow> f b s' | Inr r \<Rightarrow> Some r) = Some r"
    show "b = body \<longrightarrow> I s \<longrightarrow> Q r"
    proof (cases "body s")
      case (Inl s')
      then show ?thesis using eq IH [of b s' r] keep [OF _ Inl] by auto
    next
      case (Inr r')
      then show ?thesis using eq leave [OF _ Inr] by auto
    qed
  qed
  with \<open>I s\<close> show ?thesis by blast
qed

lemma run_loop_returns:
  fixes m :: "'s \<Rightarrow> nat"
  assumes "I s"
    and step: "\<And>s s'. I s \<Longrightarrow> body s = Inl s' \<Longrightarrow> I s' \<and> m s' < m s"
  shows "\<exists>r. run_loop body s = Some r"
  using \<open>I s\<close>
proof (induction "m s" arbitrary: s rule: less_induct)
  case less
  show ?case
  proof (cases "body s")
    case (Inl s')
    with step [OF less.prems Inl] less.hyps [of s'] show ?thesis
      by (simp add: run_loop_again)
  qed simp
qed

lemma run_loop_diverges:
  assumes "I s" and step: "\<And>s. I s \<Longrightarrow> \<exists>s'. body s = Inl s' \<and> I s'"
  shows "run_loop body s = None"
proof (rule ccontr)
  assume "run_loop body s \<noteq> None"
  then obtain r where "run_loop body s = Some r" by blast
  then have False
    by (rule run_loop_inv [where I = I]) (use assms step in force)+
  then show False .
qed

section \<open>Progress\<close>

text \<open>A quantity that never grows and keeps shrinking while it is positive reaches zero.\<close>

lemma eventually_zero:
  fixes f :: "nat \<Rightarrow> nat"
  assumes falls: "\<And>j. i \<le> j \<Longrightarrow> f (Suc j) \<le> f j"
    and moves: "\<And>j. i \<le> j \<Longrightarrow> 0 < f j \<Longrightarrow> \<exists>k\<ge>j. f (Suc k) < f k"
  shows "\<exists>j\<ge>i. f j = 0"
proof -
  have le: "f k \<le> f j" if "i \<le> j" "j \<le> k" for j k
    using that(2)
  proof (induction k rule: dec_induct)
    case (step k)
    have "f (Suc k) \<le> f k" using falls [of k] that(1) step.hyps(1) by simp
    with step.IH show ?case by simp
  qed simp
  have "\<exists>k\<ge>j. f k = 0" if "i \<le> j" for j
    using that
  proof (induction "f j" arbitrary: j rule: less_induct)
    case less
    show ?case
    proof (cases "f j = 0")
      case False
      then obtain k where k: "j \<le> k" "f (Suc k) < f k" using moves [OF less.prems] by auto
      with le [OF less.prems k(1)] less.hyps [of "Suc k"] less.prems obtain m where "Suc k \<le> m" "f m = 0"
        by auto
      with k(1) show ?thesis by (meson Suc_leD le_trans)
    qed blast
  qed
  then show ?thesis by blast
qed

section \<open>Memory relative to a buffer\<close>

definition mem_read :: "mem \<Rightarrow> int \<Rightarrow> int \<Rightarrow> byte list" where
  "mem_read m off n = map (\<lambda>i. m (off + int i)) [0..<nat n]"

definition mem_write :: "mem \<Rightarrow> int \<Rightarrow> byte list \<Rightarrow> mem" where
  "mem_write m off bs =
     (\<lambda>a. if off \<le> a \<and> a < off + int (length bs) then bs ! nat (a - off) else m a)"

lemma length_mem_read [simp]: "length (mem_read m off n) = nat n"
  by (simp add: mem_read_def)

lemma mem_read_nonpos [simp]: "n \<le> 0 \<Longrightarrow> mem_read m off n = []"
  by (simp add: mem_read_def)

lemma nth_mem_read: "i < nat n \<Longrightarrow> mem_read m off n ! i = m (off + int i)"
  by (simp add: mem_read_def)

lemma take_mem_read: "0 \<le> k \<Longrightarrow> k \<le> n \<Longrightarrow> take (nat k) (mem_read m off n) = mem_read m off k"
  by (rule nth_equalityI) (auto simp: nth_mem_read)

lemma mem_read_append:
  assumes "0 \<le> a" "0 \<le> b"
  shows "mem_read m off a @ mem_read m (off + a) b = mem_read m off (a + b)"
proof (rule nth_equalityI)
  show "length (mem_read m off a @ mem_read m (off + a) b) = length (mem_read m off (a + b))"
    using assms by simp
next
  fix i
  assume i: "i < length (mem_read m off a @ mem_read m (off + a) b)"
  show "(mem_read m off a @ mem_read m (off + a) b) ! i = mem_read m off (a + b) ! i"
  proof (cases "i < nat a")
    case True
    then show ?thesis using assms by (simp add: nth_append nth_mem_read)
  next
    case False
    then show ?thesis using assms i
      by (simp add: nth_append nth_mem_read)
  qed
qed

lemma mem_read_write_same [simp]:
  "mem_read (mem_write m off bs) off (int (length bs)) = bs"
  by (rule nth_equalityI) (auto simp: nth_mem_read mem_write_def)

lemma mem_read_write_before:
  "off + n \<le> off' \<Longrightarrow> mem_read (mem_write m off' bs) off n = mem_read m off n"
  by (rule nth_equalityI) (auto simp: nth_mem_read mem_write_def)

lemma mem_write_Nil [simp]: "mem_write m off [] = m"
  by (auto simp: mem_write_def fun_eq_iff)

lemma mem_write_outside: "a < off \<or> off + int (length bs) \<le> a \<Longrightarrow> mem_write m off bs a = m a"
  by (auto simp: mem_write_def)

end
