(* ===== verification/Nc_Platform.thy ===== *)
theory Nc_Platform
  imports Nc_Prelude
begin

text \<open>
  The constants of \<^verbatim>\<open>src/ncconsts.h\<close>, the return codes of \<^verbatim>\<open>src/ncenums.h\<close> and the
  platform macros of \<^verbatim>\<open>src/ncarch.h\<close>.

  The preprocessor symbols that choose between the branches of the code are the fields of a
  record \<open>config\<close>. Error numbers are symbolic: the code only compares them, and their numeric
  values belong to the platform's headers.
\<close>

unbundle bit_operations_syntax

section \<open>Constants\<close>

definition MAX_HOSTNAME_LEN :: nat where [nc_defs]: "MAX_HOSTNAME_LEN = 256"
definition SOCKTYPE_TCPIP :: int where [nc_defs]: "SOCKTYPE_TCPIP = 0"
definition SOCKTYPE_UDP :: int where [nc_defs]: "SOCKTYPE_UDP = 1"
definition NC_THREADED :: int where [nc_defs]: "NC_THREADED = 0"
definition NC_NONTHREADED :: int where [nc_defs]: "NC_NONTHREADED = 1"
definition NC_DETACHED :: "32 word" where [nc_defs]: "NC_DETACHED = 2"
definition NC_JOINED :: "32 word" where [nc_defs]: "NC_JOINED = 4"
definition NC_REUSEADDR :: "32 word" where [nc_defs]: "NC_REUSEADDR = 8"
definition MAX_DGRAM_BUF_LEN :: int where [nc_defs]: "MAX_DGRAM_BUF_LEN = 512"

section \<open>Return codes\<close>

datatype retcode =
    NC_FAILED | NC_OK | NC_TIMEDOUT | NC_BADARGS | NC_MOREDATA | NC_CLIENTDISCONNECT
  | NC_NOTSUPPORTED

text \<open>The enumeration starts at -1 and counts up.\<close>

fun retcode_val :: "retcode \<Rightarrow> int" where
  "retcode_val NC_FAILED = -1"
| "retcode_val NC_OK = 0"
| "retcode_val NC_TIMEDOUT = 1"
| "retcode_val NC_BADARGS = 2"
| "retcode_val NC_MOREDATA = 3"
| "retcode_val NC_CLIENTDISCONNECT = 4"
| "retcode_val NC_NOTSUPPORTED = 5"

lemma retcode_val_inj: "retcode_val a = retcode_val b \<Longrightarrow> a = b"
  by (cases a; cases b) simp_all

instantiation retcode :: linorder
begin

definition less_eq_retcode :: "retcode \<Rightarrow> retcode \<Rightarrow> bool" where
  "less_eq_retcode a b \<longleftrightarrow> retcode_val a \<le> retcode_val b"

definition less_retcode :: "retcode \<Rightarrow> retcode \<Rightarrow> bool" where
  "less_retcode a b \<longleftrightarrow> retcode_val a < retcode_val b"

instance
  by standard (auto simp: less_eq_retcode_def less_retcode_def intro: retcode_val_inj)

end

section \<open>Platform and configuration\<close>

datatype platform = Linux | Cygwin | OpenBSD | FreeBSD | Darwin | Win32

text \<open>
  \<open>HAVE_POLL\<close>, \<open>HAVE_THREADS\<close> and \<open>HAVE_INET_PTON\<close> come from \<^verbatim>\<open>configure\<close>;
  \<open>cfg_winnt4\<close> is \<open>_WIN32_WINNT >= 0x0400\<close>. The last three fields are the data model:
  whether \<open>unsigned long\<close> has 64 bits or 32, whether a pointer has, and the byte order.
\<close>

record config =
  cfg_platform :: platform
  cfg_have_poll :: bool
  cfg_have_threads :: bool
  cfg_have_inet_pton :: bool
  cfg_winnt4 :: bool
  cfg_lp64 :: bool
  cfg_ptr64 :: bool
  cfg_big_endian :: bool

text \<open>Two concrete configurations, for the witnesses: 64-bit Linux and 32-bit Windows.\<close>

definition linux_config :: config where
  "linux_config = \<lparr>cfg_platform = Linux, cfg_have_poll = True, cfg_have_threads = True,
     cfg_have_inet_pton = True, cfg_winnt4 = False, cfg_lp64 = True, cfg_ptr64 = True,
     cfg_big_endian = False\<rparr>"

definition win32_config :: config where
  "win32_config = \<lparr>cfg_platform = Win32, cfg_have_poll = False, cfg_have_threads = True,
     cfg_have_inet_pton = False, cfg_winnt4 = True, cfg_lp64 = False, cfg_ptr64 = False,
     cfg_big_endian = False\<rparr>"

text \<open>
  \<open>USE_SELECT_READ_WRITE\<close> is set on every platform of the Linux section that has no
  \<open>poll\<close>; Windows always uses \<open>select\<close>.
\<close>

definition uses_select :: "config \<Rightarrow> bool" where
  "uses_select c \<longleftrightarrow> cfg_platform c = Win32 \<or> \<not> cfg_have_poll c"

text \<open>A value of type \<open>unsigned long\<close> is kept in 64 bits, cut to 32 where the type is narrower.\<close>

definition ulong :: "config \<Rightarrow> 64 word \<Rightarrow> 64 word" where
  "ulong c x = (if cfg_lp64 c then x else take_bit 32 x)"

datatype oserr =
    EALREADY | EINPROGRESS | EAGAIN | EPIPE | ECONNRESET | EADDRINUSE | EBUSY | EBADF
  | WSAEALREADY | WSAEWOULDBLOCK | WSAEINVAL | WSAEISCONN | WSAECONNRESET | WSAESHUTDOWN
  | WSAEADDRINUSE | ErrOther int

definition ncSocketError :: "int \<Rightarrow> bool" where [nc_defs]:
  "ncSocketError a \<longleftrightarrow> a = -1"

text \<open>
  The macros the Windows section and the Linux section define differently: one definition for
  each section, and one that takes the section of the platform. The other platforms include the
  Linux section (\<open>USE_LINUX\<close>).
\<close>

definition ncIsBlockingError_win :: "oserr \<Rightarrow> bool" where [simp]:
  "ncIsBlockingError_win a \<longleftrightarrow> a = WSAEALREADY \<or> a = WSAEWOULDBLOCK \<or> a = WSAEINVAL"

definition ncIsBlockingError_linux :: "oserr \<Rightarrow> bool" where [simp]:
  "ncIsBlockingError_linux a \<longleftrightarrow> a = EALREADY \<or> a = EINPROGRESS \<or> a = EAGAIN"

definition ncIsBlockingError :: "config \<Rightarrow> oserr \<Rightarrow> bool" where
  "ncIsBlockingError c a \<longleftrightarrow>
     (if cfg_platform c = Win32 then ncIsBlockingError_win a else ncIsBlockingError_linux a)"

definition ncIsConnected_win :: "oserr \<Rightarrow> bool" where [simp]:
  "ncIsConnected_win a \<longleftrightarrow> a = WSAEISCONN"

definition ncIsConnected_linux :: "oserr \<Rightarrow> bool" where [simp]:
  "ncIsConnected_linux a \<longleftrightarrow> False"

definition ncIsConnected :: "config \<Rightarrow> oserr \<Rightarrow> bool" where
  "ncIsConnected c a \<longleftrightarrow>
     (if cfg_platform c = Win32 then ncIsConnected_win a else ncIsConnected_linux a)"

definition ncSocketReset_win :: "oserr \<Rightarrow> bool" where [simp]:
  "ncSocketReset_win a \<longleftrightarrow> a = WSAECONNRESET \<or> a = WSAESHUTDOWN"

definition ncSocketReset_linux :: "oserr \<Rightarrow> bool" where [simp]:
  "ncSocketReset_linux a \<longleftrightarrow> a = EPIPE \<or> a = ECONNRESET"

definition ncSocketReset :: "config \<Rightarrow> oserr \<Rightarrow> bool" where
  "ncSocketReset c a \<longleftrightarrow>
     (if cfg_platform c = Win32 then ncSocketReset_win a else ncSocketReset_linux a)"

text \<open>\<open>ncAddrInUse\<close> asks for the last error itself; here the error is its argument.\<close>

definition ncAddrInUse_win :: "oserr \<Rightarrow> bool" where [simp]:
  "ncAddrInUse_win a \<longleftrightarrow> a = WSAEADDRINUSE"

definition ncAddrInUse_linux :: "oserr \<Rightarrow> bool" where [simp]:
  "ncAddrInUse_linux a \<longleftrightarrow> a = EADDRINUSE"

definition ncAddrInUse :: "config \<Rightarrow> oserr \<Rightarrow> bool" where
  "ncAddrInUse c a \<longleftrightarrow>
     (if cfg_platform c = Win32 then ncAddrInUse_win a else ncAddrInUse_linux a)"

text \<open>\<open>MSG_NOSIGNAL\<close> unless the platform's own section defined the flag as 0.\<close>

datatype recv_flag = NoFlag | MSG_NOSIGNAL

definition ncRecvFlag :: "config \<Rightarrow> recv_flag" where
  "ncRecvFlag c = (if cfg_platform c = Linux then MSG_NOSIGNAL else NoFlag)"

definition NCSD_SEND :: int where [nc_defs]: "NCSD_SEND = 1"
definition NCSD_READ :: int where [nc_defs]: "NCSD_READ = 0"

definition POLLIN :: "16 word" where "POLLIN = 0x001"
definition POLLOUT :: "16 word" where "POLLOUT = 0x004"
definition POLLERR :: "16 word" where "POLLERR = 0x008"

definition NC_MIN :: "'a::linorder \<Rightarrow> 'a \<Rightarrow> 'a" where [nc_defs]:
  "NC_MIN a b = (if a < b then a else b)"

lemma NC_MIN_min: "NC_MIN a b = min a b"
  by (auto simp: NC_MIN_def min_def)

text \<open>The classes of error numbers the loops branch on do not overlap.\<close>

lemma reset_not_blocking: "ncSocketReset c e \<Longrightarrow> \<not> ncIsBlockingError c e"
  by (auto simp: ncSocketReset_def ncIsBlockingError_def)

lemma connected_not_blocking: "ncIsConnected c e \<Longrightarrow> \<not> ncIsBlockingError c e"
  by (auto simp: ncIsConnected_def ncIsBlockingError_def split: if_splits)

end
