(* ===== verification/Nc_Data.thy ===== *)
theory Nc_Data
  imports Nc_Platform
begin

text \<open>
  The data the components share: socket addresses with their byte order, the object passed to
  \<open>poll\<close> or \<open>select\<close>, and the objects of the classes \<^verbatim>\<open>ncSocket\<close> (\<^verbatim>\<open>src/ncsocket.h\<close>) and
  \<^verbatim>\<open>udpData\<close> (\<^verbatim>\<open>src/udpdata.h\<close>), which travel through callbacks. A C \<open>int\<close> is an
  \<open>int\<close>, an unsigned integer a word of its width. A C string is the list of its bytes up to,
  and without, the terminating zero.
\<close>

type_synonym fd = int
type_synonym filep = nat
type_synonym cstring = "byte list"

section \<open>Addresses and byte order\<close>

record sockaddr_in =
  sin_family :: "16 word"
  sin_port :: "16 word"
  s_addr :: "32 word"
  sin_zero :: "64 word"

definition AF_INET :: "16 word" where "AF_INET = 2"
definition INADDR_NONE :: "32 word" where "INADDR_NONE = 0xFFFFFFFF"
definition INADDR_ANY :: "32 word" where "INADDR_ANY = 0"

definition zero_sockaddr :: sockaddr_in where [nc_defs]:
  "zero_sockaddr = \<lparr>sin_family = 0, sin_port = 0, s_addr = 0, sin_zero = 0\<rparr>"

text \<open>Reading the bytes of an object in memory order as an unsigned number.\<close>

fun word_of_le :: "byte list \<Rightarrow> 64 word" where
  "word_of_le [] = 0"
| "word_of_le (b # bs) = ucast b + 256 * word_of_le bs"

definition load_word :: "config \<Rightarrow> byte list \<Rightarrow> 64 word" where
  "load_word c bs = word_of_le (if cfg_big_endian c then rev bs else bs)"

definition htons :: "config \<Rightarrow> 16 word \<Rightarrow> 16 word" where
  "htons c x = (if cfg_big_endian c then x else push_bit 8 x OR drop_bit 8 x)"

section \<open>The poll object\<close>

text \<open>
  \<open>ncPollObject\<close> is \<open>struct pollfd\<close> (descriptor, events, returned events) or an
  \<open>fd_set\<close>, here the list of the descriptors in the set.
\<close>

datatype ncPollObject = PollFd fd "16 word" "16 word" | FdSet "fd list"

definition zero_poll_object :: "config \<Rightarrow> ncPollObject" where
  "zero_poll_object c = (if uses_select c then FdSet [] else PollFd 0 0 0)"

section \<open>ncSocket objects\<close>

text \<open>
  \<open>m_sockfd\<close> is an \<^verbatim>\<open>int\<close>, on Windows an unsigned \<^verbatim>\<open>SOCKET\<close>. Here it is a number either way, and -1
  stands for \<^verbatim>\<open>INVALID_SOCKET\<close> too. The code tests it for equality with 0 or -1, which comes to the
  same; its one comparison by size, in the destructor of \<open>ncSocket\<close>, does not, and \<open>fd_positive\<close>
  tells the two types apart.
\<close>

record ncSocket =
  m_sockfd :: fd
  m_listener :: ncPollObject
  m_stdiofd :: "filep option"
  m_to :: sockaddr_in
  m_ipaddr :: "64 word"
  m_socktype :: int
  m_timeout :: "32 word"
  m_polltime :: "32 word"
  m_port :: "16 word"
  m_hostname :: "byte list"

text \<open>
  \<open>memset(m_hostname,0,N)\<close> and then \<open>memcpy(m_hostname,host,MIN(strlen(host),N-1))\<close>.
\<close>

definition zero_hostname :: "byte list" where [nc_defs]:
  "zero_hostname = replicate MAX_HOSTNAME_LEN 0"

definition copy_hostname :: "cstring \<Rightarrow> byte list" where
  "copy_hostname host =
     (let n = NC_MIN (length host) (MAX_HOSTNAME_LEN - 1)
      in take n host @ drop n zero_hostname)"

text \<open>The C string a byte array holds: the bytes before the first zero.\<close>

definition cstr :: "byte list \<Rightarrow> cstring" where
  "cstr bs = takeWhile (\<lambda>b. b \<noteq> 0) bs"

section \<open>udpData objects\<close>

record udpData =
  u_sockfd :: fd
  u_length :: int
  u_clientaddr :: sockaddr_in
  u_data :: "byte list"

section \<open>ncSocketListener objects\<close>

record ncSocketListener =
  ls_sockfd :: fd
  ls_listening :: int
  ls_socktype :: int
  ls_backlog :: int
  ls_port :: "16 word"

section \<open>Lemmas\<close>

lemma length_copy_hostname [simp]: "length (copy_hostname h) = MAX_HOSTNAME_LEN"
  by (simp add: copy_hostname_def NC_MIN_min zero_hostname_def MAX_HOSTNAME_LEN_def Let_def)

lemma copy_hostname_terminated: "copy_hostname h ! (MAX_HOSTNAME_LEN - 1) = 0"
  by (simp add: copy_hostname_def NC_MIN_min zero_hostname_def MAX_HOSTNAME_LEN_def Let_def
      nth_append)

lemma cstr_copy_hostname:
  assumes "0 \<notin> set h"
  shows "cstr (copy_hostname h) = take 255 h"
proof -
  have nz: "\<forall>b \<in> set (take n h). b \<noteq> 0" for n
    using assms by (auto dest: in_set_takeD)
  have zs: "takeWhile (\<lambda>b. b \<noteq> 0) (replicate k 0) = ([] :: byte list)" for k
    by (cases k) simp_all
  have "takeWhile (\<lambda>b. b \<noteq> 0) (take n h @ replicate k 0) = take n h" for n k
    using nz [of n] zs by (simp add: takeWhile_append)
  then show ?thesis
    by (simp add: cstr_def copy_hostname_def NC_MIN_min zero_hostname_def MAX_HOSTNAME_LEN_def
        Let_def min_def)
qed

end
