(* ===== verification/Nc_Kernel.thy ===== *)
theory Nc_Kernel
  imports Nc_Data
begin

text \<open>
  The operating system as the program sees it.

  The code under \<^verbatim>\<open>src/\<close> only calls the socket, thread and stdio interfaces; their code is not
  part of the repository. A record \<open>os\<close> of functions stands for them. Each function is given
  the history of all calls made so far, newest first, and the arguments of the call, and
  answers with the call's results; since it sees the whole history, any behaviour of a kernel,
  a peer or another thread is one such record. The wrapper of each call appends the call and
  its result to the history, so properties can speak of the calls that were made, in order.

  \<open>os_view\<close> is what the other threads of the process have made of a listener object by the
  time this thread reads it again (\<open>stopListening\<close> is meant to be called from another thread).

  What the code relies on is stated as predicates on \<open>os\<close> (\<open>poll_doc\<close>, \<open>send_doc\<close>,
  \<open>recv_doc\<close>), which say what the manual pages of the calls say about their results.
\<close>

section \<open>Calls and histories\<close>

datatype sock_kind = SOCK_STREAM | SOCK_DGRAM
datatype wait_dir = WaitRead | WaitWrite
datatype cbarg = CbSocket ncSocket | CbUdp udpData

text \<open>
  \<open>SysFcntlSetfl fd w\<close> stands for \<open>fcntl(fd, F_SETFL, w | O_NONBLOCK)\<close>, and \<open>SysSleep n\<close>
  for \<open>ncSleep(n)\<close>.
\<close>

datatype call =
    SysSocket sock_kind fd
  | SysConnect fd sockaddr_in int
  | SysFcntlGetfd fd "32 word"
  | SysFcntlSetfl fd "32 word"
  | SysIoctlNonblock fd
  | SysPoll fd "16 word" int int "16 word"
  | SysSelect wait_dir "fd list" int int int "fd list"
  | SysSend fd "byte list" recv_flag int
  | SysSendto fd "byte list" sockaddr_in int
  | SysRecv fd int recv_flag int "byte list"
  | SysRecvfrom fd int int "byte list" sockaddr_in
  | SysShutdown fd int
  | SysClose fd
  | SysFdopen fd "filep option"
  | SysFflush filep int
  | SysFclose filep
  | SysSleep int
  | SysInetPton cstring int "32 word"
  | SysInetAddr cstring "32 word"
  | SysGethostbyname cstring bool
  | SysSetsockopt fd int
  | SysBind fd sockaddr_in int
  | SysListen fd int int
  | SysAccept fd int sockaddr_in
  | SysNew bool
  | Callback cbarg
  | ThreadCreate cbarg int nat
  | ThreadJoin nat int
  | ThreadDetach nat int
  | ThreadCancel nat
  | ThreadSetup
  | ThreadTestCancel
  | ThreadExit nat
  | ThreadCloseHandle nat
  | WsaStartup int "16 word"
  | WsaCleanup

type_synonym hist = "call list"

record os =
  os_errno :: "hist \<Rightarrow> oserr"
  os_socket :: "hist \<Rightarrow> sock_kind \<Rightarrow> fd"
  os_connect :: "hist \<Rightarrow> fd \<Rightarrow> sockaddr_in \<Rightarrow> int"
  os_fcntl_getfd :: "hist \<Rightarrow> fd \<Rightarrow> 32 word"
  os_poll :: "hist \<Rightarrow> fd \<Rightarrow> 16 word \<Rightarrow> int \<Rightarrow> int \<times> 16 word"
  os_select :: "hist \<Rightarrow> wait_dir \<Rightarrow> int \<Rightarrow> fd list \<Rightarrow> int \<Rightarrow> int \<Rightarrow> int \<times> fd list"
  os_send :: "hist \<Rightarrow> fd \<Rightarrow> byte list \<Rightarrow> recv_flag \<Rightarrow> int"
  os_sendto :: "hist \<Rightarrow> fd \<Rightarrow> byte list \<Rightarrow> sockaddr_in \<Rightarrow> int"
  os_recv :: "hist \<Rightarrow> fd \<Rightarrow> int \<Rightarrow> recv_flag \<Rightarrow> int \<times> byte list"
  os_recvfrom :: "hist \<Rightarrow> fd \<Rightarrow> int \<Rightarrow> int \<times> byte list \<times> sockaddr_in"
  os_fdopen :: "hist \<Rightarrow> fd \<Rightarrow> filep option"
  os_fflush :: "hist \<Rightarrow> filep \<Rightarrow> int"
  os_inet_pton :: "hist \<Rightarrow> cstring \<Rightarrow> int \<times> 32 word"
  os_inet_addr :: "hist \<Rightarrow> cstring \<Rightarrow> 32 word"
  os_gethostbyname :: "hist \<Rightarrow> cstring \<Rightarrow> (nat \<Rightarrow> byte) option"
  os_setsockopt :: "hist \<Rightarrow> fd \<Rightarrow> int"
  os_bind :: "hist \<Rightarrow> fd \<Rightarrow> sockaddr_in \<Rightarrow> int"
  os_listen :: "hist \<Rightarrow> fd \<Rightarrow> int \<Rightarrow> int"
  os_accept :: "hist \<Rightarrow> fd \<Rightarrow> int \<times> sockaddr_in"
  os_new :: "hist \<Rightarrow> bool"
  os_thread_create :: "hist \<Rightarrow> cbarg \<Rightarrow> int \<times> nat"
  os_thread_join :: "hist \<Rightarrow> nat \<Rightarrow> int \<times> nat"
  os_thread_detach :: "hist \<Rightarrow> nat \<Rightarrow> int"
  os_wsastartup :: "hist \<Rightarrow> int \<times> 16 word"
  os_view :: "hist \<Rightarrow> ncSocketListener \<Rightarrow> ncSocketListener"

section \<open>Calls that return a result and extend the history\<close>

definition k_poll :: "os \<Rightarrow> fd \<Rightarrow> 16 word \<Rightarrow> int \<Rightarrow> hist \<Rightarrow> int \<times> 16 word \<times> hist" where [nc_os]:
  "k_poll K fd ev t h =
     (let (r, rv) = os_poll K h fd ev t in (r, rv, SysPoll fd ev t r rv # h))"

definition k_select :: "os \<Rightarrow> wait_dir \<Rightarrow> int \<Rightarrow> fd list \<Rightarrow> int \<Rightarrow> int \<Rightarrow> hist \<Rightarrow>
    int \<times> fd list \<times> hist" where [nc_os]:
  "k_select K dir nfds fds sec usec h =
     (let (r, rdy) = os_select K h dir nfds fds sec usec
      in (r, rdy, SysSelect dir fds sec usec r rdy # h))"

definition k_send :: "os \<Rightarrow> fd \<Rightarrow> byte list \<Rightarrow> recv_flag \<Rightarrow> hist \<Rightarrow> int \<times> hist" where [nc_os]:
  "k_send K fd bs fl h = (let r = os_send K h fd bs fl in (r, SysSend fd bs fl r # h))"

definition k_sendto :: "os \<Rightarrow> fd \<Rightarrow> byte list \<Rightarrow> sockaddr_in \<Rightarrow> hist \<Rightarrow> int \<times> hist" where [nc_os]:
  "k_sendto K fd bs a h = (let r = os_sendto K h fd bs a in (r, SysSendto fd bs a r # h))"

definition k_recv :: "os \<Rightarrow> fd \<Rightarrow> int \<Rightarrow> recv_flag \<Rightarrow> hist \<Rightarrow> int \<times> byte list \<times> hist" where [nc_os]:
  "k_recv K fd n fl h = (let (r, bs) = os_recv K h fd n fl in (r, bs, SysRecv fd n fl r bs # h))"

definition k_recvfrom :: "os \<Rightarrow> fd \<Rightarrow> int \<Rightarrow> hist \<Rightarrow> int \<times> byte list \<times> sockaddr_in \<times> hist" where
  [nc_os]: "k_recvfrom K fd n h =
     (let (r, bs, a) = os_recvfrom K h fd n in (r, bs, a, SysRecvfrom fd n r bs a # h))"

section \<open>Documented behaviour\<close>

text \<open>\<open>poll\<close> on one descriptor returns -1 (error), 0 (time out) or 1 (events).\<close>

definition poll_doc :: "os \<Rightarrow> bool" where
  "poll_doc K \<longleftrightarrow> (\<forall>h fd ev t. fst (os_poll K h fd ev t) \<in> {-1, 0, 1})"

text \<open>\<open>send\<close> and \<open>sendto\<close> return -1 or the number of bytes taken, at most all of them.\<close>

definition send_doc :: "os \<Rightarrow> bool" where
  "send_doc K \<longleftrightarrow>
     (\<forall>h fd bs fl. -1 \<le> os_send K h fd bs fl \<and> os_send K h fd bs fl \<le> int (length bs)) \<and>
     (\<forall>h fd bs a. -1 \<le> os_sendto K h fd bs a \<and> os_sendto K h fd bs a \<le> int (length bs))"

text \<open>
  \<open>recv\<close> and \<open>recvfrom\<close> return -1 or the number of bytes stored, at most as many as asked
  for; nothing is stored on an error.
\<close>

definition recv_result :: "int \<Rightarrow> int \<Rightarrow> byte list \<Rightarrow> bool" where
  "recv_result n r bs \<longleftrightarrow> -1 \<le> r \<and> r \<le> n \<and> length bs = nat r"

definition recv_doc :: "os \<Rightarrow> bool" where
  "recv_doc K \<longleftrightarrow>
     (\<forall>h fd n fl r bs. 0 \<le> n \<longrightarrow> os_recv K h fd n fl = (r, bs) \<longrightarrow> recv_result n r bs) \<and>
     (\<forall>h fd n r bs a. 0 \<le> n \<longrightarrow> os_recvfrom K h fd n = (r, bs, a) \<longrightarrow> recv_result n r bs)"

lemma poll_docD: "poll_doc K \<Longrightarrow> os_poll K h fd ev t = (r, rv) \<Longrightarrow> r = -1 \<or> r = 0 \<or> r = 1"
  unfolding poll_doc_def by (metis fst_conv insertE singletonD)

lemma send_docD: "send_doc K \<Longrightarrow> os_send K h fd bs fl \<le> int (length bs)"
  "send_doc K \<Longrightarrow> os_sendto K h fd bs a \<le> int (length bs)"
  by (simp_all add: send_doc_def)

lemma recv_docD:
  "recv_doc K \<Longrightarrow> 0 \<le> n \<Longrightarrow> os_recv K h fd n fl = (r, bs) \<Longrightarrow> recv_result n r bs"
  "recv_doc K \<Longrightarrow> 0 \<le> n \<Longrightarrow> os_recvfrom K h fd n = (r, bs, a) \<Longrightarrow> recv_result n r bs"
  unfolding recv_doc_def by blast+

section \<open>Reading a history\<close>

text \<open>The bytes the kernel took from, and gave to, the program, oldest first.\<close>

fun sent_bytes :: "hist \<Rightarrow> byte list" where
  "sent_bytes [] = []"
| "sent_bytes (SysSend fd bs fl r # h) = sent_bytes h @ take (nat r) bs"
| "sent_bytes (SysSendto fd bs a r # h) = sent_bytes h @ take (nat r) bs"
| "sent_bytes (c # h) = sent_bytes h"

fun received_bytes :: "hist \<Rightarrow> byte list" where
  "received_bytes [] = []"
| "received_bytes (SysRecv fd n fl r bs # h) = received_bytes h @ bs"
| "received_bytes (SysRecvfrom fd n r bs a # h) = received_bytes h @ bs"
| "received_bytes (c # h) = received_bytes h"

text \<open>How often the program waited for a descriptor.\<close>

fun waits :: "hist \<Rightarrow> nat" where
  "waits [] = 0"
| "waits (SysPoll fd ev t r rv # h) = Suc (waits h)"
| "waits (SysSelect dir fds s us r rdy # h) = Suc (waits h)"
| "waits (c # h) = waits h"

text \<open>An operating system whose every call fails, the base of the concrete ones below.\<close>

definition dead_os :: os where
  "dead_os = \<lparr>os_errno = \<lambda>h. EBADF, os_socket = \<lambda>h k. -1, os_connect = \<lambda>h fd a. -1,
     os_fcntl_getfd = \<lambda>h fd. 0, os_poll = \<lambda>h fd ev t. (-1, 0),
     os_select = \<lambda>h d n fds s us. (-1, []), os_send = \<lambda>h fd bs fl. -1,
     os_sendto = \<lambda>h fd bs a. -1, os_recv = \<lambda>h fd n fl. (-1, []),
     os_recvfrom = \<lambda>h fd n. (-1, [], zero_sockaddr), os_fdopen = \<lambda>h fd. None,
     os_fflush = \<lambda>h f. -1, os_inet_pton = \<lambda>h s. (0, 0), os_inet_addr = \<lambda>h s. INADDR_NONE,
     os_gethostbyname = \<lambda>h s. None, os_setsockopt = \<lambda>h fd. -1, os_bind = \<lambda>h fd a. -1,
     os_listen = \<lambda>h fd n. -1, os_accept = \<lambda>h fd. (-1, zero_sockaddr), os_new = \<lambda>h. True,
     os_thread_create = \<lambda>h a. (1, 0), os_thread_join = \<lambda>h t. (1, 0),
     os_thread_detach = \<lambda>h t. 1, os_wsastartup = \<lambda>h. (1, 0),
     os_view = \<lambda>h L. L\<rparr>"

end
