(* ===== verification/Nc_Sock.thy ===== *)
theory Nc_Sock
  imports Nc_Kernel
begin

text \<open>
  The class \<^verbatim>\<open>ncSocket\<close> of \<^verbatim>\<open>src/ncsocket.cpp\<close>, apart from its connect, read and write
  methods: the constructors, the destructor, \<open>flush\<close>, the setters, \<open>checkTimeout\<close> and
  \<open>close\<close>. A method takes the object and the history and returns both; the destructor also
  returns the object's last state.
\<close>

section \<open>Construction\<close>

definition ncSocket_default :: "config \<Rightarrow> ncSocket" where [nc_defs]:
  "ncSocket_default c =
     \<lparr>m_sockfd = -1, m_listener = zero_poll_object c, m_stdiofd = None, m_to = zero_sockaddr,
      m_ipaddr = 0, m_socktype = 0, m_timeout = 10000, m_polltime = 100, m_port = 0,
      m_hostname = zero_hostname\<rparr>"

definition ncSocket_of_fd :: "config \<Rightarrow> fd \<Rightarrow> ncSocket" where [nc_defs]:
  "ncSocket_of_fd c sockfd =
     \<lparr>m_sockfd = sockfd, m_listener = zero_poll_object c, m_stdiofd = None, m_to = zero_sockaddr,
      m_ipaddr = 0, m_socktype = 0, m_timeout = 10000, m_polltime = 100, m_port = 0,
      m_hostname = zero_hostname\<rparr>"

definition ncSocket_of_host :: "config \<Rightarrow> cstring \<Rightarrow> 16 word \<Rightarrow> int \<Rightarrow> ncSocket" where [nc_defs]:
  "ncSocket_of_host c host port sockType =
     \<lparr>m_sockfd = 0, m_listener = zero_poll_object c, m_stdiofd = None, m_to = zero_sockaddr,
      m_ipaddr = 0, m_socktype = sockType, m_timeout = 10000, m_polltime = 100, m_port = port,
      m_hostname = copy_hostname host\<rparr>"

section \<open>Destruction, close and flush\<close>

text \<open>
  The destructor asks \<^verbatim>\<open>m_sockfd > 0\<close>. On Windows the member is a \<^verbatim>\<open>SOCKET\<close>, an unsigned number,
  and every value but 0 is greater than 0, \<^verbatim>\<open>INVALID_SOCKET\<close>, the model's -1, included.
\<close>

definition fd_positive :: "config \<Rightarrow> fd \<Rightarrow> bool" where [nc_defs]:
  "fd_positive c fd = (if cfg_platform c = Win32 then fd \<noteq> 0 else fd > 0)"

lemma fd_positive_simps [simp]:
  "0 < fd \<Longrightarrow> fd_positive c fd"
  "\<not> fd_positive c 0"
  "fd_positive c (-1) \<longleftrightarrow> cfg_platform c = Win32"
  by (simp_all add: fd_positive_def)

definition ncSocket_destroy :: "config \<Rightarrow> ncSocket \<Rightarrow> hist \<Rightarrow> ncSocket \<times> hist" where [nc_defs]:
  "ncSocket_destroy c S h =
     (case m_stdiofd S of
        Some f \<Rightarrow> (S\<lparr>m_sockfd := -1, m_stdiofd := None\<rparr>, SysFclose f # h)
      | None \<Rightarrow>
          if fd_positive c (m_sockfd S) then (S\<lparr>m_sockfd := -1\<rparr>, SysClose (m_sockfd S) # h) else (S, h))"

definition ncSocket_close :: "ncSocket \<Rightarrow> hist \<Rightarrow> ncSocket \<times> hist" where [nc_defs]:
  "ncSocket_close S h =
     (if m_sockfd S \<noteq> -1 then (S\<lparr>m_sockfd := -1\<rparr>, SysClose (m_sockfd S) # h) else (S, h))"

definition ncSocket_flush :: "os \<Rightarrow> ncSocket \<Rightarrow> hist \<Rightarrow> retcode \<times> ncSocket \<times> hist" where [nc_defs]:
  "ncSocket_flush K S h =
     (let (S, h) =
        (case m_stdiofd S of
           None \<Rightarrow> (let r = os_fdopen K h (m_sockfd S)
                    in (S\<lparr>m_stdiofd := r\<rparr>, SysFdopen (m_sockfd S) r # h))
         | Some f \<Rightarrow> (S, h))
      in case m_stdiofd S of
           None \<Rightarrow> (NC_FAILED, S, h)
         | Some f \<Rightarrow> (let r = os_fflush K h f
                      in (if r \<noteq> 0 then NC_FAILED else NC_OK, S, SysFflush f r # h)))"

section \<open>Accessors\<close>

text \<open>The setters store an \<open>int\<close> into an \<open>unsigned int\<close>: the value is taken modulo \<open>2^32\<close>.\<close>

definition setPollTime :: "int \<Rightarrow> ncSocket \<Rightarrow> ncSocket" where [nc_defs]:
  "setPollTime millisecs S = S\<lparr>m_polltime := word_of_int millisecs\<rparr>"

definition setTimeout :: "int \<Rightarrow> ncSocket \<Rightarrow> ncSocket" where [nc_defs]:
  "setTimeout millisecs S = S\<lparr>m_timeout := word_of_int millisecs\<rparr>"

definition getIpAddr :: "ncSocket \<Rightarrow> 64 word" where [nc_defs]:
  "getIpAddr S = m_ipaddr S"

definition setIpAddr :: "64 word \<Rightarrow> ncSocket \<Rightarrow> ncSocket" where [nc_defs]:
  "setIpAddr a S = S\<lparr>m_ipaddr := a\<rparr>"

definition getSockfd :: "ncSocket \<Rightarrow> fd" where [nc_defs]:
  "getSockfd S = m_sockfd S"

section \<open>checkTimeout\<close>

text \<open>
  Takes and returns the two variables it is given pointers to. \<open>haveAllData\<close> is -1 (not
  known), 0 (no) or 1 (yes); a \<open>switch\<close> without a matching case leaves \<open>ret\<close> alone.
\<close>

definition checkTimeout :: "ncSocket \<Rightarrow> 32 word \<Rightarrow> 32 word \<Rightarrow> int \<Rightarrow> retcode \<times> 32 word \<times> 32 word"
  where
  "checkTimeout S timeout timedout haveAllData =
     (let timeout = timeout + m_polltime S
      in if m_timeout S \<le> timeout
         then (if haveAllData = -1 then NC_TIMEDOUT
               else if haveAllData = 0 then NC_MOREDATA
               else NC_OK, timeout, 1)
         else (NC_OK, timeout, timedout))"

lemma checkTimeout_cases:
  assumes "checkTimeout S t td have_all = (r, t', td')"
  obtains (again) "r = NC_OK" "t' = t + m_polltime S" "td' = td" "t' < m_timeout S"
    | (expired) "t' = t + m_polltime S" "td' = 1" "m_timeout S \<le> t'"
        "r = (if have_all = -1 then NC_TIMEDOUT else if have_all = 0 then NC_MOREDATA else NC_OK)"
  using assms by (auto simp: checkTimeout_def Let_def not_le split: if_splits)

section \<open>Which descriptors a history closes\<close>

text \<open>
  \<open>fclose\<close> closes the descriptor its stream was opened on. A call with -1, no descriptor, fails and
  closes nothing.
\<close>

primrec file_fd :: "hist \<Rightarrow> filep \<Rightarrow> fd option" where
  "file_fd [] f = None"
| "file_fd (c # h) f =
     (case c of SysFdopen fd r \<Rightarrow> if r = Some f then Some fd else file_fd h f
              | _ \<Rightarrow> file_fd h f)"

primrec closes :: "hist \<Rightarrow> fd list" where
  "closes [] = []"
| "closes (c # h) =
     (case c of SysClose fd \<Rightarrow> closes h @ (if fd = -1 then [] else [fd])
              | SysFclose f \<Rightarrow> closes h @ (case file_fd h f of Some fd \<Rightarrow> [fd] | None \<Rightarrow> [])
              | _ \<Rightarrow> closes h)"

end
