(* ===== verification/Nc_Transfer.thy ===== *)
theory Nc_Transfer
  imports Nc_Sock
begin

text \<open>
  What the four transfer loops of \<^verbatim>\<open>src/ncsocket.cpp\<close> have in common: \<open>writeData\<close> and
  \<open>readData\<close>, each in a \<open>poll\<close> and a \<open>select\<close> version. The locals of such a call form a
  record \<open>xfer\<close>, its constant parameters a record \<open>xenv\<close>; the pointer \<open>pPtr\<close> is kept as
  its distance from the start of the caller's buffer, and the optional out parameter
  \<open>numActualBytes\<close> as an option (\<open>None\<close> is the null pointer).

  Two locales state what a loop body promises. \<open>clocked_loop\<close>: every trip that does not end
  the call adds the poll time to the clock; termination and the bound on the number of waits
  follow. \<open>transfer_loop\<close> extends it: the counters agree and the bytes moved are the bytes of
  the buffer, in order; the meaning of every return code follows. The bodies are interpreted in
  the theories that define them.
\<close>

section \<open>The locals of a transfer\<close>

record xenv =
  e_os :: os
  e_cfg :: config
  e_len :: int

record xfer =
  x_ret :: retcode
  x_off :: int
  x_rem :: int
  x_timeout :: "32 word"
  x_timedout :: "32 word"
  x_actual :: "int option"
  x_sock :: ncSocket
  x_mem :: mem
  x_hist :: hist

type_synonym xbody = "xenv \<Rightarrow> xfer \<Rightarrow> xfer + (retcode \<times> xfer)"

text \<open>
  The initial values; \<open>*numActualBytes\<close> is set to 0 when the pointer is not null.
\<close>

definition xfer_init :: "xenv \<Rightarrow> ncSocket \<Rightarrow> mem \<Rightarrow> bool \<Rightarrow> hist \<Rightarrow> xfer" where
  "xfer_init e S buf want_actual h =
     \<lparr>x_ret = NC_OK, x_off = 0, x_rem = e_len e, x_timeout = 0, x_timedout = 0,
      x_actual = (if want_actual then Some 0 else None), x_sock = S, x_mem = buf,
      x_hist = h\<rparr>"

definition xguard :: "xfer \<Rightarrow> bool" where
  "xguard s \<longleftrightarrow> 0 < x_rem s \<and> x_timedout s = 0"

text \<open>
  The recurring fragment
  \<^verbatim>\<open>if (numActualBytes && *numActualBytes > 0) haveAllData = (*numActualBytes == bufLen) ? 1 : 0;\<close>
\<close>

definition have_all :: "int option \<Rightarrow> int \<Rightarrow> int \<Rightarrow> int" where
  "have_all actual bufLen old =
     (case actual of
        Some n \<Rightarrow> if 0 < n then (if n = bufLen then 1 else 0) else old
      | None \<Rightarrow> old)"

text \<open>A call of \<open>checkTimeout\<close> whose result is stored in \<open>ret\<close>.\<close>

definition clock :: "int \<Rightarrow> xfer \<Rightarrow> xfer" where
  "clock have_it s =
     (let (r, t, td) = checkTimeout (x_sock s) (x_timeout s) (x_timedout s) have_it
      in s\<lparr>x_ret := r, x_timeout := t, x_timedout := td\<rparr>)"

text \<open>\<open>shutdown\<close> after a failed transfer: \<open>nRemaining = 0\<close>, the call, \<open>ret\<close>.\<close>

definition give_up :: "int \<Rightarrow> retcode \<Rightarrow> xfer \<Rightarrow> xfer" where
  "give_up how r s =
     s\<lparr>x_rem := 0, x_hist := SysShutdown (m_sockfd (x_sock s)) how # x_hist s, x_ret := r\<rparr>"

text \<open>\<open>nRemaining -= n; pPtr += n; if (numActualBytes) *numActualBytes += n;\<close>\<close>

definition advance :: "int \<Rightarrow> xfer \<Rightarrow> xfer" where
  "advance n s =
     s\<lparr>x_rem := x_rem s - n, x_off := x_off s + n, x_actual := map_option (\<lambda>a. a + n) (x_actual s)\<rparr>"

definition wait_for :: "ncPollObject \<Rightarrow> hist \<Rightarrow> xfer \<Rightarrow> xfer" where
  "wait_for p h s = s\<lparr>x_sock := (x_sock s)\<lparr>m_listener := p\<rparr>, x_hist := h\<rparr>"

text \<open>
  The call that moves the bytes: \<open>send\<close> or \<open>recv\<close> on a TCP socket, \<open>sendto\<close> or
  \<open>recvfrom\<close> on any other, where \<open>recvfrom\<close> also stores the sender's address in \<open>m_to\<close>.
\<close>

definition transmit :: "xenv \<Rightarrow> ncSocket \<Rightarrow> byte list \<Rightarrow> hist \<Rightarrow> int \<times> hist" where
  "transmit e S data h =
     (if m_socktype S = SOCKTYPE_TCPIP
      then k_send (e_os e) (m_sockfd S) data (ncRecvFlag (e_cfg e)) h
      else k_sendto (e_os e) (m_sockfd S) data (m_to S) h)"

definition receive :: "xenv \<Rightarrow> ncSocket \<Rightarrow> int \<Rightarrow> hist \<Rightarrow> int \<times> byte list \<times> ncSocket \<times> hist" where
  "receive e S n h =
     (if m_socktype S = SOCKTYPE_TCPIP
      then (let (r, bs, h) = k_recv (e_os e) (m_sockfd S) n (ncRecvFlag (e_cfg e)) h
            in (r, bs, S, h))
      else (let (r, bs, from, h) = k_recvfrom (e_os e) (m_sockfd S) n h
            in (r, bs, if r < 0 then S else S\<lparr>m_to := from\<rparr>, h)))"

lemma waits_transmit: "transmit e S d h = (n, h') \<Longrightarrow> waits h' = waits h"
  by (auto simp: transmit_def nc_os Let_def split: if_splits)

lemma waits_receive: "receive e S n h = (r, bs, S', h') \<Longrightarrow> waits h' = waits h"
  by (auto simp: receive_def nc_os Let_def split: if_splits prod.splits)

lemma closes_transmit: "transmit e S d h = (n, h') \<Longrightarrow> closes h' = closes h"
  by (auto simp: transmit_def nc_os Let_def split: if_splits)

lemma closes_receive: "receive e S n h = (r, bs, S', h') \<Longrightarrow> closes h' = closes h"
  by (auto simp: receive_def nc_os Let_def split: if_splits prod.splits)

lemma receive_sock:
  assumes "receive e S n h = (r, bs, S', h')"
  shows "\<exists>a. S' = S\<lparr>m_to := a\<rparr>"
proof (cases "S' = S")
  case True
  then have "S' = S\<lparr>m_to := m_to S\<rparr>" by simp
  then show ?thesis ..
next
  case False
  with assms show ?thesis
    by (auto simp: receive_def nc_os Let_def split: if_splits prod.splits)
qed

section \<open>The clock\<close>

text \<open>\<open>frame s s'\<close>: only the poll object and the peer address of the socket object changed.\<close>

definition frame :: "xfer \<Rightarrow> xfer \<Rightarrow> bool" where
  "frame s s' \<longleftrightarrow>
     x_sock s' = (x_sock s)\<lparr>m_listener := m_listener (x_sock s'), m_to := m_to (x_sock s')\<rparr>"

text \<open>\<open>ticked s s'\<close>: the poll time was added to the clock, which has not run out.\<close>

definition ticked :: "xfer \<Rightarrow> xfer \<Rightarrow> bool" where
  "ticked s s' \<longleftrightarrow>
     x_timeout s' = x_timeout s + m_polltime (x_sock s) \<and> x_timeout s' < m_timeout (x_sock s)"

text \<open>
  The settings for which the 32-bit clock reaches the time out before it wraps round.
\<close>

definition clock_fits :: "ncSocket \<Rightarrow> bool" where
  "clock_fits S \<longleftrightarrow> 0 < m_polltime S \<and> uint (m_timeout S) + uint (m_polltime S) \<le> 2 ^ 32"

text \<open>A call whose clock has not run out, and the time it has left.\<close>

definition on_time :: "xfer \<Rightarrow> bool" where
  "on_time s \<longleftrightarrow> clock_fits (x_sock s) \<and>
     (xguard s \<longrightarrow> x_timeout s < m_timeout (x_sock s) \<or> x_timeout s = 0)"

definition time_left :: "xfer \<Rightarrow> nat" where
  "time_left s =
     (if xguard s then Suc (unat (m_timeout (x_sock s)) - unat (x_timeout s)) else 0)"

lemma frame_refl [simp]: "frame s s"
  by (simp add: frame_def)

lemma frame_fields:
  assumes "frame s s'"
  shows "m_timeout (x_sock s') = m_timeout (x_sock s)"
    and "m_polltime (x_sock s') = m_polltime (x_sock s)"
    and "m_sockfd (x_sock s') = m_sockfd (x_sock s)"
    and "m_socktype (x_sock s') = m_socktype (x_sock s)"
    and "m_stdiofd (x_sock s') = m_stdiofd (x_sock s)"
    and "m_ipaddr (x_sock s') = m_ipaddr (x_sock s)"
    and "m_port (x_sock s') = m_port (x_sock s)"
    and "m_hostname (x_sock s') = m_hostname (x_sock s)"
  using assms [unfolded frame_def, THEN arg_cong, of m_timeout]
    assms [unfolded frame_def, THEN arg_cong, of m_polltime]
    assms [unfolded frame_def, THEN arg_cong, of m_sockfd]
    assms [unfolded frame_def, THEN arg_cong, of m_socktype]
    assms [unfolded frame_def, THEN arg_cong, of m_stdiofd]
    assms [unfolded frame_def, THEN arg_cong, of m_ipaddr]
    assms [unfolded frame_def, THEN arg_cong, of m_port]
    assms [unfolded frame_def, THEN arg_cong, of m_hostname]
  by simp_all

lemma frame_trans:
  assumes st: "frame s t" and tu: "frame t u"
  shows "frame s u"
  unfolding frame_def
  by (rule ncSocket.equality) (simp_all add: frame_fields [OF st] frame_fields [OF tu])

lemma word_add_no_wrap:
  fixes t p T :: "32 word"
  assumes "uint T + uint p \<le> 2 ^ 32" "t < T \<or> t = 0"
  shows "unat (t + p) = unat t + unat p"
proof -
  have "unat t + unat p < 2 ^ 32"
  proof (cases "t = 0")
    case True
    then show ?thesis using unsigned_less [of p] by simp
  next
    case False
    with assms(2) have "uint t < uint T" by (simp add: word_less_def)
    with assms(1) have "int (unat t + unat p) < int (2 ^ 32)" by simp
    then show ?thesis by (simp only: of_nat_less_iff)
  qed
  then show ?thesis by (simp add: unat_word_ariths)
qed

locale clocked_loop =
  fixes body :: xbody and clock_ok :: "xenv \<Rightarrow> bool"
  assumes leaves: "\<not> xguard s \<Longrightarrow> body e s = Inr (x_ret s, s)"
    and keeps: "body e s = Inl s' \<Longrightarrow> frame s s'"
    and ticks: "clock_ok e \<Longrightarrow> xguard s \<Longrightarrow> body e s = Inl s' \<Longrightarrow> xguard s' \<Longrightarrow> ticked s s'"
    and waits_again: "xguard s \<Longrightarrow> body e s = Inl s' \<Longrightarrow> waits (x_hist s') = Suc (waits (x_hist s))"
    and waits_last: "xguard s \<Longrightarrow> body e s = Inr (r, s') \<Longrightarrow>
      waits (x_hist s') = Suc (waits (x_hist s))"
    and keeps_last: "body e s = Inr (r, s') \<Longrightarrow> frame s s'"
    and open_again: "body e s = Inl s' \<Longrightarrow> closes (x_hist s') = closes (x_hist s)"
    and open_last: "body e s = Inr (r, s') \<Longrightarrow> closes (x_hist s') = closes (x_hist s)"
begin

text \<open>A finished call has changed no setting and closed no descriptor.\<close>

lemma run_frame:
  assumes run: "run_loop (body e) s = Some (r, s')"
  shows "frame s s' \<and> closes (x_hist s') = closes (x_hist s)"
proof -
  let ?P = "\<lambda>u. frame s u \<and> closes (x_hist u) = closes (x_hist s)"
  have "?P (snd (r, s'))"
  proof (rule run_loop_inv [OF run, where I = ?P and Q = "\<lambda>q. ?P (snd q)"])
    show "?P u'" if "?P u" "body e u = Inl u'" for u u'
      using that keeps open_again frame_trans by metis
    show "?P (snd q)" if "?P u" "body e u = Inr q" for u q
      using that keeps_last [of e u "fst q" "snd q"] open_last [of e u "fst q" "snd q"] frame_trans
      by auto
  qed simp
  then show ?thesis by simp
qed

lemma only_guarded: "body e s = Inl s' \<Longrightarrow> xguard s"
  using leaves by fastforce

lemma step_clock:
  assumes "clock_ok e" "clock_fits (x_sock s)" "body e s = Inl s'" "xguard s'"
    and "x_timeout s < m_timeout (x_sock s) \<or> x_timeout s = 0"
  shows "unat (x_timeout s') = unat (x_timeout s) + unat (m_polltime (x_sock s))"
    and "x_timeout s' < m_timeout (x_sock s)"
proof -
  have "ticked s s'"
    by (rule ticks [OF assms(1) only_guarded [OF assms(3)] assms(3,4)])
  then show "unat (x_timeout s') = unat (x_timeout s) + unat (m_polltime (x_sock s))"
    and "x_timeout s' < m_timeout (x_sock s)"
    using word_add_no_wrap assms(2,5) by (auto simp: ticked_def clock_fits_def)
qed

text \<open>The time that is left, as a measure: every trip that goes round again uses some of it.\<close>

lemma time_falls:
  assumes ok: "clock_ok e" and run: "on_time s" and b: "body e s = Inl s'"
  shows "on_time s' \<and> time_left s' < time_left s"
proof -
  have g: "xguard s" by (rule only_guarded [OF b])
  have fr: "m_timeout (x_sock s') = m_timeout (x_sock s)"
    "m_polltime (x_sock s') = m_polltime (x_sock s)"
    using frame_fields [OF keeps [OF b]] by simp_all
  show ?thesis
  proof (cases "xguard s'")
    case True
    have t: "unat (x_timeout s') = unat (x_timeout s) + unat (m_polltime (x_sock s))"
      "x_timeout s' < m_timeout (x_sock s)"
      using step_clock [OF ok _ b True] run g by (auto simp: on_time_def)
    have "0 < unat (m_polltime (x_sock s))"
      using run by (simp add: on_time_def clock_fits_def word_less_nat_alt)
    with t fr run g True show ?thesis
      by (auto simp: on_time_def time_left_def clock_fits_def word_less_nat_alt)
  next
    case False
    with run fr g show ?thesis by (simp add: on_time_def time_left_def clock_fits_def)
  qed
qed

text \<open>The loop returns.\<close>

lemma returns:
  assumes ok: "clock_ok e" and fits: "clock_fits (x_sock s)" and "x_timeout s = 0"
  shows "\<exists>r s'. run_loop (body e) s = Some (r, s')"
proof -
  have "on_time s" using assms by (simp add: on_time_def)
  then have "\<exists>r. run_loop (body e) s = Some r"
    by (rule run_loop_returns [where m = time_left]) (rule time_falls [OF ok])
  then show ?thesis by auto
qed

text \<open>The number of times it waits for the descriptor is bounded by the two settings.\<close>

lemma waits_bound:
  assumes run: "run_loop (body e) s = Some (r, s')"
    and ok: "clock_ok e" and fits: "clock_fits (x_sock s)" and z: "x_timeout s = 0"
  shows "waits (x_hist s') \<le> Suc (waits (x_hist s)) \<or>
    (waits (x_hist s') - Suc (waits (x_hist s))) * unat (m_polltime (x_sock s))
      < unat (m_timeout (x_sock s))"
proof -
  let ?p = "unat (m_polltime (x_sock s))" and ?T = "unat (m_timeout (x_sock s))"
  let ?k = "\<lambda>u. waits (x_hist u) - waits (x_hist s)"
  let ?in = "\<lambda>u. waits (x_hist s) \<le> waits (x_hist u)"
  let ?B = "\<lambda>u. ?in u \<and> (?k u \<le> 1 \<or> (?k u - 1) * ?p < ?T)"
  let ?I = "\<lambda>u. frame s u \<and> ?B u \<and>
    (xguard u \<longrightarrow> unat (x_timeout u) = ?k u * ?p \<and> (?k u = 0 \<or> ?k u * ?p < ?T))"
  have "?B (snd (r, s'))"
  proof (rule run_loop_inv [OF run, where I = ?I and Q = "\<lambda>q. ?B (snd q)"])
    show "?I s" using z by simp
  next
    fix u u'
    assume I: "?I u" and b: "body e u = Inl u'"
    have g: "xguard u" by (rule only_guarded [OF b])
    have w: "waits (x_hist u') = Suc (waits (x_hist u))" by (rule waits_again [OF g b])
    have fr: "frame s u'" using I keeps [OF b] frame_trans by blast
    have set: "m_timeout (x_sock u) = m_timeout (x_sock s)"
      "m_polltime (x_sock u) = m_polltime (x_sock s)"
      using frame_fields [of s u] I by simp_all
    have "xguard u' \<Longrightarrow> unat (x_timeout u') = ?k u * ?p + ?p \<and> x_timeout u' < m_timeout (x_sock s)"
      using step_clock [OF ok _ b] I g fits set
      by (auto simp: clock_fits_def word_less_nat_alt unat_eq_zero)
    with I g w fr show "?I u'"
      by (auto simp: Suc_diff_le word_less_nat_alt)
  next
    fix u q
    assume I: "?I u" and b: "body e u = Inr q"
    show "?B (snd q)"
    proof (cases "xguard u")
      case True
      from waits_last [OF True, of e "fst q" "snd q"] b I True show ?thesis
        by (auto simp: Suc_diff_le)
    next
      case False
      with leaves [OF False, of e] b I show ?thesis by auto
    qed
  qed
  then show ?thesis by auto
qed

end

section \<open>What a trip round the loop does\<close>

datatype xdir = Sending | Receiving

fun moved :: "xdir \<Rightarrow> hist \<Rightarrow> byte list" where
  "moved Sending h = sent_bytes h"
| "moved Receiving h = received_bytes h"

fun how_of :: "xdir \<Rightarrow> int" where
  "how_of Sending = NCSD_SEND"
| "how_of Receiving = NCSD_READ"

text \<open>
  \<open>called d s s' bs\<close>: calls were made that moved the bytes \<open>bs\<close>, out of or into the
  buffer at \<open>pPtr\<close>; nothing else happened to the locals.
\<close>

definition called :: "xdir \<Rightarrow> xfer \<Rightarrow> xfer \<Rightarrow> byte list \<Rightarrow> bool" where
  "called d s s' bs \<longleftrightarrow>
     (\<exists>p a h. s' = s\<lparr>x_sock := (x_sock s)\<lparr>m_listener := p, m_to := a\<rparr>, x_hist := h,
          x_mem := (if d = Receiving then mem_write (x_mem s) (x_off s) bs else x_mem s)\<rparr> \<and>
        moved d h = moved d (x_hist s) @ bs) \<and>
     (d = Sending \<longrightarrow> mem_read (x_mem s) (x_off s) (int (length bs)) = bs)"

lemma called_wait: "moved d h = moved d (x_hist s) \<Longrightarrow> called d s (wait_for p h s) []"
  unfolding called_def wait_for_def
  by (intro conjI exI [where x = p] exI [where x = "m_to (x_sock s)"] exI [where x = h])
    simp_all

lemma called_transmit:
  assumes c: "called Sending s s1 []" and doc: "send_doc (e_os e)" and g: "xguard s"
    and t: "transmit e S (mem_read (x_mem s1) (x_off s1) (x_rem s1)) (x_hist s1) = (n, h)"
  shows "n < 0 \<Longrightarrow> called Sending s (s1\<lparr>x_hist := h\<rparr>) []"
    and "0 \<le> n \<Longrightarrow> n \<le> x_rem s"
    and "0 \<le> n \<Longrightarrow> called Sending s (s1\<lparr>x_hist := h\<rparr>) (mem_read (x_mem s) (x_off s) n)"
proof -
  let ?d = "mem_read (x_mem s) (x_off s) (x_rem s)"
  have n: "n \<le> x_rem s" and h: "sent_bytes h = sent_bytes (x_hist s) @ take (nat n) ?d"
    using t g c
    using send_docD(1) [OF doc, where bs = ?d] send_docD(2) [OF doc, where bs = ?d]
    by (auto simp: transmit_def nc_os called_def xguard_def Let_def split: if_splits)
  from c obtain p a h1 where s1:
    "s1 = s\<lparr>x_sock := (x_sock s)\<lparr>m_listener := p, m_to := a\<rparr>, x_hist := h1, x_mem := x_mem s\<rparr>"
    by (auto simp: called_def)
  show "n \<le> x_rem s" if "0 \<le> n" by (rule n)
  show "called Sending s (s1\<lparr>x_hist := h\<rparr>) []" if "n < 0"
    using h that unfolding called_def s1
    by (intro conjI exI [where x = p] exI [where x = a] exI [where x = h]) simp_all
  show "called Sending s (s1\<lparr>x_hist := h\<rparr>) (mem_read (x_mem s) (x_off s) n)" if "0 \<le> n"
    using h that n take_mem_read [OF that n, of "x_mem s" "x_off s"] unfolding called_def s1
    by (intro conjI exI [where x = p] exI [where x = a] exI [where x = h]) simp_all
qed

lemma called_receive:
  assumes c: "called Receiving s s1 []" and doc: "recv_doc (e_os e)" and g: "xguard s"
    and t: "receive e (x_sock s1) (x_rem s1) (x_hist s1) = (n, bs, S, h)"
  shows "n < 0 \<Longrightarrow> bs = []" "0 \<le> n \<Longrightarrow> n = int (length bs)" "n \<le> x_rem s"
    and "called Receiving s
      (s1\<lparr>x_sock := S, x_hist := h, x_mem := mem_write (x_mem s1) (x_off s1) bs\<rparr>) bs"
proof -
  have r: "recv_result (x_rem s) n bs"
    and h: "received_bytes h = received_bytes (x_hist s) @ bs"
    and S: "\<exists>a. S = (x_sock s1)\<lparr>m_to := a\<rparr>"
    using t g c
    by (auto simp: receive_def nc_os called_def xguard_def Let_def
        split: if_splits prod.splits intro: recv_docD [OF doc less_imp_le])
  show "n < 0 \<Longrightarrow> bs = []" "0 \<le> n \<Longrightarrow> n = int (length bs)" "n \<le> x_rem s"
    using r by (auto simp: recv_result_def)
  from c obtain p a h1 where s1:
    "s1 = s\<lparr>x_sock := (x_sock s)\<lparr>m_listener := p, m_to := a\<rparr>, x_hist := h1,
       x_mem := mem_write (x_mem s) (x_off s) []\<rparr>"
    by (auto simp: called_def)
  from S obtain a' where S': "S = (x_sock s1)\<lparr>m_to := a'\<rparr>" by blast
  show "called Receiving s
      (s1\<lparr>x_sock := S, x_hist := h, x_mem := mem_write (x_mem s1) (x_off s1) bs\<rparr>) bs"
    using h unfolding called_def s1 S'
    by (intro conjI exI [where x = p] exI [where x = a'] exI [where x = h]) simp_all
qed

text \<open>
  The abstract loop: wait in vain, be told that the call would block with the time used up,
  move some bytes, or lose the connection.
\<close>

inductive xstep :: "xdir \<Rightarrow> xenv \<Rightarrow> xfer \<Rightarrow> xfer \<Rightarrow> bool" for d e where
  Idle: "called d s s1 [] \<Longrightarrow>
     xstep d e s (clock (have_all (x_actual s) (e_len e) (-1)) s1)"
| Blocked: "called d s s1 [] \<Longrightarrow> s2 = clock (have_all (x_actual s) (e_len e) (-1)) s1 \<Longrightarrow>
     x_ret s2 \<noteq> NC_OK \<Longrightarrow> xstep d e s (s2\<lparr>x_rem := 0\<rparr>)"
| Moved: "called d s s1 bs \<Longrightarrow> int (length bs) \<le> x_rem s \<Longrightarrow>
     s2 = advance (int (length bs)) s1 \<Longrightarrow>
     xstep d e s (clock (have_all (x_actual s2) (e_len e) (-1)) s2)"
| Lost: "called d s s1 [] \<Longrightarrow> r = NC_CLIENTDISCONNECT \<or> r = NC_FAILED \<Longrightarrow>
     xstep d e s (give_up (how_of d) r s1)"

text \<open>The counters agree, and the return code so far says what it should.\<close>

definition ret_ok :: "int \<Rightarrow> xfer \<Rightarrow> bool" where
  "ret_ok len s \<longleftrightarrow>
     (case x_ret s of
        NC_OK \<Rightarrow> x_off s + x_rem s = len \<and> (x_timedout s = 0 \<or> x_rem s = 0)
      | NC_TIMEDOUT \<Rightarrow> x_timedout s \<noteq> 0 \<and> (x_actual s = None \<or> x_off s = 0)
      | NC_MOREDATA \<Rightarrow> x_timedout s \<noteq> 0 \<and> x_actual s \<noteq> None \<and> 0 < x_off s \<and> x_off s < len
      | NC_FAILED \<Rightarrow> x_rem s = 0
      | NC_CLIENTDISCONNECT \<Rightarrow> x_rem s = 0
      | _ \<Rightarrow> False)"

definition xfer_ok :: "int \<Rightarrow> xfer \<Rightarrow> bool" where
  "xfer_ok len s \<longleftrightarrow>
     0 \<le> x_off s \<and> 0 \<le> x_rem s \<and> x_off s + x_rem s \<le> len \<and>
     (x_actual s = None \<or> x_actual s = Some (x_off s)) \<and> ret_ok len s"

text \<open>The bytes moved since \<open>s0\<close> are the first \<open>x_off\<close> bytes of the buffer.\<close>

definition transferred :: "xdir \<Rightarrow> xfer \<Rightarrow> xfer \<Rightarrow> bool" where
  "transferred d s0 s \<longleftrightarrow>
     moved d (x_hist s) = moved d (x_hist s0) @ mem_read (x_mem s) 0 (x_off s) \<and>
     (\<forall>a. a < 0 \<or> x_off s \<le> a \<or> d = Sending \<longrightarrow> x_mem s a = x_mem s0 a) \<and>
     (x_ret s = NC_CLIENTDISCONNECT \<longrightarrow>
        (\<exists>h. x_hist s = SysShutdown (m_sockfd (x_sock s)) (how_of d) # h))"

lemma have_all_cases:
  "have_all a len (-1) = (case a of Some n \<Rightarrow> if 0 < n then if n = len then 1 else 0 else -1 | None \<Rightarrow> -1)"
  by (simp add: have_all_def split: option.split)

lemma guard_ret_ok: "xguard s \<Longrightarrow> ret_ok len s \<Longrightarrow> x_ret s = NC_OK \<and> x_off s + x_rem s = len"
  by (auto simp: xguard_def ret_ok_def split: retcode.splits)

lemma called_fields:
  assumes "called d s s' bs"
  shows "x_ret s' = x_ret s" "x_off s' = x_off s" "x_rem s' = x_rem s"
    "x_timeout s' = x_timeout s" "x_timedout s' = x_timedout s" "x_actual s' = x_actual s"
    "frame s s'" "moved d (x_hist s') = moved d (x_hist s) @ bs"
    "x_mem s' = (if d = Receiving then mem_write (x_mem s) (x_off s) bs else x_mem s)"
    "d = Sending \<Longrightarrow> mem_read (x_mem s) (x_off s) (int (length bs)) = bs"
  using assms by (auto simp: called_def frame_def)

lemma advance_fields [simp]:
  "x_ret (advance n s) = x_ret s" "x_off (advance n s) = x_off s + n"
  "x_rem (advance n s) = x_rem s - n" "x_timeout (advance n s) = x_timeout s"
  "x_timedout (advance n s) = x_timedout s" "x_sock (advance n s) = x_sock s"
  "x_actual (advance n s) = map_option (\<lambda>a. a + n) (x_actual s)"
  "x_mem (advance n s) = x_mem s" "x_hist (advance n s) = x_hist s"
  by (simp_all add: advance_def)

lemma clock_fields [simp]:
  "x_off (clock a s) = x_off s" "x_rem (clock a s) = x_rem s" "x_sock (clock a s) = x_sock s"
  "x_actual (clock a s) = x_actual s" "x_mem (clock a s) = x_mem s" "x_hist (clock a s) = x_hist s"
  "x_timeout (clock a s) = x_timeout s + m_polltime (x_sock s)"
  by (simp_all add: clock_def checkTimeout_def Let_def)

lemma give_up_fields [simp]:
  "x_ret (give_up w r s) = r" "x_off (give_up w r s) = x_off s" "x_rem (give_up w r s) = 0"
  "x_timeout (give_up w r s) = x_timeout s" "x_timedout (give_up w r s) = x_timedout s"
  "x_actual (give_up w r s) = x_actual s" "x_sock (give_up w r s) = x_sock s"
  "x_mem (give_up w r s) = x_mem s"
  "x_hist (give_up w r s) = SysShutdown (m_sockfd (x_sock s)) w # x_hist s"
  by (simp_all add: give_up_def)

lemma clock_ret:
  "x_ret (clock a s) =
     (if m_timeout (x_sock s) \<le> x_timeout s + m_polltime (x_sock s)
      then if a = -1 then NC_TIMEDOUT else if a = 0 then NC_MOREDATA else NC_OK else NC_OK)"
  "x_timedout (clock a s) =
     (if m_timeout (x_sock s) \<le> x_timeout s + m_polltime (x_sock s) then 1 else x_timedout s)"
  by (simp_all add: clock_def checkTimeout_def Let_def)

lemma clock_xfer_ok:
  assumes "0 \<le> x_off s" "0 \<le> x_rem s" "x_off s + x_rem s = len" "x_timedout s = 0"
    and act: "x_actual s = None \<or> x_actual s = Some (x_off s)"
  shows "xfer_ok len (clock (have_all (x_actual s) len (-1)) s)"
proof (cases "m_timeout (x_sock s) \<le> x_timeout s + m_polltime (x_sock s)")
  case True
  from act show ?thesis
    using assms(1-4) True
    by (elim disjE) (auto simp: xfer_ok_def ret_ok_def clock_ret have_all_def)
next
  case False
  with assms show ?thesis by (simp add: xfer_ok_def ret_ok_def clock_ret)
qed

lemma xstep_ok:
  assumes "xstep d e s s'" "xguard s" "xfer_ok (e_len e) s"
  shows "xfer_ok (e_len e) s'"
proof -
  have s: "x_ret s = NC_OK" "x_off s + x_rem s = e_len e" "x_timedout s = 0" "0 < x_rem s"
    "0 \<le> x_off s" "x_actual s = None \<or> x_actual s = Some (x_off s)"
    using assms(2,3) guard_ret_ok by (auto simp: xfer_ok_def xguard_def)
  from assms(1) show ?thesis
  proof cases
    case (Idle s1)
    then show ?thesis
      using s clock_xfer_ok [of s1 "e_len e"] by (simp add: called_fields [OF Idle(2)])
  next
    case (Blocked s1 s2)
    then have "xfer_ok (e_len e) s2"
      using s clock_xfer_ok [of s1 "e_len e"] by (simp add: called_fields [OF Blocked(2)])
    with Blocked show ?thesis
      by (auto simp: xfer_ok_def ret_ok_def split: retcode.splits)
  next
    case (Moved s1 bs s2)
    then show ?thesis
      using s clock_xfer_ok [of s2 "e_len e"] by (auto simp: called_fields [OF Moved(2)])
  next
    case (Lost s1 r)
    then show ?thesis
      using s by (auto simp: called_fields [OF Lost(2)] xfer_ok_def ret_ok_def)
  qed
qed

lemma xstep_frame: "xstep d e s s' \<Longrightarrow> frame s s'"
  by (induction rule: xstep.induct)
    (auto simp: frame_def dest: called_fields(7))

lemma xstep_actual:
  "xstep d e s s' \<Longrightarrow> (x_actual s' = None) = (x_actual s = None)"
  by (induction rule: xstep.induct) (simp_all add: called_fields)

lemma sent_shutdown [simp]: "moved d (SysShutdown fd w # h) = moved d h"
  by (cases d) simp_all

text \<open>Moving the bytes \<open>bs\<close> at \<open>pPtr\<close> extends what has been transferred.\<close>

lemma called_transferred:
  assumes c: "called d s s1 bs" and t: "transferred d s0 s" and "0 \<le> x_off s"
  shows "moved d (x_hist s1) =
      moved d (x_hist s0) @ mem_read (x_mem s1) 0 (x_off s + int (length bs))"
    and "a < 0 \<or> x_off s + int (length bs) \<le> a \<or> d = Sending \<Longrightarrow> x_mem s1 a = x_mem s0 a"
proof -
  have app: "mem_read (x_mem s1) 0 (x_off s + int (length bs)) =
    mem_read (x_mem s1) 0 (x_off s) @ mem_read (x_mem s1) (x_off s) (int (length bs))"
    using mem_read_append [of "x_off s" "int (length bs)" "x_mem s1" 0] assms(3) by simp
  have old: "mem_read (x_mem s1) 0 (x_off s) = mem_read (x_mem s) 0 (x_off s)"
    by (simp add: called_fields [OF c] mem_read_write_before)
  have new: "mem_read (x_mem s1) (x_off s) (int (length bs)) = bs"
    using called_fields(9,10) [OF c] by (cases d) simp_all
  show "moved d (x_hist s1) =
      moved d (x_hist s0) @ mem_read (x_mem s1) 0 (x_off s + int (length bs))"
    using t unfolding app old new by (simp add: called_fields(8) [OF c] transferred_def)
  show "x_mem s1 a = x_mem s0 a" if "a < 0 \<or> x_off s + int (length bs) \<le> a \<or> d = Sending"
    using that t assms(3)
    by (cases d) (auto simp: called_fields(9) [OF c] transferred_def mem_write_outside)
qed

lemma xstep_transferred:
  assumes "xstep d e s s'" and t: "transferred d s0 s" and o: "0 \<le> x_off s"
    and r: "x_ret s = NC_OK"
  shows "transferred d s0 s'"
  using assms(1)
proof cases
  case (Idle s1)
  with called_transferred [OF Idle(2) t o] show ?thesis
    by (simp add: transferred_def called_fields [OF Idle(2)] clock_ret)
next
  case (Blocked s1 s2)
  with called_transferred [OF Blocked(2) t o] show ?thesis
    by (simp add: transferred_def called_fields [OF Blocked(2)] clock_ret)
next
  case (Moved s1 bs s2)
  with called_transferred [OF Moved(2) t o] show ?thesis
    by (simp add: transferred_def called_fields [OF Moved(2)] clock_ret)
next
  case (Lost s1 r)
  with called_transferred [OF Lost(2) t o] show ?thesis
    by (simp add: transferred_def called_fields [OF Lost(2)])
qed

section \<open>The contract of a transfer\<close>

text \<open>What each return code means, once the loop has been left.\<close>

definition result_ok :: "int \<Rightarrow> xdir \<Rightarrow> retcode \<Rightarrow> xfer \<Rightarrow> bool" where
  "result_ok len d r s \<longleftrightarrow>
     (case r of
        NC_OK \<Rightarrow> x_off s = len
      | NC_TIMEDOUT \<Rightarrow> x_actual s = None \<or> x_off s = 0
      | NC_MOREDATA \<Rightarrow> x_actual s \<noteq> None \<and> 0 < x_off s \<and> x_off s < len
      | NC_FAILED \<Rightarrow> True
      | NC_CLIENTDISCONNECT \<Rightarrow>
          (\<exists>h. x_hist s = SysShutdown (m_sockfd (x_sock s)) (how_of d) # h)
      | _ \<Rightarrow> False)"

text \<open>
  A call that started in \<open>s0\<close> and returned \<open>r\<close> in \<open>s\<close>: the first \<open>n\<close> bytes of the
  buffer were moved, in order and nothing else, \<open>n\<close> is reported if it was asked for, the
  rest of the memory and the object are as before, and \<open>r\<close> says how it went.
\<close>

definition transfer_post :: "int \<Rightarrow> xdir \<Rightarrow> xfer \<Rightarrow> retcode \<Rightarrow> xfer \<Rightarrow> bool" where
  "transfer_post len d s0 r s \<longleftrightarrow>
     0 \<le> x_off s \<and> x_off s \<le> len \<and>
     x_actual s = map_option (\<lambda>_. x_off s) (x_actual s0) \<and>
     moved d (x_hist s) = moved d (x_hist s0) @ mem_read (x_mem s) 0 (x_off s) \<and>
     (\<forall>a. a < 0 \<or> x_off s \<le> a \<or> d = Sending \<longrightarrow> x_mem s a = x_mem s0 a) \<and>
     frame s0 s \<and> result_ok len d r s"

locale transfer_loop = clocked_loop body clock_ok for body clock_ok +
  fixes env_ok :: "xenv \<Rightarrow> bool" and dir :: xdir
  assumes env_clock: "env_ok e \<Longrightarrow> clock_ok e"
    and refines: "env_ok e \<Longrightarrow> xguard s \<Longrightarrow> body e s = Inl s' \<Longrightarrow> xstep dir e s s'"
    and fails: "env_ok e \<Longrightarrow> xguard s \<Longrightarrow> body e s = Inr (r, s') \<Longrightarrow>
      r = NC_FAILED \<and> called dir s s' []"
begin

lemma step_inv:
  assumes e: "env_ok e" and b: "body e s = Inl s'"
    and inv: "xfer_ok (e_len e) s" "transferred dir s0 s" "frame s0 s"
  shows "xfer_ok (e_len e) s'" "transferred dir s0 s'" "frame s0 s'"
proof -
  have g: "xguard s" by (rule only_guarded [OF b])
  have x: "xstep dir e s s'" by (rule refines [OF e g b])
  show "xfer_ok (e_len e) s'" by (rule xstep_ok [OF x g inv(1)])
  show "transferred dir s0 s'"
    using xstep_transferred [OF x inv(2)] guard_ret_ok [OF g] inv(1) by (auto simp: xfer_ok_def)
  show "frame s0 s'" by (rule frame_trans [OF inv(3) xstep_frame [OF x]])
qed

lemma leave_post:
  assumes e: "env_ok e" and b: "body e s = Inr (r, s')"
    and inv: "xfer_ok (e_len e) s" "transferred dir s0 s" "frame s0 s"
    and act: "(x_actual s = None) = (x_actual s0 = None)"
  shows "transfer_post (e_len e) dir s0 r s'"
proof (cases "xguard s")
  case True
  have c: "r = NC_FAILED" "called dir s s' []" using fails [OF e True b] by simp_all
  have "0 \<le> x_off s" using inv(1) by (simp add: xfer_ok_def)
  from called_transferred [OF c(2) inv(2) this] show ?thesis
    using inv act c(1) frame_trans [OF inv(3) called_fields(7) [OF c(2)]]
    by (cases "x_actual s0")
      (auto simp: transfer_post_def result_ok_def xfer_ok_def called_fields [OF c(2)])
next
  case False
  then have s': "r = x_ret s" "s' = s" using leaves [OF False, of e] b by simp_all
  have "result_ok (e_len e) dir (x_ret s) s"
    using False inv(1,2)
    by (auto simp: result_ok_def xfer_ok_def ret_ok_def transferred_def xguard_def
        split: retcode.splits)
  then show ?thesis
    using inv act s'
    by (cases "x_actual s0") (auto simp: transfer_post_def xfer_ok_def transferred_def)
qed

lemma post:
  assumes e: "env_ok e" and "0 \<le> e_len e"
    and run: "run_loop (body e) (xfer_init e S buf want h) = Some (r, s)"
  shows "transfer_post (e_len e) dir (xfer_init e S buf want h) r s"
proof -
  let ?s0 = "xfer_init e S buf want h"
  let ?I = "\<lambda>s. xfer_ok (e_len e) s \<and> transferred dir ?s0 s \<and> frame ?s0 s \<and>
    (x_actual s = None) = (x_actual ?s0 = None)"
  have "transfer_post (e_len e) dir ?s0 (fst (r, s)) (snd (r, s))"
  proof (rule run_loop_inv [OF run, where I = ?I and
        Q = "\<lambda>q. transfer_post (e_len e) dir ?s0 (fst q) (snd q)"])
    show "?I ?s0"
      using assms(2) by (simp add: xfer_init_def xfer_ok_def ret_ok_def transferred_def)
  next
    fix s s'
    assume I: "?I s" and b: "body e s = Inl s'"
    have "xstep dir e s s'" by (rule refines [OF e only_guarded [OF b] b])
    with I step_inv [OF e b] xstep_actual show "?I s'" by metis
  next
    fix s q
    assume I: "?I s" and "body e s = Inr q"
    then show "transfer_post (e_len e) dir ?s0 (fst q) (snd q)"
      using leave_post [OF e, of s "fst q" "snd q" ?s0] by simp
  qed
  then show ?thesis by simp
qed

lemma total_post:
  assumes e: "env_ok e" and "0 \<le> e_len e" and "clock_fits S"
  shows "\<exists>r s. run_loop (body e) (xfer_init e S buf want h) = Some (r, s) \<and>
    transfer_post (e_len e) dir (xfer_init e S buf want h) r s"
proof -
  have "\<exists>r s. run_loop (body e) (xfer_init e S buf want h) = Some (r, s)"
    by (rule returns [OF env_clock [OF e]]) (use assms(3) in \<open>simp_all add: xfer_init_def\<close>)
  with post [OF e assms(2)] show ?thesis by blast
qed

end

end
