(* ===== verification/Nc_Sock_Poll.thy ===== *)
theory Nc_Sock_Poll
  imports Nc_Transfer
begin

text \<open>
  \<open>ncSocket::writeData\<close> and \<open>ncSocket::readData\<close> of \<^verbatim>\<open>src/ncsocket.cpp\<close> in the versions
  that wait with \<open>poll\<close> (not Windows, \<open>HAVE_POLL\<close>). Each is a loop body and the loop over it;
  the bodies are interpreted as instances of the transfer contract.
\<close>

section \<open>writeData\<close>

definition writeData_poll_body :: xbody where
  "writeData_poll_body e s =
     (if \<not> xguard s then Inr (x_ret s, s)
      else
        let S = x_sock s;
            (pollRet, revents, h) =
              k_poll (e_os e) (m_sockfd S) POLLOUT (sint (m_polltime S)) (x_hist s);
            s = wait_for (PollFd (m_sockfd S) POLLOUT revents) h s
        in if pollRet = -1 then Inr (NC_FAILED, s)
           else if pollRet = 0 then Inl (clock (have_all (x_actual s) (e_len e) (-1)) s)
           else if pollRet = 1 then
             (if revents AND POLLERR \<noteq> 0 then Inr (NC_FAILED, s)
              else if revents AND POLLOUT = 0 then Inr (NC_FAILED, s)
              else
                let (nSent, h) = transmit e S (mem_read (x_mem s) (x_off s) (x_rem s)) (x_hist s);
                    s = s\<lparr>x_hist := h\<rparr>
                in if nSent < 0 then
                     (let err = os_errno (e_os e) (x_hist s)
                      in if ncSocketReset (e_cfg e) err
                         then Inl (give_up NCSD_SEND NC_CLIENTDISCONNECT s)
                         else if ncIsBlockingError (e_cfg e) err
                         then (let s = clock (have_all (x_actual s) (e_len e) (-1)) s
                               in if x_ret s = NC_OK then Inl s else Inl (s\<lparr>x_rem := 0\<rparr>))
                         else Inl (give_up NCSD_SEND NC_FAILED s))
                   else
                     (let s = advance nSent s
                      in Inl (clock (have_all (x_actual s) (e_len e) (-1)) s)))
           else Inl s)"

definition writeData_poll :: "xenv \<Rightarrow> ncSocket \<Rightarrow> mem \<Rightarrow> bool \<Rightarrow> hist \<Rightarrow> (retcode \<times> xfer) option"
  where
  "writeData_poll e S buf want_actual h =
     run_loop (writeData_poll_body e) (xfer_init e S buf want_actual h)"

section \<open>readData\<close>

definition readData_poll_body :: xbody where
  "readData_poll_body e s =
     (if \<not> xguard s then Inr (x_ret s, s)
      else
        let S = x_sock s;
            (pollRet, revents, h) =
              k_poll (e_os e) (m_sockfd S) POLLIN (sint (m_polltime S)) (x_hist s);
            s = wait_for (PollFd (m_sockfd S) POLLIN revents) h s
        in if pollRet = -1 then Inr (NC_FAILED, s)
           else if pollRet = 0 then Inl (clock (have_all (x_actual s) (e_len e) (-1)) s)
           else if pollRet = 1 then
             (if revents AND POLLERR \<noteq> 0 then Inr (NC_FAILED, s)
              else if revents AND POLLIN = 0 then Inr (NC_FAILED, s)
              else
                let (nRead, bytes, S, h) = receive e (x_sock s) (x_rem s) (x_hist s);
                    s = s\<lparr>x_sock := S, x_hist := h,
                          x_mem := mem_write (x_mem s) (x_off s) bytes\<rparr>
                in if nRead < 0 then
                     (let err = os_errno (e_os e) (x_hist s)
                      in if ncSocketReset (e_cfg e) err
                         then Inl (give_up NCSD_READ NC_CLIENTDISCONNECT s)
                         else if ncIsBlockingError (e_cfg e) err
                         then (let s = clock (have_all (x_actual s) (e_len e) (-1)) s
                               in if x_ret s = NC_OK then Inl s else Inl (s\<lparr>x_rem := 0\<rparr>))
                         else Inl (give_up NCSD_READ NC_FAILED s))
                   else
                     (let s = advance nRead s
                      in Inl (clock (have_all (x_actual s) (e_len e) (-1)) s)))
           else Inl s)"

definition readData_poll :: "xenv \<Rightarrow> ncSocket \<Rightarrow> mem \<Rightarrow> bool \<Rightarrow> hist \<Rightarrow> (retcode \<times> xfer) option"
  where
  "readData_poll e S buf want_actual h =
     run_loop (readData_poll_body e) (xfer_init e S buf want_actual h)"

section \<open>The bodies keep the contract\<close>

definition poll_clock_ok :: "xenv \<Rightarrow> bool" where
  "poll_clock_ok e \<longleftrightarrow> poll_doc (e_os e)"

definition poll_write_ok :: "xenv \<Rightarrow> bool" where
  "poll_write_ok e \<longleftrightarrow> poll_doc (e_os e) \<and> send_doc (e_os e)"

definition poll_read_ok :: "xenv \<Rightarrow> bool" where
  "poll_read_ok e \<longleftrightarrow> poll_doc (e_os e) \<and> recv_doc (e_os e)"

lemma writeData_poll_refines:
  assumes ok: "poll_write_ok e" and g: "xguard s" and b: "writeData_poll_body e s = Inl s'"
  shows "xstep Sending e s s'"
proof -
  obtain r rv where p: "os_poll (e_os e) (x_hist s) (m_sockfd (x_sock s)) POLLOUT
      (sint (m_polltime (x_sock s))) = (r, rv)" by fastforce
  define s1 where "s1 = wait_for (PollFd (m_sockfd (x_sock s)) POLLOUT rv)
    (SysPoll (m_sockfd (x_sock s)) POLLOUT (sint (m_polltime (x_sock s))) r rv # x_hist s) s"
  have c: "called Sending s s1 []" unfolding s1_def by (rule called_wait) simp
  have eqs: "x_off s1 = x_off s" "x_rem s1 = x_rem s" "x_mem s1 = x_mem s"
    "x_actual s1 = x_actual s" by (simp_all add: called_fields [OF c])
  obtain n h where t: "transmit e (x_sock s) (mem_read (x_mem s1) (x_off s1) (x_rem s1)) (x_hist s1) = (n, h)"
    by fastforce
  from ok have docs: "poll_doc (e_os e)" "send_doc (e_os e)" by (simp_all add: poll_write_ok_def)
  note io = called_transmit [OF c docs(2) g t]
  from poll_docD [OF docs(1) p] consider (none) "r = 0" | (event) "r = 1"
    using b g p by (auto simp: writeData_poll_body_def nc_os Let_def)
  then show ?thesis
  proof cases
    case none
    then have "s' = clock (have_all (x_actual s) (e_len e) (-1)) s1"
      using b g p by (simp add: writeData_poll_body_def nc_os Let_def s1_def wait_for_def)
    with c show ?thesis by (auto intro: xstep.Idle)
  next
    case event
    let ?s2 = "s1\<lparr>x_hist := h\<rparr>"
    let ?err = "os_errno (e_os e) h"
    have b': "Inl s' = (if n < 0
        then if ncSocketReset (e_cfg e) ?err then Inl (give_up NCSD_SEND NC_CLIENTDISCONNECT ?s2)
          else if ncIsBlockingError (e_cfg e) ?err
          then (let s = clock (have_all (x_actual s) (e_len e) (-1)) ?s2
            in if x_ret s = NC_OK then Inl s else Inl (s\<lparr>x_rem := 0\<rparr>))
          else Inl (give_up NCSD_SEND NC_FAILED ?s2)
        else (let s = advance n ?s2 in Inl (clock (have_all (x_actual s) (e_len e) (-1)) s)))"
      using b g p t event
      by (auto simp: writeData_poll_body_def nc_os Let_def s1_def wait_for_def split: if_splits)
    show ?thesis
    proof (cases "n < 0")
      case True
      with b' show ?thesis
        using xstep.Idle [OF io(1) [OF True]] xstep.Blocked [OF io(1) [OF True] refl]
          xstep.Lost [OF io(1) [OF True]]
        by (auto simp: Let_def split: if_splits)
    next
      case False
      with b' show ?thesis
        using xstep.Moved [OF io(3) _ refl, of e] io(2) by (auto simp: Let_def)
    qed
  qed
qed

interpretation wpoll_clock: clocked_loop writeData_poll_body poll_clock_ok
proof
  show "\<not> xguard s \<Longrightarrow> writeData_poll_body e s = Inr (x_ret s, s)" for e s
    by (simp add: writeData_poll_body_def)
  show "frame s s'" if "writeData_poll_body e s = Inl s'" for e s s'
    using that
    by (auto simp: writeData_poll_body_def Let_def nc_os frame_def wait_for_def
        split: if_splits prod.splits)
  show "ticked s s'" if "poll_clock_ok e" "xguard s" "writeData_poll_body e s = Inl s'" "xguard s'"
    for e s s'
    using that
    by (auto simp: writeData_poll_body_def poll_clock_ok_def Let_def nc_os wait_for_def ticked_def
        xguard_def clock_ret split: if_splits prod.splits dest: poll_docD)
  show "waits (x_hist s') = Suc (waits (x_hist s))"
    if "xguard s" "writeData_poll_body e s = Inl s'" for e s s'
    using that
    by (auto simp: writeData_poll_body_def Let_def nc_os wait_for_def split: if_splits prod.splits
        dest!: waits_transmit)
  show "waits (x_hist s') = Suc (waits (x_hist s))"
    if "xguard s" "writeData_poll_body e s = Inr (r, s')" for e s r s'
    using that
    by (auto simp: writeData_poll_body_def Let_def nc_os wait_for_def split: if_splits prod.splits
        dest!: waits_transmit)
  show "frame s s'" if "writeData_poll_body e s = Inr (r, s')" for e s r s'
    using that
    by (auto simp: writeData_poll_body_def Let_def nc_os frame_def wait_for_def
        split: if_splits prod.splits)
  show "closes (x_hist s') = closes (x_hist s)" if "writeData_poll_body e s = Inl s'" for e s s'
    using that
    by (auto simp: writeData_poll_body_def Let_def nc_os wait_for_def split: if_splits prod.splits
        dest!: closes_transmit closes_receive)
  show "closes (x_hist s') = closes (x_hist s)" if "writeData_poll_body e s = Inr (r, s')" for e s r s'
    using that
    by (auto simp: writeData_poll_body_def Let_def nc_os wait_for_def split: if_splits prod.splits)
qed

lemma readData_poll_refines:
  assumes ok: "poll_read_ok e" and g: "xguard s" and b: "readData_poll_body e s = Inl s'"
  shows "xstep Receiving e s s'"
proof -
  obtain r rv where p: "os_poll (e_os e) (x_hist s) (m_sockfd (x_sock s)) POLLIN
      (sint (m_polltime (x_sock s))) = (r, rv)" by fastforce
  define s1 where "s1 = wait_for (PollFd (m_sockfd (x_sock s)) POLLIN rv)
    (SysPoll (m_sockfd (x_sock s)) POLLIN (sint (m_polltime (x_sock s))) r rv # x_hist s) s"
  have c: "called Receiving s s1 []" unfolding s1_def by (rule called_wait) simp
  obtain n bs S h where t: "receive e (x_sock s1) (x_rem s1) (x_hist s1) = (n, bs, S, h)"
    by (metis prod_cases4)
  from ok have docs: "poll_doc (e_os e)" "recv_doc (e_os e)" by (simp_all add: poll_read_ok_def)
  note io = called_receive [OF c docs(2) g t]
  from poll_docD [OF docs(1) p] consider (none) "r = 0" | (event) "r = 1"
    using b g p by (auto simp: readData_poll_body_def nc_os Let_def)
  then show ?thesis
  proof cases
    case none
    then have "s' = clock (have_all (x_actual s) (e_len e) (-1)) s1"
      using b g p by (simp add: readData_poll_body_def nc_os Let_def s1_def wait_for_def)
    with c show ?thesis by (auto intro: xstep.Idle)
  next
    case event
    let ?s2 = "s1\<lparr>x_sock := S, x_hist := h, x_mem := mem_write (x_mem s1) (x_off s1) bs\<rparr>"
    let ?err = "os_errno (e_os e) h"
    have b': "Inl s' = (if n < 0
        then if ncSocketReset (e_cfg e) ?err then Inl (give_up NCSD_READ NC_CLIENTDISCONNECT ?s2)
          else if ncIsBlockingError (e_cfg e) ?err
          then (let s = clock (have_all (x_actual s) (e_len e) (-1)) ?s2
            in if x_ret s = NC_OK then Inl s else Inl (s\<lparr>x_rem := 0\<rparr>))
          else Inl (give_up NCSD_READ NC_FAILED ?s2)
        else (let s = advance n ?s2 in Inl (clock (have_all (x_actual s) (e_len e) (-1)) s)))"
      using b g p t event
      by (auto simp: readData_poll_body_def nc_os Let_def s1_def wait_for_def split: if_splits)
    have mv: "called Receiving s ?s2 bs" using io(4) by (simp add: called_fields [OF c])
    show ?thesis
    proof (cases "n < 0")
      case True
      with io(1) mv have "called Receiving s ?s2 []" by simp
      with b' True show ?thesis
        using xstep.Idle [of Receiving s ?s2 e] xstep.Blocked [of Receiving s ?s2 _ e]
          xstep.Lost [of Receiving s ?s2 _ e]
        by (auto simp: Let_def called_fields [OF c] split: if_splits)
    next
      case False
      with b' io(2,3) show ?thesis
        using xstep.Moved [OF mv _ refl, of e] by (auto simp: Let_def)
    qed
  qed
qed

interpretation rpoll_clock: clocked_loop readData_poll_body poll_clock_ok
proof
  show "\<not> xguard s \<Longrightarrow> readData_poll_body e s = Inr (x_ret s, s)" for e s
    by (simp add: readData_poll_body_def)
  show "frame s s'" if "readData_poll_body e s = Inl s'" for e s s'
    using that
    by (auto simp: readData_poll_body_def Let_def nc_os frame_def wait_for_def
        split: if_splits prod.splits dest!: receive_sock)
  show "ticked s s'" if "poll_clock_ok e" "xguard s" "readData_poll_body e s = Inl s'" "xguard s'"
    for e s s'
    using that
    by (auto simp: readData_poll_body_def poll_clock_ok_def Let_def nc_os wait_for_def ticked_def
        xguard_def clock_ret split: if_splits prod.splits dest: poll_docD dest!: receive_sock)
  show "waits (x_hist s') = Suc (waits (x_hist s))"
    if "xguard s" "readData_poll_body e s = Inl s'" for e s s'
    using that
    by (auto simp: readData_poll_body_def Let_def nc_os wait_for_def split: if_splits prod.splits
        dest!: waits_receive)
  show "waits (x_hist s') = Suc (waits (x_hist s))"
    if "xguard s" "readData_poll_body e s = Inr (r, s')" for e s r s'
    using that
    by (auto simp: readData_poll_body_def Let_def nc_os wait_for_def split: if_splits prod.splits)
  show "frame s s'" if "readData_poll_body e s = Inr (r, s')" for e s r s'
    using that
    by (auto simp: readData_poll_body_def Let_def nc_os frame_def wait_for_def
        split: if_splits prod.splits)
  show "closes (x_hist s') = closes (x_hist s)" if "readData_poll_body e s = Inl s'" for e s s'
    using that
    by (auto simp: readData_poll_body_def Let_def nc_os wait_for_def split: if_splits prod.splits
        dest!: closes_transmit closes_receive)
  show "closes (x_hist s') = closes (x_hist s)" if "readData_poll_body e s = Inr (r, s')" for e s r s'
    using that
    by (auto simp: readData_poll_body_def Let_def nc_os wait_for_def split: if_splits prod.splits)
qed

interpretation wpoll: transfer_loop writeData_poll_body poll_clock_ok poll_write_ok Sending
proof
  show "poll_clock_ok e" if "poll_write_ok e" for e
    using that by (simp add: poll_clock_ok_def poll_write_ok_def)
  show "xstep Sending e s s'" if "poll_write_ok e" "xguard s" "writeData_poll_body e s = Inl s'"
    for e s s' using that by (rule writeData_poll_refines)
  show "r = NC_FAILED \<and> called Sending s s' []"
    if "poll_write_ok e" "xguard s" "writeData_poll_body e s = Inr (r, s')" for e s r s'
    using that
    by (auto simp: writeData_poll_body_def Let_def nc_os split: if_splits prod.splits
        intro: called_wait)
qed

interpretation rpoll: transfer_loop readData_poll_body poll_clock_ok poll_read_ok Receiving
proof
  show "poll_clock_ok e" if "poll_read_ok e" for e
    using that by (simp add: poll_clock_ok_def poll_read_ok_def)
  show "xstep Receiving e s s'" if "poll_read_ok e" "xguard s" "readData_poll_body e s = Inl s'"
    for e s s' using that by (rule readData_poll_refines)
  show "r = NC_FAILED \<and> called Receiving s s' []"
    if "poll_read_ok e" "xguard s" "readData_poll_body e s = Inr (r, s')" for e s r s'
    using that
    by (auto simp: readData_poll_body_def Let_def nc_os split: if_splits prod.splits
        intro: called_wait)
qed

section \<open>Properties of the poll version\<close>

text \<open>A POLLIN event without POLLERR, and the same for POLLOUT, as the code tests them.\<close>

lemma poll_bits:
  "POLLIN AND POLLERR = 0" "POLLIN AND POLLIN \<noteq> 0" "POLLOUT AND POLLERR = 0"
  "POLLOUT AND POLLOUT \<noteq> 0"
  by (simp_all add: POLLIN_def POLLOUT_def POLLERR_def)

text \<open>
  When the peer has closed the connection (the descriptor is readable and \<open>recv\<close> returns 0),
  \<open>readData\<close> asks again and again until the clock has run out, stores nothing and returns
  \<open>NC_TIMEDOUT\<close>: the end of the stream is never reported as such.
\<close>

lemma readData_poll_eof:
  assumes doc: "poll_doc (e_os e)"
    and poll: "\<forall>h fd t. os_poll (e_os e) h fd POLLIN t = (1, POLLIN)"
    and recv: "\<forall>h fd n fl. os_recv (e_os e) h fd n fl = (0, [])"
    and tcp: "m_socktype S = SOCKTYPE_TCPIP" and len: "0 < e_len e" and fits: "clock_fits S"
  shows "\<exists>s. readData_poll e S buf want h = Some (NC_TIMEDOUT, s) \<and> x_off s = 0 \<and> x_mem s = buf"
proof -
  let ?s0 = "xfer_init e S buf want h"
  let ?I = "\<lambda>s. m_socktype (x_sock s) = SOCKTYPE_TCPIP \<and> x_off s = 0 \<and> x_rem s = e_len e \<and>
    x_mem s = buf \<and> (x_actual s = None \<or> x_actual s = Some 0) \<and>
    (x_timedout s = 0 \<and> x_ret s = NC_OK \<or> x_timedout s = 1 \<and> x_ret s = NC_TIMEDOUT)"
  have body: "?I s'" if I: "?I s" and b: "readData_poll_body e s = Inl s'" for s s'
    using I b poll recv poll_bits rpoll_clock.only_guarded [OF b]
    by (auto simp: readData_poll_body_def Let_def nc_os receive_def wait_for_def clock_ret
        have_all_def xguard_def split: if_splits)
  have exit: "fst q = NC_TIMEDOUT \<and> ?I (snd q)" if I: "?I s" and b: "readData_poll_body e s = Inr q"
    for s q
    using I b poll recv poll_bits len
    by (auto simp: readData_poll_body_def Let_def nc_os receive_def wait_for_def xguard_def
        split: if_splits)
  obtain r s where run: "run_loop (readData_poll_body e) ?s0 = Some (r, s)"
    using rpoll_clock.returns [of e ?s0] doc fits by (auto simp: poll_clock_ok_def xfer_init_def)
  have "?I ?s0" using tcp by (simp add: xfer_init_def)
  then have "fst (r, s) = NC_TIMEDOUT \<and> ?I (snd (r, s))"
    by (rule run_loop_inv [OF run]) (use body exit in blast)+
  with run show ?thesis by (simp add: readData_poll_def)
qed

text \<open>An operating system whose connection is at the end of its stream.\<close>

definition eof_os :: os where
  "eof_os = dead_os\<lparr>os_poll := \<lambda>h fd ev t. (1, ev), os_recv := \<lambda>h fd n fl. (0, [])\<rparr>"

text \<open>
  With a time out no longer than the poll time (the interface's recipe for a non-blocking
  write is a time out of 0), a write whose bytes are all taken by the first \<open>send\<close> is
  reported as \<open>NC_OK\<close> to a caller that passes \<open>numActualBytes\<close> and as \<open>NC_TIMEDOUT\<close> to one
  that does not, although the same bytes were sent.
\<close>

lemma writeData_poll_short_timeout:
  assumes poll: "\<forall>h fd t. os_poll (e_os e) h fd POLLOUT t = (1, POLLOUT)"
    and send: "\<forall>h fd bs fl. os_send (e_os e) h fd bs fl = int (length bs)"
    and tcp: "m_socktype S = SOCKTYPE_TCPIP" and len: "0 < e_len e"
    and short: "m_timeout S \<le> m_polltime S"
  shows "\<exists>s. writeData_poll e S buf want h = Some (if want then NC_OK else NC_TIMEDOUT, s) \<and>
    sent_bytes (x_hist s) = sent_bytes h @ mem_read buf 0 (e_len e)"
proof -
  let ?s0 = "xfer_init e S buf want h"
  have g: "xguard ?s0" using len by (simp add: xguard_def xfer_init_def)
  have "\<exists>s. writeData_poll_body e ?s0 = Inl s \<and> x_rem s = 0 \<and>
      x_ret s = (if want then NC_OK else NC_TIMEDOUT) \<and>
      sent_bytes (x_hist s) = sent_bytes h @ mem_read buf 0 (e_len e)"
    using g poll send tcp len short poll_bits
    by (simp add: writeData_poll_body_def xfer_init_def Let_def nc_os transmit_def wait_for_def
        clock_ret have_all_def)
  then obtain s where s: "writeData_poll_body e ?s0 = Inl s" "\<not> xguard s"
      "x_ret s = (if want then NC_OK else NC_TIMEDOUT)"
      "sent_bytes (x_hist s) = sent_bytes h @ mem_read buf 0 (e_len e)"
    by (auto simp: xguard_def)
  then show ?thesis
    using wpoll_clock.leaves [OF s(2), of e] by (simp add: writeData_poll_def run_loop_again)
qed

definition greedy_os :: os where
  "greedy_os = dead_os
     \<lparr>os_poll := \<lambda>h fd ev t. (1, ev), os_send := \<lambda>h fd bs fl. int (length bs)\<rparr>"

text \<open>
  C40: \<open>setTimeout(-1)\<close> stores the largest 32-bit number; with the default poll time the clock
  runs through multiples of 4 and wraps round without ever reaching it, so a read on a silent
  connection never returns.
\<close>

lemma readData_poll_no_timeout:
  assumes silent: "\<forall>h fd t. fst (os_poll (e_os e) h fd POLLIN t) = 0" and len: "0 < e_len e"
  shows "readData_poll e (setTimeout (-1) (ncSocket_of_fd (e_cfg e) fd)) buf want h = None"
  unfolding readData_poll_def
proof (rule run_loop_diverges [where I = "\<lambda>s. xguard s \<and> 4 dvd unat (x_timeout s) \<and>
    m_timeout (x_sock s) = 0xFFFFFFFF \<and> m_polltime (x_sock s) = 100"])
  let ?S = "setTimeout (-1) (ncSocket_of_fd (e_cfg e) fd)"
  show "xguard (xfer_init e ?S buf want h) \<and> 4 dvd unat (x_timeout (xfer_init e ?S buf want h)) \<and>
      m_timeout (x_sock (xfer_init e ?S buf want h)) = 0xFFFFFFFF \<and>
      m_polltime (x_sock (xfer_init e ?S buf want h)) = 100"
    using len by (simp add: xguard_def xfer_init_def setTimeout_def ncSocket_of_fd_def)
next
  fix s
  assume I: "xguard s \<and> 4 dvd unat (x_timeout s) \<and>
    m_timeout (x_sock s) = 0xFFFFFFFF \<and> m_polltime (x_sock s) = 100"
  let ?t = "x_timeout s + 100"
  have "unat ?t = (unat (x_timeout s) + 100) mod 2 ^ 32"
    by (simp add: unat_word_ariths)
  with I have d: "4 dvd unat ?t" by (simp add: dvd_mod)
  have "\<not> 0xFFFFFFFF \<le> ?t"
  proof
    assume "0xFFFFFFFF \<le> ?t"
    then have "unat ?t = 4294967295"
      using unsigned_less [where 'a = nat, of ?t] by (simp add: word_le_nat_alt)
    with d show False by simp
  qed
  moreover obtain rv where "os_poll (e_os e) (x_hist s) (m_sockfd (x_sock s)) POLLIN
      (sint (m_polltime (x_sock s))) = (0, rv)"
    using silent by (metis prod.collapse)
  ultimately show "\<exists>s'. readData_poll_body e s = Inl s' \<and> xguard s' \<and> 4 dvd unat (x_timeout s') \<and>
      m_timeout (x_sock s') = 0xFFFFFFFF \<and> m_polltime (x_sock s') = 100"
    using I d
    by (simp add: readData_poll_body_def nc_os Let_def wait_for_def clock_ret xguard_def)
qed

end
