(* ===== verification/Nc_Sock_Select.thy ===== *)
theory Nc_Sock_Select
  imports Nc_Transfer
begin

text \<open>
  \<open>ncSocket::writeData\<close> and \<open>ncSocket::readData\<close> of \<^verbatim>\<open>src/ncsocket.cpp\<close> in the versions
  that wait with \<open>select\<close> (Windows, and platforms without \<open>poll\<close>). \<open>readData\<close> keeps the
  transfer contract. \<open>writeData\<close> keeps it only as long as no \<open>send\<close> fails with a would-block
  error: that failure is handled as a transfer of -1 bytes (\<open>writeData_select_would_block\<close>).

  An \<open>fd_set\<close> is the list of its members. The code puts the descriptor into it without a check.
  \<^verbatim>\<open>FD_SET\<close> is defined for 0 to \<^verbatim>\<open>FD_SETSIZE\<close> - 1 only (on Windows for every socket), so on the other
  platforms the two bodies describe the code for such descriptors; for the -1 of a closed object,
  or a descriptor that is too large, the C code writes outside the set and has no defined behaviour.
\<close>

text \<open>
  The two halves of the time out given to \<open>select\<close>, in 32-bit unsigned arithmetic.
\<close>

definition timeoutSeconds :: "ncSocket \<Rightarrow> int" where
  "timeoutSeconds S = uint ((m_polltime S * 1000) div 100000)"

definition timeoutUSeconds :: "ncSocket \<Rightarrow> int" where
  "timeoutUSeconds S = uint ((m_polltime S * 1000) mod 100000)"

section \<open>writeData\<close>

definition writeData_select_body :: xbody where
  "writeData_select_body e s =
     (if \<not> xguard s then Inr (x_ret s, s)
      else
        let S = x_sock s;
            (selectRet, ready, h) =
              k_select (e_os e) WaitWrite (m_sockfd S + 1) [m_sockfd S]
                (timeoutSeconds S) (timeoutUSeconds S) (x_hist s);
            s = wait_for (FdSet ready) h s
        in if selectRet = -1 then Inr (NC_FAILED, s)
           else if selectRet = 0 then Inl (clock (have_all (x_actual s) (e_len e) (-1)) s)
           else if m_sockfd S \<notin> set ready then Inr (NC_FAILED, s)
           else
             let (nSent, h) = transmit e S (mem_read (x_mem s) (x_off s) (x_rem s)) (x_hist s);
                 s = s\<lparr>x_hist := h\<rparr>;
                 err = os_errno (e_os e) (x_hist s)
             in if ncSocketError nSent \<and> ncSocketReset (e_cfg e) err
                then Inl (give_up NCSD_SEND NC_CLIENTDISCONNECT s)
                else if 0 < nSent \<or> ncIsBlockingError (e_cfg e) err
                then (let s = advance nSent s
                      in Inl (clock (have_all (x_actual s) (e_len e) (-1)) s))
                else Inl (give_up NCSD_SEND NC_FAILED s))"

definition writeData_select ::
    "xenv \<Rightarrow> ncSocket \<Rightarrow> mem \<Rightarrow> bool \<Rightarrow> hist \<Rightarrow> (retcode \<times> xfer) option" where
  "writeData_select e S buf want_actual h =
     run_loop (writeData_select_body e) (xfer_init e S buf want_actual h)"

section \<open>readData\<close>

definition readData_select_body :: xbody where
  "readData_select_body e s =
     (if \<not> xguard s then Inr (x_ret s, s)
      else
        let S = x_sock s;
            (selectRet, ready, h) =
              k_select (e_os e) WaitRead (m_sockfd S + 1) [m_sockfd S]
                (timeoutSeconds S) (timeoutUSeconds S) (x_hist s);
            s = wait_for (FdSet ready) h s
        in if selectRet = -1 then Inr (NC_FAILED, s)
           else if selectRet = 0 then Inl (clock (have_all (x_actual s) (e_len e) (-1)) s)
           else if m_sockfd S \<notin> set ready then Inr (NC_FAILED, s)
           else
             let (nRead, bytes, S, h) = receive e (x_sock s) (x_rem s) (x_hist s);
                 s = s\<lparr>x_sock := S, x_hist := h,
                       x_mem := mem_write (x_mem s) (x_off s) bytes\<rparr>;
                 err = os_errno (e_os e) (x_hist s)
             in if ncSocketError nRead \<and> ncSocketReset (e_cfg e) err
                then Inl (give_up NCSD_READ NC_CLIENTDISCONNECT s)
                else if 0 < nRead \<or> nRead = 0 \<and> ncIsBlockingError (e_cfg e) err
                then (let s = advance nRead s
                      in Inl (clock (have_all (x_actual s) (e_len e) (-1)) s))
                else Inl (give_up NCSD_READ NC_FAILED s))"

definition readData_select ::
    "xenv \<Rightarrow> ncSocket \<Rightarrow> mem \<Rightarrow> bool \<Rightarrow> hist \<Rightarrow> (retcode \<times> xfer) option" where
  "readData_select e S buf want_actual h =
     run_loop (readData_select_body e) (xfer_init e S buf want_actual h)"

section \<open>The bodies keep the contract\<close>

interpretation wselect_clock: clocked_loop writeData_select_body "\<lambda>_. True"
proof
  show "\<not> xguard s \<Longrightarrow> writeData_select_body e s = Inr (x_ret s, s)" for e s
    by (simp add: writeData_select_body_def)
  show "frame s s'" if "writeData_select_body e s = Inl s'" for e s s'
    using that
    by (auto simp: writeData_select_body_def Let_def nc_os frame_def wait_for_def
        split: if_splits prod.splits dest!: receive_sock)
  show "ticked s s'" if "xguard s" "writeData_select_body e s = Inl s'" "xguard s'" for e s s'
    using that
    by (auto simp: writeData_select_body_def Let_def nc_os wait_for_def ticked_def xguard_def
        clock_ret split: if_splits prod.splits dest!: receive_sock)
  show "waits (x_hist s') = Suc (waits (x_hist s))"
    if "xguard s" "writeData_select_body e s = Inl s'" for e s s'
    using that
    by (auto simp: writeData_select_body_def Let_def nc_os wait_for_def split: if_splits prod.splits
        dest!: waits_transmit)
  show "waits (x_hist s') = Suc (waits (x_hist s))"
    if "xguard s" "writeData_select_body e s = Inr (r, s')" for e s r s'
    using that
    by (auto simp: writeData_select_body_def Let_def nc_os wait_for_def split: if_splits prod.splits)
  show "frame s s'" if "writeData_select_body e s = Inr (r, s')" for e s r s'
    using that
    by (auto simp: writeData_select_body_def Let_def nc_os frame_def wait_for_def
        split: if_splits prod.splits)
  show "closes (x_hist s') = closes (x_hist s)" if "writeData_select_body e s = Inl s'" for e s s'
    using that
    by (auto simp: writeData_select_body_def Let_def nc_os wait_for_def split: if_splits prod.splits
        dest!: closes_transmit closes_receive)
  show "closes (x_hist s') = closes (x_hist s)" if "writeData_select_body e s = Inr (r, s')" for e s r s'
    using that
    by (auto simp: writeData_select_body_def Let_def nc_os wait_for_def split: if_splits prod.splits)
qed

interpretation rselect_clock: clocked_loop readData_select_body "\<lambda>_. True"
proof
  show "\<not> xguard s \<Longrightarrow> readData_select_body e s = Inr (x_ret s, s)" for e s
    by (simp add: readData_select_body_def)
  show "frame s s'" if "readData_select_body e s = Inl s'" for e s s'
    using that
    by (auto simp: readData_select_body_def Let_def nc_os frame_def wait_for_def
        split: if_splits prod.splits dest!: receive_sock)
  show "ticked s s'" if "xguard s" "readData_select_body e s = Inl s'" "xguard s'" for e s s'
    using that
    by (auto simp: readData_select_body_def Let_def nc_os wait_for_def ticked_def xguard_def
        clock_ret split: if_splits prod.splits dest!: receive_sock)
  show "waits (x_hist s') = Suc (waits (x_hist s))"
    if "xguard s" "readData_select_body e s = Inl s'" for e s s'
    using that
    by (auto simp: readData_select_body_def Let_def nc_os wait_for_def split: if_splits prod.splits
        dest!: waits_receive)
  show "waits (x_hist s') = Suc (waits (x_hist s))"
    if "xguard s" "readData_select_body e s = Inr (r, s')" for e s r s'
    using that
    by (auto simp: readData_select_body_def Let_def nc_os wait_for_def split: if_splits prod.splits)
  show "frame s s'" if "readData_select_body e s = Inr (r, s')" for e s r s'
    using that
    by (auto simp: readData_select_body_def Let_def nc_os frame_def wait_for_def
        split: if_splits prod.splits)
  show "closes (x_hist s') = closes (x_hist s)" if "readData_select_body e s = Inl s'" for e s s'
    using that
    by (auto simp: readData_select_body_def Let_def nc_os wait_for_def split: if_splits prod.splits
        dest!: closes_transmit closes_receive)
  show "closes (x_hist s') = closes (x_hist s)" if "readData_select_body e s = Inr (r, s')" for e s r s'
    using that
    by (auto simp: readData_select_body_def Let_def nc_os wait_for_def split: if_splits prod.splits)
qed

text \<open>What \<open>writeData\<close> needs of the calls: a failed \<open>send\<close> never means "try again".\<close>

definition select_write_ok :: "xenv \<Rightarrow> bool" where
  "select_write_ok e \<longleftrightarrow> send_doc (e_os e) \<and>
     (\<forall>S d h n h'. transmit e S d h = (n, h') \<longrightarrow> n < 0 \<longrightarrow>
        \<not> ncIsBlockingError (e_cfg e) (os_errno (e_os e) h'))"

definition select_read_ok :: "xenv \<Rightarrow> bool" where
  "select_read_ok e \<longleftrightarrow> recv_doc (e_os e)"

lemma writeData_select_refines:
  assumes ok: "select_write_ok e" and g: "xguard s" and b: "writeData_select_body e s = Inl s'"
  shows "xstep Sending e s s'"
proof -
  obtain r rdy where p: "os_select (e_os e) (x_hist s) WaitWrite (m_sockfd (x_sock s) + 1)
      [m_sockfd (x_sock s)] (timeoutSeconds (x_sock s)) (timeoutUSeconds (x_sock s)) = (r, rdy)"
    by fastforce
  define s1 where "s1 = wait_for (FdSet rdy) (SysSelect WaitWrite [m_sockfd (x_sock s)]
    (timeoutSeconds (x_sock s)) (timeoutUSeconds (x_sock s)) r rdy # x_hist s) s"
  have c: "called Sending s s1 []" unfolding s1_def by (rule called_wait) simp
  obtain n h where
    t: "transmit e (x_sock s) (mem_read (x_mem s1) (x_off s1) (x_rem s1)) (x_hist s1) = (n, h)"
    by fastforce
  from ok have doc: "send_doc (e_os e)" by (simp add: select_write_ok_def)
  note io = called_transmit [OF c doc g t]
  show ?thesis
  proof (cases "r = 0")
    case True
    then have "s' = clock (have_all (x_actual s) (e_len e) (-1)) s1"
      using b g p by (simp add: writeData_select_body_def nc_os Let_def s1_def wait_for_def)
    with c show ?thesis by (auto intro: xstep.Idle)
  next
    case event: False
    let ?s2 = "s1\<lparr>x_hist := h\<rparr>"
    let ?err = "os_errno (e_os e) h"
    have b': "Inl s' = (if n = -1 \<and> ncSocketReset (e_cfg e) ?err
        then Inl (give_up NCSD_SEND NC_CLIENTDISCONNECT ?s2)
        else if 0 < n \<or> ncIsBlockingError (e_cfg e) ?err
        then (let s = advance n ?s2 in Inl (clock (have_all (x_actual s) (e_len e) (-1)) s))
        else Inl (give_up NCSD_SEND NC_FAILED ?s2))"
      using b g p t event
      by (auto simp: writeData_select_body_def nc_os Let_def s1_def wait_for_def ncSocketError_def
          split: if_splits)
    show ?thesis
    proof (cases "n < 0")
      case True
      then have "\<not> ncIsBlockingError (e_cfg e) ?err"
        using ok t unfolding select_write_ok_def by blast
      with b' True show ?thesis
        using xstep.Lost [OF io(1) [OF True]] by (auto split: if_splits)
    next
      case False
      then have "n = 0 \<Longrightarrow> called Sending s ?s2 []" using io(3) by simp
      with b' False show ?thesis
        using xstep.Moved [OF io(3) _ refl, of e] io(2) xstep.Lost [of Sending s ?s2 _ e]
        by (auto simp: Let_def split: if_splits)
    qed
  qed
qed

lemma readData_select_refines:
  assumes ok: "select_read_ok e" and g: "xguard s" and b: "readData_select_body e s = Inl s'"
  shows "xstep Receiving e s s'"
proof -
  obtain r rdy where p: "os_select (e_os e) (x_hist s) WaitRead (m_sockfd (x_sock s) + 1)
      [m_sockfd (x_sock s)] (timeoutSeconds (x_sock s)) (timeoutUSeconds (x_sock s)) = (r, rdy)"
    by fastforce
  define s1 where "s1 = wait_for (FdSet rdy) (SysSelect WaitRead [m_sockfd (x_sock s)]
    (timeoutSeconds (x_sock s)) (timeoutUSeconds (x_sock s)) r rdy # x_hist s) s"
  have c: "called Receiving s s1 []" unfolding s1_def by (rule called_wait) simp
  obtain n bs S h where t: "receive e (x_sock s1) (x_rem s1) (x_hist s1) = (n, bs, S, h)"
    by (metis prod_cases4)
  from ok have doc: "recv_doc (e_os e)" by (simp add: select_read_ok_def)
  note io = called_receive [OF c doc g t]
  show ?thesis
  proof (cases "r = 0")
    case True
    then have "s' = clock (have_all (x_actual s) (e_len e) (-1)) s1"
      using b g p by (simp add: readData_select_body_def nc_os Let_def s1_def wait_for_def)
    with c show ?thesis by (auto intro: xstep.Idle)
  next
    case event: False
    let ?s2 = "s1\<lparr>x_sock := S, x_hist := h, x_mem := mem_write (x_mem s1) (x_off s1) bs\<rparr>"
    let ?err = "os_errno (e_os e) h"
    have b': "Inl s' = (if n = -1 \<and> ncSocketReset (e_cfg e) ?err
        then Inl (give_up NCSD_READ NC_CLIENTDISCONNECT ?s2)
        else if 0 < n \<or> n = 0 \<and> ncIsBlockingError (e_cfg e) ?err
        then (let s = advance n ?s2 in Inl (clock (have_all (x_actual s) (e_len e) (-1)) s))
        else Inl (give_up NCSD_READ NC_FAILED ?s2))"
      using b g p t event
      by (auto simp: readData_select_body_def nc_os Let_def s1_def wait_for_def ncSocketError_def
          split: if_splits)
    have mv: "called Receiving s ?s2 bs" using io(4) by (simp add: called_fields [OF c])
    have "n \<le> 0 \<Longrightarrow> called Receiving s ?s2 []" using mv io(1,2) by (cases "n < 0") auto
    with b' show ?thesis
      using xstep.Lost [of Receiving s ?s2 _ e] xstep.Moved [OF mv _ refl, of e] io(2,3)
      by (cases "n \<le> 0") (auto simp: Let_def split: if_splits)
  qed
qed

interpretation wselect: transfer_loop writeData_select_body "\<lambda>_. True" select_write_ok Sending
proof
  show "xstep Sending e s s'" if "select_write_ok e" "xguard s" "writeData_select_body e s = Inl s'"
    for e s s' using that by (rule writeData_select_refines)
  show "r = NC_FAILED \<and> called Sending s s' []"
    if "select_write_ok e" "xguard s" "writeData_select_body e s = Inr (r, s')" for e s r s'
    using that
    by (auto simp: writeData_select_body_def Let_def nc_os split: if_splits prod.splits
        intro: called_wait)
qed simp

interpretation rselect: transfer_loop readData_select_body "\<lambda>_. True" select_read_ok Receiving
proof
  show "xstep Receiving e s s'" if "select_read_ok e" "xguard s" "readData_select_body e s = Inl s'"
    for e s s' using that by (rule readData_select_refines)
  show "r = NC_FAILED \<and> called Receiving s s' []"
    if "select_read_ok e" "xguard s" "readData_select_body e s = Inr (r, s')" for e s r s'
    using that
    by (auto simp: readData_select_body_def Let_def nc_os split: if_splits prod.splits
        intro: called_wait)
qed simp

section \<open>Properties of the select version\<close>

definition is_send :: "call \<Rightarrow> bool" where
  "is_send c \<longleftrightarrow> (case c of SysSend fd bs fl r \<Rightarrow> True | _ \<Rightarrow> False)"

text \<open>
  C35: on the \<open>select\<close> version a \<open>send\<close> that fails with a would-block error moves the pointer
  one byte back. If the next \<open>send\<close> takes everything, the kernel is handed \<open>bufLen + 1\<close>
  bytes, the first of them from in front of the buffer, and the caller is told that all
  \<open>bufLen\<close> bytes were sent.
\<close>

theorem writeData_select_would_block:
  assumes sel: "\<forall>h fd s us. os_select (e_os e) h WaitWrite (fd + 1) [fd] s us = (1, [fd])"
    and send: "\<forall>h fd bs fl. os_send (e_os e) h fd bs fl =
      (if list_ex is_send h then int (length bs) else -1)"
    and err: "\<forall>h. ncIsBlockingError (e_cfg e) (os_errno (e_os e) h)"
    and fresh: "\<not> list_ex is_send h" and tcp: "m_socktype S = SOCKTYPE_TCPIP" and len: "0 < e_len e"
    and time: "m_polltime S < m_timeout S" "m_polltime S + m_polltime S < m_timeout S"
  shows "\<exists>s. writeData_select e S buf True h = Some (NC_OK, s) \<and> x_actual s = Some (e_len e) \<and>
    sent_bytes (x_hist s) = sent_bytes h @ buf (-1) # mem_read buf 0 (e_len e)"
proof -
  let ?s0 = "xfer_init e S buf True h"
  have nr: "\<not> ncSocketReset (e_cfg e) (os_errno (e_os e) g)" for g
    using err reset_not_blocking by blast
  have "\<exists>s. writeData_select_body e ?s0 = Inl s \<and> x_rem s = e_len e + 1 \<and> x_off s = -1 \<and>
      x_actual s = Some (-1) \<and> x_timedout s = 0 \<and> x_timeout s = m_polltime S \<and>
      x_mem s = buf \<and> list_ex is_send (x_hist s) \<and> sent_bytes (x_hist s) = sent_bytes h \<and>
      m_socktype (x_sock s) = m_socktype S \<and> m_polltime (x_sock s) = m_polltime S \<and>
      m_timeout (x_sock s) = m_timeout S"
    using sel send err nr fresh tcp len time
    by (simp add: writeData_select_body_def xfer_init_def xguard_def Let_def nc_os transmit_def
        wait_for_def clock_ret have_all_def is_send_def ncSocketError_def)
  then obtain s1 where s1: "writeData_select_body e ?s0 = Inl s1" "x_rem s1 = e_len e + 1"
      "x_off s1 = -1" "x_actual s1 = Some (-1)" "x_timedout s1 = 0" "x_timeout s1 = m_polltime S"
      "x_mem s1 = buf" "list_ex is_send (x_hist s1)" "sent_bytes (x_hist s1) = sent_bytes h"
      "m_socktype (x_sock s1) = m_socktype S" "m_polltime (x_sock s1) = m_polltime S"
      "m_timeout (x_sock s1) = m_timeout S" by blast
  have front: "mem_read buf (-1) (e_len e + 1) = buf (-1) # mem_read buf 0 (e_len e)"
    using mem_read_append [of 1 "e_len e" buf "-1"] len by (simp add: mem_read_def add.commute)
  have "\<exists>s. writeData_select_body e s1 = Inl s \<and> x_rem s = 0 \<and> x_actual s = Some (e_len e) \<and>
      x_ret s = NC_OK \<and>
      sent_bytes (x_hist s) = sent_bytes h @ buf (-1) # mem_read buf 0 (e_len e)"
    using sel send err nr s1 tcp len time front
    by (simp add: writeData_select_body_def xguard_def Let_def nc_os transmit_def
        wait_for_def clock_ret have_all_def is_send_def ncSocketError_def)
  then obtain s where s: "writeData_select_body e s1 = Inl s" "\<not> xguard s"
      "x_actual s = Some (e_len e)" "x_ret s = NC_OK"
      "sent_bytes (x_hist s) = sent_bytes h @ buf (-1) # mem_read buf 0 (e_len e)"
    by (auto simp: xguard_def)
  then show ?thesis
    using wselect_clock.leaves [OF s(2), of e] s1(1) by (simp add: writeData_select_def run_loop_again)
qed

definition would_block_os :: os where
  "would_block_os = dead_os
     \<lparr>os_errno := \<lambda>h. WSAEWOULDBLOCK,
      os_select := \<lambda>h d n fds s us. (1, fds),
      os_send := \<lambda>h fd bs fl. if list_ex is_send h then int (length bs) else -1\<rparr>"

theorem writeData_select_would_block_witness:
  "\<exists>s. writeData_select \<lparr>e_os = would_block_os, e_cfg = win32_config, e_len = 2\<rparr>
        (ncSocket_of_fd win32_config 5) (\<lambda>a. word_of_int (a + 65)) True [] = Some (NC_OK, s) \<and>
    x_actual s = Some (e_len \<lparr>e_os = would_block_os, e_cfg = win32_config, e_len = 2\<rparr>) \<and>
    sent_bytes (x_hist s) = sent_bytes [] @ (\<lambda>a. word_of_int (a + 65)) (-1) #
      mem_read (\<lambda>a. word_of_int (a + 65)) 0
        (e_len \<lparr>e_os = would_block_os, e_cfg = win32_config, e_len = 2\<rparr>)"
  by (rule writeData_select_would_block)
    (simp_all add: would_block_os_def win32_config_def ncIsBlockingError_def ncSocket_of_fd_def
      SOCKTYPE_TCPIP_def)

text \<open>
  The time out handed to \<open>select\<close>. As long as \<open>m_polltime * 1000\<close> does not wrap, the
  two halves are the quotient and the remainder by 100000, not by the million microseconds of a
  second: a poll time below 100 ms is handed over exactly, and one of 100 ms or more becomes
  longer than asked for.
\<close>

lemma select_timeout:
  assumes "uint (m_polltime S) * 1000 < 2 ^ 32"
  shows "timeoutSeconds S * 100000 + timeoutUSeconds S = uint (m_polltime S) * 1000 \<and>
    (if uint (m_polltime S) < 100
     then timeoutSeconds S * 1000000 + timeoutUSeconds S = uint (m_polltime S) * 1000
     else timeoutSeconds S * 1000000 + timeoutUSeconds S > uint (m_polltime S) * 1000)"
proof -
  let ?p = "uint (m_polltime S) * 1000"
  have p: "uint (m_polltime S * 1000) = ?p"
    using assms by (simp add: uint_word_ariths)
  have s: "timeoutSeconds S = ?p div 100000" and u: "timeoutUSeconds S = ?p mod 100000"
    by (simp_all add: timeoutSeconds_def timeoutUSeconds_def uint_div uint_mod p)
  have sum: "timeoutSeconds S * 100000 + timeoutUSeconds S = ?p" unfolding s u by (rule div_mult_mod_eq)
  have "(uint (m_polltime S) < 100) = (timeoutSeconds S = 0)" "0 \<le> timeoutSeconds S"
    unfolding s by (auto simp: pos_imp_zdiv_nonneg_iff)
  with sum show ?thesis by auto
qed

end
