(* ===== verification/Nc_Sock_IO.thy ===== *)
theory Nc_Sock_IO
  imports Nc_Sock_Poll Nc_Sock_Select
begin

text \<open>
  \<open>ncSocket::writeData\<close> and \<open>ncSocket::readData\<close> as a program calls them: the preprocessor
  chooses the \<open>poll\<close> or the \<open>select\<close> version. The properties of the two methods are stated
  here; they rest on the interpretations of the transfer contract.
\<close>

definition writeData :: "xenv \<Rightarrow> ncSocket \<Rightarrow> mem \<Rightarrow> bool \<Rightarrow> hist \<Rightarrow> (retcode \<times> xfer) option" where
  "writeData e = (if uses_select (e_cfg e) then writeData_select e else writeData_poll e)"

definition readData :: "xenv \<Rightarrow> ncSocket \<Rightarrow> mem \<Rightarrow> bool \<Rightarrow> hist \<Rightarrow> (retcode \<times> xfer) option" where
  "readData e = (if uses_select (e_cfg e) then readData_select e else readData_poll e)"

definition write_env_ok :: "xenv \<Rightarrow> bool" where
  "write_env_ok e = (if uses_select (e_cfg e) then select_write_ok e else poll_write_ok e)"

definition read_env_ok :: "xenv \<Rightarrow> bool" where
  "read_env_ok e = (if uses_select (e_cfg e) then select_read_ok e else poll_read_ok e)"

text \<open>Both methods, by direction.\<close>

fun do_transfer :: "xdir \<Rightarrow> xenv \<Rightarrow> ncSocket \<Rightarrow> mem \<Rightarrow> bool \<Rightarrow> hist \<Rightarrow> (retcode \<times> xfer) option" where
  "do_transfer Sending = writeData"
| "do_transfer Receiving = readData"

lemmas io_defs = writeData_def readData_def writeData_poll_def readData_poll_def
  writeData_select_def readData_select_def write_env_ok_def read_env_ok_def

section \<open>A concrete operating system\<close>

text \<open>
  For the witnesses: an operating system on which the descriptor is always ready, \<open>send\<close> takes
  at most two bytes at a time, and \<open>recv\<close> delivers at most two bytes at a time of a stream of
  seven-s that never ends.
\<close>

definition ready_os :: os where
  "ready_os = dead_os
     \<lparr>os_poll := \<lambda>h fd ev t. (1, ev),
      os_select := \<lambda>h d n fds s us. (1, fds),
      os_send := \<lambda>h fd bs fl. min 2 (int (length bs)),
      os_sendto := \<lambda>h fd bs a. min 2 (int (length bs)),
      os_recv := \<lambda>h fd n fl. (max 0 (min 2 n), replicate (nat (min 2 n)) 7),
      os_recvfrom := \<lambda>h fd n. (max 0 (min 2 n), replicate (nat (min 2 n)) 7, zero_sockaddr)\<rparr>"

definition linux_env :: "int \<Rightarrow> xenv" where
  "linux_env n = \<lparr>e_os = ready_os, e_cfg = linux_config, e_len = n\<rparr>"

definition win32_env :: "int \<Rightarrow> xenv" where
  "win32_env n = \<lparr>e_os = ready_os, e_cfg = win32_config, e_len = n\<rparr>"

lemma env_len [simp]: "e_len (linux_env n) = n" "e_len (win32_env n) = n"
  by (simp_all add: linux_env_def win32_env_def)

lemma ready_os_docs: "poll_doc ready_os" "send_doc ready_os" "recv_doc ready_os"
  by (auto simp: ready_os_def poll_doc_def send_doc_def recv_doc_def recv_result_def)

lemma ready_os_write: "transmit (win32_env m) S d h = (n, h') \<Longrightarrow> 0 \<le> n"
  by (auto simp: transmit_def win32_env_def ready_os_def nc_os Let_def split: if_splits)

lemma concrete_envs:
  "write_env_ok (linux_env n)" "read_env_ok (linux_env n)"
  "write_env_ok (win32_env n)" "read_env_ok (win32_env n)"
  using ready_os_docs ready_os_write [of n]
  by (fastforce simp: write_env_ok_def read_env_ok_def poll_write_ok_def poll_read_ok_def
      select_write_ok_def select_read_ok_def linux_env_def win32_env_def linux_config_def
      win32_config_def uses_select_def)+

lemma default_clock_fits: "clock_fits (ncSocket_of_fd c fd)"
  by (simp add: clock_fits_def ncSocket_of_fd_def)

lemma writeData_post:
  assumes "write_env_ok e" "0 \<le> e_len e" "clock_fits S"
  shows "\<exists>r s. writeData e S buf want h = Some (r, s) \<and>
    transfer_post (e_len e) Sending (xfer_init e S buf want h) r s"
  using assms wpoll.total_post wselect.total_post by (simp add: io_defs)

lemma readData_post:
  assumes "read_env_ok e" "0 \<le> e_len e" "clock_fits S"
  shows "\<exists>r s. readData e S buf want h = Some (r, s) \<and>
    transfer_post (e_len e) Receiving (xfer_init e S buf want h) r s"
  using assms rpoll.total_post rselect.total_post by (simp add: io_defs)

section \<open>Properties of both versions\<close>

text \<open>
  C1: \<open>writeData\<close> always returns, and when it does the kernel has been handed the first \<open>n\<close>
  bytes of the buffer, in order, once each and nothing else, where \<open>n\<close> is what
  \<open>*numActualBytes\<close> says; the buffer and the object's settings are untouched. \<open>NC_OK\<close>
  means all bytes, \<open>NC_MOREDATA\<close> some but not all (and only if \<open>numActualBytes\<close> was given),
  \<open>NC_TIMEDOUT\<close> none if \<open>numActualBytes\<close> was given, \<open>NC_CLIENTDISCONNECT\<close> that the sending
  side was shut down; no other code but \<open>NC_FAILED\<close> is returned. Assumed: the results of
  \<open>poll\<close> and \<open>send\<close> are in their documented ranges, on the \<open>select\<close> version \<open>send\<close> never
  reports a would-block error, and the settings let the 32-bit clock reach the time out.
\<close>

theorem writeData_correct:
  assumes "write_env_ok e" "0 \<le> e_len e" "clock_fits S"
  shows "\<exists>r s. writeData e S buf want h = Some (r, s) \<and>
    transfer_post (e_len e) Sending (xfer_init e S buf want h) r s"
  by (rule writeData_post [OF assms])

theorem writeData_correct_witness:
  "\<exists>r s. writeData (linux_env 3) (ncSocket_of_fd linux_config 5) (\<lambda>a. word_of_int a) True [] =
      Some (r, s) \<and>
    transfer_post (e_len (linux_env 3)) Sending
      (xfer_init (linux_env 3) (ncSocket_of_fd linux_config 5) (\<lambda>a. word_of_int a) True []) r s"
  by (rule writeData_correct) (simp_all add: concrete_envs default_clock_fits)

text \<open>
  C2: the same for \<open>readData\<close>: it always returns, the first \<open>n\<close> bytes of the buffer are then
  exactly the bytes received, in order, no byte outside them was written, and the return codes
  mean what they mean for \<open>writeData\<close>.
\<close>

theorem readData_correct:
  assumes "read_env_ok e" "0 \<le> e_len e" "clock_fits S"
  shows "\<exists>r s. readData e S buf want h = Some (r, s) \<and>
    transfer_post (e_len e) Receiving (xfer_init e S buf want h) r s"
  by (rule readData_post [OF assms])

theorem readData_correct_witness:
  "\<exists>r s. readData (win32_env 3) (ncSocket_of_fd win32_config 5) (\<lambda>a. 0) True [] = Some (r, s) \<and>
    transfer_post (e_len (win32_env 3)) Receiving
      (xfer_init (win32_env 3) (ncSocket_of_fd win32_config 5) (\<lambda>a. 0) True []) r s"
  by (rule readData_correct) (simp_all add: concrete_envs default_clock_fits)

text \<open>
  A transfer waits for the descriptor at most once more than the poll time goes into the time
  out: the number of waits, less the first, times the poll time stays below the time out. Nothing
  is assumed of the operating system but that \<open>poll\<close> returns what it is documented to return,
  so the bound holds whatever errors \<open>send\<close> and \<open>recv\<close> report.
\<close>

lemma transfer_waits_bound:
  assumes "uses_select (e_cfg e) \<or> poll_doc (e_os e)" "clock_fits S"
    and "do_transfer d e S buf want h = Some (r, s)"
  shows "waits (x_hist s) \<le> Suc (waits h) \<or>
    (waits (x_hist s) - Suc (waits h)) * unat (m_polltime S) < unat (m_timeout S)"
  using assms wpoll_clock.waits_bound [of e "xfer_init e S buf want h" r s]
    wselect_clock.waits_bound [of e "xfer_init e S buf want h" r s]
    rpoll_clock.waits_bound [of e "xfer_init e S buf want h" r s]
    rselect_clock.waits_bound [of e "xfer_init e S buf want h" r s]
  by (cases d) (auto simp: io_defs xfer_init_def poll_clock_ok_def split: if_splits)

text \<open>
  A call with nothing to transfer returns \<open>NC_OK\<close> at once, makes no call into the operating
  system, writes no memory and leaves the object alone, whatever its settings.
\<close>

lemma empty_transfer:
  assumes "e_len e \<le> 0"
  shows "writeData e S buf want h = Some (NC_OK, xfer_init e S buf want h) \<and>
    readData e S buf want h = Some (NC_OK, xfer_init e S buf want h)"
proof -
  have "\<not> xguard (xfer_init e S buf want h)" "x_ret (xfer_init e S buf want h) = NC_OK"
    using assms by (simp_all add: xguard_def xfer_init_def)
  then show ?thesis
    by (simp add: io_defs wpoll_clock.leaves rpoll_clock.leaves wselect_clock.leaves rselect_clock.leaves)
qed

end
