(* ===== verification/Nc_Sock_Connect.thy ===== *)
theory Nc_Sock_Connect
  imports Nc_Sock
begin

text \<open>
  \<open>ncSocket::connect\<close> of \<^verbatim>\<open>src/ncsocket.cpp\<close>, with the macros of \<^verbatim>\<open>src/ncarch.h\<close> it uses to
  resolve a host and to make a socket non-blocking.

  The local \<open>tmp\<close> is not initialised by the code: its indeterminate value is the argument
  \<open>tmp\<close>. \<open>servaddr\<close> points to it on a TCP socket and to \<open>m_to\<close> on any other.
\<close>

section \<open>Resolving the host\<close>

text \<open>
  \<open>ncGetInetAddr\<close> under \<open>ncValidInetAddr\<close>: whether the dotted address was valid, and what
  \<open>servaddr->sin_addr.s_addr\<close> is then. \<open>inet_pton\<close> stores an address only on success.

  Windows, FreeBSD and Darwin use \<open>inet_addr\<close>, which gives \<open>INADDR_NONE\<close> on failure. Their macros
  put \<^verbatim>\<open>*addrPtr = inet_addr(host)\<close> without parentheses in front of \<^verbatim>\<open>!= INADDR_NONE\<close>; the
  comparison binds tighter than the assignment, so what is stored is its result, 1 or 0, and not
  the address. (\<open>Nc_Build\<close> derives this from the text of the macros.) Cygwin without \<open>inet_pton\<close>
  calls \<open>inet_addr\<close> in its place, which stores nothing.
\<close>

definition inet_addr_store :: "os \<Rightarrow> cstring \<Rightarrow> 32 word \<Rightarrow> hist \<Rightarrow> bool \<times> 32 word \<times> hist" where
  "inet_addr_store K host old h =
     (let a = os_inet_addr K h host in (a \<noteq> INADDR_NONE, if a \<noteq> INADDR_NONE then 1 else 0, SysInetAddr host a # h))"

definition inet_addr_drop :: "os \<Rightarrow> cstring \<Rightarrow> 32 word \<Rightarrow> hist \<Rightarrow> bool \<times> 32 word \<times> hist" where
  "inet_addr_drop K host old h =
     (let a = os_inet_addr K h host in (0 < a, old, SysInetAddr host a # h))"

definition inet_pton_store :: "os \<Rightarrow> cstring \<Rightarrow> 32 word \<Rightarrow> hist \<Rightarrow> bool \<times> 32 word \<times> hist" where
  "inet_pton_store K host old h =
     (let (r, a) = os_inet_pton K h host
      in (0 < r, if r = 1 then a else old, SysInetPton host r a # h))"

definition ncGetInetAddr :: "os \<Rightarrow> config \<Rightarrow> cstring \<Rightarrow> 32 word \<Rightarrow> hist \<Rightarrow> bool \<times> 32 word \<times> hist"
  where
  "ncGetInetAddr K c host old h =
     (if cfg_platform c \<in> {Win32, FreeBSD, Darwin} then inet_addr_store K host old h
      else if cfg_platform c = Cygwin \<and> \<not> cfg_have_inet_pton c then inet_addr_drop K host old h
      else inet_pton_store K host old h)"

lemmas ncGetInetAddr_defs = ncGetInetAddr_def inet_addr_store_def inet_addr_drop_def inet_pton_store_def

text \<open>
  \<open>*((unsigned long *)h_addr_list[0])\<close>: as many bytes as an \<open>unsigned long\<close> has, of which
  the assignment to \<open>s_addr\<close> keeps the low 32 bits.
\<close>

definition first_address :: "config \<Rightarrow> (nat \<Rightarrow> byte) \<Rightarrow> 32 word" where
  "first_address c m = ucast (load_word c (map m [0..<if cfg_lp64 c then 8 else 4]))"

section \<open>Non-blocking mode\<close>

definition ncSetSocketNonBlocking_win :: "os \<Rightarrow> fd \<Rightarrow> hist \<Rightarrow> hist" where
  "ncSetSocketNonBlocking_win K fd h = SysIoctlNonblock fd # h"

definition ncSetSocketNonBlocking_linux :: "os \<Rightarrow> fd \<Rightarrow> hist \<Rightarrow> hist" where
  "ncSetSocketNonBlocking_linux K fd h =
     (let fl = os_fcntl_getfd K h fd in SysFcntlSetfl fd fl # SysFcntlGetfd fd fl # h)"

definition ncSetSocketNonBlocking :: "os \<Rightarrow> config \<Rightarrow> fd \<Rightarrow> hist \<Rightarrow> hist" where
  "ncSetSocketNonBlocking K c fd h =
     (if cfg_platform c = Win32 then ncSetSocketNonBlocking_win K fd h
      else ncSetSocketNonBlocking_linux K fd h)"

lemmas ncSetSocketNonBlocking_defs =
  ncSetSocketNonBlocking_def ncSetSocketNonBlocking_win_def ncSetSocketNonBlocking_linux_def

section \<open>connect\<close>

text \<open>\<open>memset(servaddr,0,sizeof(servaddr))\<close> clears as many bytes as a pointer has.\<close>

definition clear_servaddr :: "config \<Rightarrow> sockaddr_in \<Rightarrow> sockaddr_in" where
  "clear_servaddr c a =
     (if cfg_ptr64 c then a\<lparr>sin_family := 0, sin_port := 0, s_addr := 0\<rparr>
      else a\<lparr>sin_family := 0, sin_port := 0\<rparr>)"

definition connect_body ::
    "os \<Rightarrow> config \<Rightarrow> fd \<Rightarrow> sockaddr_in \<Rightarrow> 32 word \<Rightarrow>
     64 word \<times> hist \<Rightarrow> (64 word \<times> hist) + (retcode \<times> hist)" where
  "connect_body K c fd addr limit s =
     (let (timeout, h) = s;
          r = os_connect K h fd addr;
          h = SysConnect fd addr r # h
      in if \<not> r < 0 then Inr (NC_OK, h)
         else
           let err = os_errno K h
           in if ncIsBlockingError c err
              then (let timeout = ulong c (timeout + 100)
                    in if ucast limit < timeout then Inr (NC_TIMEDOUT, h)
                       else Inl (timeout, SysSleep 100 # h))
              else if ncIsConnected c err then Inr (NC_OK, h)
              else Inr (NC_FAILED, h))"

text \<open>
  Everything before the loop: the new socket, the address, non-blocking mode. \<open>None\<close> is a
  \<open>return NC_FAILED\<close>, \<open>Some addr\<close> the address to connect to.
\<close>

definition connect_front ::
    "os \<Rightarrow> config \<Rightarrow> sockaddr_in \<Rightarrow> ncSocket \<Rightarrow> hist \<Rightarrow> sockaddr_in option \<times> ncSocket \<times> hist" where
  "connect_front K c tmp S h =
     (let tcp = (m_socktype S = SOCKTYPE_TCPIP);
          sockType = (if tcp then SOCK_STREAM else SOCK_DGRAM);
          store = (\<lambda>a S. if tcp then S else S\<lparr>m_to := a\<rparr>);
          fd = os_socket K h sockType;
          h = SysSocket sockType fd # h;
          S = S\<lparr>m_sockfd := fd\<rparr>
      in if fd = 0 then (None, S, h)
         else
           let addr = (clear_servaddr c (if tcp then tmp else m_to S))
                 \<lparr>sin_family := AF_INET, sin_port := htons c (m_port S)\<rparr>;
               host = cstr (m_hostname S);
               (valid, a, h) = ncGetInetAddr K c host (s_addr addr) h;
               addr = addr\<lparr>s_addr := a\<rparr>;
               found = (if valid then Some (addr, h)
                        else (case os_gethostbyname K h host of
                                None \<Rightarrow> None
                              | Some m \<Rightarrow> Some (addr\<lparr>s_addr := first_address c m\<rparr>,
                                                SysGethostbyname host True # h)))
           in case found of
                None \<Rightarrow> (None, store addr S, SysGethostbyname host False # h)
              | Some (addr, h) \<Rightarrow>
                  (Some addr, (store addr S)\<lparr>m_ipaddr := ucast (s_addr addr)\<rparr>,
                   ncSetSocketNonBlocking K c (m_sockfd S) h))"

definition ncSocket_connect ::
    "os \<Rightarrow> config \<Rightarrow> sockaddr_in \<Rightarrow> ncSocket \<Rightarrow> hist \<Rightarrow> (retcode \<times> ncSocket \<times> hist) option" where
  "ncSocket_connect K c tmp S h =
     (case connect_front K c tmp S h of
        (None, S, h) \<Rightarrow> Some (NC_FAILED, S, h)
      | (Some addr, S, h) \<Rightarrow>
          map_option (\<lambda>(r, h). (r, S, h))
            (run_loop (connect_body K c (m_sockfd S) addr (m_timeout S)) (0, h)))"

lemmas ncSocket_connect_defs = ncSocket_connect_def connect_front_def

definition ncSocket_connect_to ::
    "os \<Rightarrow> config \<Rightarrow> sockaddr_in \<Rightarrow> cstring option \<Rightarrow> 16 word \<Rightarrow> int \<Rightarrow> ncSocket \<Rightarrow> hist \<Rightarrow>
     (retcode \<times> ncSocket \<times> hist) option" where
  "ncSocket_connect_to K c tmp host port sockType S h =
     (case host of
        Some name \<Rightarrow>
          if port \<noteq> 0
          then ncSocket_connect K c tmp
                 (S\<lparr>m_port := port, m_socktype := sockType, m_hostname := copy_hostname name\<rparr>) h
          else Some (NC_FAILED, S, h)
      | None \<Rightarrow> Some (NC_FAILED, S, h))"

section \<open>The address that was found\<close>

lemma word_of_le_append:
  "word_of_le (xs @ ys) = word_of_le xs + 256 ^ length xs * word_of_le ys"
  by (induction xs) (simp_all add: algebra_simps)

lemma ucast_low_32: "(ucast (a + 4294967296 * b :: 64 word) :: 32 word) = ucast a"
proof (rule word_uint_eq_iff [THEN iffD2])
  have "uint (a + 4294967296 * b) = (uint a + 4294967296 * uint b) mod 2 ^ 64"
    by (simp add: uint_word_ariths mod_simps)
  then have "uint (a + 4294967296 * b) mod 2 ^ 32 = (uint a + 4294967296 * uint b) mod 2 ^ 32"
    by (simp add: mod_mod_cancel)
  also have "\<dots> = uint a mod 2 ^ 32" by simp
  finally show "uint (ucast (a + 4294967296 * b) :: 32 word) = uint (ucast a :: 32 word)"
    by (simp add: unsigned_ucast_eq take_bit_eq_mod)
qed

section \<open>The connect loop\<close>

primrec connects :: "hist \<Rightarrow> nat" where
  "connects [] = 0"
| "connects (c # h) = (case c of SysConnect fd a r \<Rightarrow> Suc (connects h) | _ \<Rightarrow> connects h)"

text \<open>The settings for which the \<open>unsigned long\<close> clock passes the limit before it wraps.\<close>

definition connect_clock_fits :: "config \<Rightarrow> 32 word \<Rightarrow> bool" where
  "connect_clock_fits c limit \<longleftrightarrow> cfg_lp64 c \<or> uint limit + 100 < 2 ^ 32"

lemma unat_ucast_32_64: "unat (ucast (x :: 32 word) :: 64 word) = unat x"
proof -
  have "unat x < 2 ^ 64" using unsigned_less [where 'a = nat, of x] by simp
  then show ?thesis by (simp add: unsigned_ucast_eq take_bit_nat_eq_self)
qed

lemma ulong_add_100:
  assumes "connect_clock_fits c limit" and "t \<le> (ucast limit :: 64 word)"
  shows "unat (ulong c (t + 100)) = unat t + 100"
proof -
  have lim: "unat (ucast limit :: 64 word) = unat limit"
    by (rule unat_ucast_32_64)
  have t: "unat t \<le> unat limit" using assms(2) lim by (simp add: word_le_nat_alt)
  have "unat limit < 2 ^ 32" using unsigned_less [where 'a = nat, of limit] by simp
  with t have s: "unat (t + 100) = unat t + 100" by (simp add: unat_word_ariths)
  show ?thesis
  proof (cases "cfg_lp64 c")
    case True
    with s show ?thesis by (simp add: ulong_def)
  next
    case False
    with assms(1) have "uint limit + 100 < 2 ^ 32" by (simp add: connect_clock_fits_def)
    then have "int (unat limit + 100) < int (2 ^ 32)" by simp
    then have "unat limit + 100 < 2 ^ 32" by (simp only: of_nat_less_iff)
    with t s have "unat (t + 100) < 2 ^ 32" by linarith
    with s False show ?thesis
      by (simp add: ulong_def unsigned_take_bit_eq take_bit_nat_eq_self)
  qed
qed

text \<open>
  \<open>connect_post\<close>: how the loop ends. \<open>n\<close> attempts were made, at most one more than the
  time out has tenths of a second; a time out means that this number was reached.
\<close>

definition connect_post :: "os \<Rightarrow> config \<Rightarrow> fd \<Rightarrow> sockaddr_in \<Rightarrow> 32 word \<Rightarrow> nat \<Rightarrow> retcode \<Rightarrow> hist \<Rightarrow> bool"
  where
  "connect_post K c fd addr limit n0 r h \<longleftrightarrow>
     (let n = connects h - n0; err = os_errno K h
      in (\<exists>res h'. h = SysConnect fd addr res # h' \<and>
            (case r of
               NC_OK \<Rightarrow> 0 \<le> res \<or> ncIsConnected c err
             | NC_TIMEDOUT \<Rightarrow> res < 0 \<and> ncIsBlockingError c err
             | NC_FAILED \<Rightarrow> res < 0 \<and> \<not> ncIsBlockingError c err \<and> \<not> ncIsConnected c err
             | _ \<Rightarrow> False)) \<and>
         1 \<le> n \<and> n \<le> Suc (unat limit div 100) \<and>
         (r = NC_TIMEDOUT \<longrightarrow> n = Suc (unat limit div 100)))"

lemma connect_again:
  assumes fits: "connect_clock_fits c limit" and t: "t \<le> ucast limit"
    and b: "connect_body K c fd addr limit (t, g) = Inl (t', g')"
  shows "t' \<le> ucast limit" "unat t' = unat t + 100"
    "g' = SysSleep 100 # SysConnect fd addr (os_connect K g fd addr) # g"
proof -
  from b have "\<not> ucast limit < ulong c (t + 100)" "t' = ulong c (t + 100)"
    "g' = SysSleep 100 # SysConnect fd addr (os_connect K g fd addr) # g"
    by (auto simp: connect_body_def Let_def split: if_splits)
  with ulong_add_100 [OF fits t] show "t' \<le> ucast limit" "unat t' = unat t + 100"
    "g' = SysSleep 100 # SysConnect fd addr (os_connect K g fd addr) # g" by simp_all
qed

lemma connect_loop:
  assumes fits: "connect_clock_fits c limit"
  shows "\<exists>r h'. run_loop (connect_body K c fd addr limit) (0, h) = Some (r, h') \<and>
    connect_post K c fd addr limit (connects h) r h'"
proof -
  let ?b = "connect_body K c fd addr limit" and ?L = "ucast limit :: 64 word"
  let ?I = "\<lambda>(t, g). connects h \<le> connects g \<and> t \<le> ?L \<and> unat t = 100 * (connects g - connects h)"
  have lim: "unat ?L = unat limit" by (rule unat_ucast_32_64)
  have init: "?I (0, h)" by simp
  have again: "?I s' \<and> unat ?L - unat (fst s') < unat ?L - unat (fst s)"
    if I: "?I s" and b: "?b s = Inl s'" for s s'
  proof -
    obtain t g where s: "s = (t, g)" by force
    obtain t' g' where s': "s' = (t', g')" by force
    have t: "t \<le> ?L" using I s by simp
    note a = connect_again [OF fits t b [unfolded s s']]
    with I show ?thesis by (auto simp: s s' word_less_nat_alt word_le_nat_alt Suc_diff_le)
  qed
  have leave: "connect_post K c fd addr limit (connects h) (fst q) (snd q)"
    if I: "?I s" and b: "?b s = Inr q" for s q
  proof -
    obtain t g where s: "s = (t, g)" by force
    let ?h = "SysConnect fd addr (os_connect K g fd addr) # g"
    have u: "unat (ulong c (t + 100)) = unat t + 100"
      by (rule ulong_add_100 [OF fits]) (use I s in simp)
    have n: "connects ?h - connects h = Suc (unat t div 100)" and t: "unat t \<le> unat limit"
      using I lim by (auto simp: s Suc_diff_le word_le_nat_alt)
    have "fst q = NC_TIMEDOUT \<Longrightarrow> unat limit < unat t + 100"
      using b u lim by (auto simp: connect_body_def s Let_def word_less_nat_alt split: if_splits)
    moreover have "unat t = 100 * (unat t div 100)" using I by (auto simp: s)
    ultimately have "fst q = NC_TIMEDOUT \<Longrightarrow> unat limit div 100 = unat t div 100"
      using t by linarith
    moreover have "unat t div 100 \<le> unat limit div 100" using t by (rule div_le_mono)
    ultimately show ?thesis
      using b n connected_not_blocking
      by (auto simp: connect_post_def connect_body_def s Let_def not_less split: if_splits)
  qed
  have "\<exists>q. run_loop ?b (0, h) = Some q"
    by (rule run_loop_returns [where I = ?I and m = "\<lambda>s. unat ?L - unat (fst s)", OF init again])
  then obtain r h' where run: "run_loop ?b (0, h) = Some (r, h')" by force
  have "connect_post K c fd addr limit (connects h) (fst (r, h')) (snd (r, h'))"
    by (rule run_loop_inv [OF run, where I = ?I, OF init]) (use again leave in blast)+
  with run show ?thesis by auto
qed

section \<open>Properties of connect\<close>

lemma connects_resolve: "ncGetInetAddr K c host old h = (v, a, h') \<Longrightarrow> connects h' = connects h"
  by (auto simp: ncGetInetAddr_defs Let_def split: if_splits prod.splits)

lemma connects_nonblocking [simp]: "connects (ncSetSocketNonBlocking K c fd h) = connects h"
  by (simp add: ncSetSocketNonBlocking_defs Let_def)

text \<open>What a call of \<open>connect\<close> that got as far as an address comes to.\<close>

lemma connect_resolved:
  assumes fits: "connect_clock_fits c (m_timeout S)"
    and fd: "fd = os_socket K h kind" "fd \<noteq> 0"
    and kind: "kind = (if m_socktype S = SOCKTYPE_TCPIP then SOCK_STREAM else SOCK_DGRAM)"
  shows "(\<exists>S' h'. ncSocket_connect K c tmp S h = Some (NC_FAILED, S', h') \<and> m_sockfd S' = fd \<and>
      connects h' = connects h \<and> (\<exists>g. os_gethostbyname K g (cstr (m_hostname S)) = None)) \<or>
    (\<exists>r S' h' addr. ncSocket_connect K c tmp S h = Some (r, S', h') \<and> m_sockfd S' = fd \<and>
      sin_family addr = AF_INET \<and> sin_port addr = htons c (m_port S) \<and>
      m_ipaddr S' = ucast (s_addr addr) \<and>
      connect_post K c fd addr (m_timeout S) (connects h) r h')"
proof -
  define a0 where "a0 = (clear_servaddr c (if m_socktype S = SOCKTYPE_TCPIP then tmp else m_to S))
    \<lparr>sin_family := AF_INET, sin_port := htons c (m_port S)\<rparr>"
  let ?host = "cstr (m_hostname S)"
  obtain v a g where v: "ncGetInetAddr K c ?host (s_addr a0) (SysSocket kind fd # h) = (v, a, g)"
    by (metis prod_cases3)
  have g: "connects g = connects h" using connects_resolve [OF v] by simp
  have main: ?thesis if "ncSocket_connect K c tmp S h =
      map_option (\<lambda>(r, h). (r, S', h))
        (run_loop (connect_body K c fd addr (m_timeout S)) (0, hh))"
    and "m_sockfd S' = fd" "m_ipaddr S' = ucast (s_addr addr)" "sin_family addr = AF_INET"
      "sin_port addr = htons c (m_port S)" "connects hh = connects h" for S' addr hh
    using that connect_loop [OF fits, of K fd addr hh] by fastforce
  note d = ncSocket_connect_defs Let_def
  show ?thesis
  proof (cases v)
    case True
    let ?addr = "a0\<lparr>s_addr := a\<rparr>"
    show ?thesis
      by (rule main [where addr = ?addr and hh = "ncSetSocketNonBlocking K c fd g" and
            S' = "(if m_socktype S = SOCKTYPE_TCPIP then S\<lparr>m_sockfd := fd\<rparr>
              else S\<lparr>m_sockfd := fd, m_to := ?addr\<rparr>)\<lparr>m_ipaddr := ucast a\<rparr>"])
        (use True v fd kind g in \<open>auto simp: d a0_def\<close>)
  next
    case invalid: False
    show ?thesis
    proof (cases "os_gethostbyname K g ?host")
      case None
      then show ?thesis
        using invalid v fd kind g by (auto simp: d a0_def)
    next
      case (Some m)
      let ?addr = "a0\<lparr>s_addr := first_address c m\<rparr>"
      show ?thesis
        by (rule main [where addr = ?addr and
              hh = "ncSetSocketNonBlocking K c fd (SysGethostbyname ?host True # g)" and
              S' = "(if m_socktype S = SOCKTYPE_TCPIP then S\<lparr>m_sockfd := fd\<rparr>
                else S\<lparr>m_sockfd := fd, m_to := ?addr\<rparr>)\<lparr>m_ipaddr := ucast (first_address c m)\<rparr>"])
          (use invalid Some v fd kind g in \<open>auto simp: d a0_def\<close>)
    qed
  qed
qed

text \<open>
  C12: \<open>connect\<close> returns, with \<open>NC_OK\<close>, \<open>NC_TIMEDOUT\<close> or \<open>NC_FAILED\<close>, after at most one
  attempt more than the time out has tenths of a second. \<open>NC_OK\<close> is returned only right after
  an attempt, made with the stored port in network byte order and to the address left in
  \<open>m_ipaddr\<close>, that succeeded or found the socket connected; \<open>NC_TIMEDOUT\<close> only after the
  full number of attempts, the last of which would have blocked.
\<close>

theorem connect_returns:
  assumes "connect_clock_fits c (m_timeout S)"
  shows "\<exists>r S' h'. ncSocket_connect K c tmp S h = Some (r, S', h') \<and>
    r \<in> {NC_OK, NC_TIMEDOUT, NC_FAILED} \<and>
    connects h' - connects h \<le> Suc (unat (m_timeout S) div 100) \<and>
    (r = NC_OK \<longrightarrow> (\<exists>addr res g. h' = SysConnect (m_sockfd S') addr res # g \<and>
       (0 \<le> res \<or> ncIsConnected c (os_errno K h')) \<and>
       sin_family addr = AF_INET \<and> sin_port addr = htons c (m_port S) \<and>
       m_ipaddr S' = ucast (s_addr addr))) \<and>
    (r = NC_TIMEDOUT \<longrightarrow> connects h' - connects h = Suc (unat (m_timeout S) div 100) \<and>
       ncIsBlockingError c (os_errno K h'))"
proof -
  define kind where "kind = (if m_socktype S = SOCKTYPE_TCPIP then SOCK_STREAM else SOCK_DGRAM)"
  show ?thesis
  proof (cases "os_socket K h kind = 0")
    case True
    then show ?thesis by (simp add: ncSocket_connect_defs Let_def kind_def [symmetric])
  next
    case False
    from connect_resolved [OF assms refl False kind_def, of tmp] show ?thesis
    proof (elim disjE exE conjE)
      fix r S' h' addr
      assume "ncSocket_connect K c tmp S h = Some (r, S', h')"
        and "connect_post K c (os_socket K h kind) addr (m_timeout S) (connects h) r h'"
        and "m_sockfd S' = os_socket K h kind" "sin_family addr = AF_INET"
          "sin_port addr = htons c (m_port S)" "m_ipaddr S' = ucast (s_addr addr)"
      then show ?thesis
        by (intro exI [of _ r] exI [of _ S'] exI [of _ h'])
          (cases r; auto simp: connect_post_def Let_def)
    qed auto
  qed
qed

text \<open>An operating system with one host, to which a connection is made at the third attempt.\<close>

definition third_time_os :: os where
  "third_time_os = dead_os
     \<lparr>os_errno := \<lambda>h. EINPROGRESS,
      os_socket := \<lambda>h k. 7,
      os_inet_pton := \<lambda>h host. (1, 0x0100007F),
      os_connect := \<lambda>h fd a. if connects h = 2 then 0 else -1\<rparr>"

theorem connect_returns_witness:
  "let S = ncSocket_of_host linux_config [49, 50] 80 SOCKTYPE_TCPIP; c = linux_config;
       K = third_time_os
   in \<exists>r S' h'. ncSocket_connect K c zero_sockaddr S [] = Some (r, S', h') \<and>
    r \<in> {NC_OK, NC_TIMEDOUT, NC_FAILED} \<and>
    connects h' - connects [] \<le> Suc (unat (m_timeout S) div 100) \<and>
    (r = NC_OK \<longrightarrow> (\<exists>addr res g. h' = SysConnect (m_sockfd S') addr res # g \<and>
       (0 \<le> res \<or> ncIsConnected c (os_errno K h')) \<and>
       sin_family addr = AF_INET \<and> sin_port addr = htons c (m_port S) \<and>
       m_ipaddr S' = ucast (s_addr addr))) \<and>
    (r = NC_TIMEDOUT \<longrightarrow> connects h' - connects [] = Suc (unat (m_timeout S) div 100) \<and>
       ncIsBlockingError c (os_errno K h'))"
  unfolding Let_def
  by (rule connect_returns) (simp add: connect_clock_fits_def linux_config_def)

text \<open>The addresses of the attempts that were made, oldest first.\<close>

primrec dialled :: "hist \<Rightarrow> sockaddr_in list" where
  "dialled [] = []"
| "dialled (e # h) = (case e of SysConnect fd a r \<Rightarrow> dialled h @ [a] | _ \<Rightarrow> dialled h)"

lemma one_more: "\<exists>m > 0. replicate n a @ [a] = replicate m a"
  by (rule exI [of _ "Suc n"]) (simp add: replicate_append_same)

lemma dialled_loop:
  assumes "run_loop (connect_body K c fd addr limit) (t, h) = Some (r, h')"
  shows "\<exists>n > 0. dialled h' = dialled h @ replicate n addr"
proof -
  let ?I = "\<lambda>(t, g). \<exists>n. dialled g = dialled h @ replicate n addr"
  let ?b = "connect_body K c fd addr limit"
  have trip: "\<exists>m > 0. dialled g' = dialled h @ replicate m addr"
    if "?I (u, g)" "?b (u, g) = Inl (u', g') \<or> ?b (u, g) = Inr (q, g')" for u g u' q g'
  proof -
    from that(1) obtain n where "dialled g = dialled h @ replicate n addr" by auto
    with that(2) have "dialled g' = dialled h @ replicate n addr @ [addr]"
      by (auto simp: connect_body_def Let_def split: if_splits)
    with one_more [of n addr] show ?thesis by auto
  qed
  have "\<exists>n > 0. dialled (snd (r, h')) = dialled h @ replicate n addr"
  proof (rule run_loop_inv [OF assms, where I = ?I])
    show "?I (t, h)" by (auto intro: exI [of _ 0])
    show "?I s'" if "?I s" "?b s = Inl s'" for s s'
      using trip [of "fst s" "snd s" "fst s'" "snd s'" r] that by (cases s; cases s') auto
    show "\<exists>n > 0. dialled (snd q) = dialled h @ replicate n addr" if "?I s" "?b s = Inr q" for s q
      using trip [of "fst s" "snd s" t "snd q" "fst q"] that by (cases s; cases q) auto
  qed
  then show ?thesis by simp
qed

text \<open>
  C39: where the macros store the result of the comparison, a host given in dotted form is lost:
  whatever address \<open>inet_addr\<close> finds in it, \<open>connect\<close> leaves 1 in \<open>m_ipaddr\<close>, and every attempt it
  makes, of which there is at least one, goes to the address whose number is 1.
\<close>

theorem numeric_address_lost:
  assumes "cfg_platform c \<in> {Win32, FreeBSD, Darwin}" "connect_clock_fits c (m_timeout S)"
    and "\<forall>g. os_inet_addr K g (cstr (m_hostname S)) \<noteq> INADDR_NONE" "\<forall>k. os_socket K h k \<noteq> 0"
  shows "\<exists>r S' h' addr n. ncSocket_connect K c tmp S h = Some (r, S', h') \<and> m_ipaddr S' = 1 \<and>
    s_addr addr = 1 \<and> 0 < n \<and> dialled h' = dialled h @ replicate n addr"
proof -
  obtain out S' g where f: "connect_front K c tmp S h = (out, S', g)" by (metis prod_cases3)
  with assms(1,3,4) obtain addr where addr: "out = Some addr" "s_addr addr = 1" "m_ipaddr S' = 1"
    "dialled g = dialled h" "m_timeout S' = m_timeout S"
    by (auto simp: connect_front_def ncGetInetAddr_defs ncSetSocketNonBlocking_defs Let_def)
  obtain r h' where run: "run_loop (connect_body K c (m_sockfd S') addr (m_timeout S')) (0, g) = Some (r, h')"
    using connect_loop [OF assms(2), of K "m_sockfd S'" addr g] addr(5) by auto
  with dialled_loop [OF run] f addr show ?thesis by (auto simp: ncSocket_connect_def)
qed

theorem numeric_address_lost_witness:
  "let c = linux_config\<lparr>cfg_platform := FreeBSD\<rparr>; S = ncSocket_of_host c [49, 50] 80 SOCKTYPE_TCPIP;
       K = third_time_os\<lparr>os_inet_addr := \<lambda>h host. 0x0100007F\<rparr>
   in \<exists>r S' h' addr n. ncSocket_connect K c zero_sockaddr S [] = Some (r, S', h') \<and> m_ipaddr S' = 1 \<and>
    s_addr addr = 1 \<and> 0 < n \<and> dialled h' = dialled [] @ replicate n addr"
  unfolding Let_def
  by (rule numeric_address_lost)
    (simp_all add: connect_clock_fits_def linux_config_def third_time_os_def INADDR_NONE_def)

text \<open>
  \<open>connect\<close> compares the descriptor with 0, so a \<open>socket\<close> call that fails with -1 goes
  unnoticed: the host is resolved and, if it has an address, a connection is attempted on
  descriptor -1.
\<close>

lemma connect_unchecked_socket:
  assumes "connect_clock_fits c (m_timeout S)" and "\<forall>k. os_socket K h k = -1"
    and "os_gethostbyname K = (\<lambda>h host. Some m)"
  shows "\<exists>r S' h' addr res g. ncSocket_connect K c tmp S h = Some (r, S', h') \<and>
    h' = SysConnect (-1) addr res # g"
proof -
  define kind where "kind = (if m_socktype S = SOCKTYPE_TCPIP then SOCK_STREAM else SOCK_DGRAM)"
  have fd: "-1 = os_socket K h kind" using assms(2) by simp
  from connect_resolved [OF assms(1) fd _ kind_def, of tmp] assms(3) show ?thesis
    by (fastforce simp: connect_post_def Let_def)
qed

text \<open>
  Where \<open>unsigned long\<close> has 32 bits, a time out of \<open>setTimeout(-1)\<close> is never exceeded by the
  clock of the connect loop, which wraps round instead: the loop goes on for as long as the
  attempts would block.
\<close>

lemma connect_loop_no_timeout:
  assumes ilp32: "\<not> cfg_lp64 c" and "\<forall>h. os_connect K h fd addr < 0"
    and "\<forall>h. ncIsBlockingError c (os_errno K h)"
  shows "run_loop (connect_body K c fd addr (m_timeout (setTimeout (-1) S))) (0, h) = None"
proof (rule run_loop_diverges [where I = "\<lambda>_. True"])
  fix s :: "64 word \<times> hist"
  obtain t g where s: "s = (t, g)" by force
  have limit: "m_timeout (setTimeout (-1) S) = 0xFFFFFFFF" by (simp add: setTimeout_def)
  have "unat (take_bit 32 (t + 100)) < 2 ^ 32"
    using take_bit_nat_less_exp [of 32 "unat (t + 100)"] by (simp add: unsigned_take_bit_eq)
  then have "\<not> ucast (0xFFFFFFFF :: 32 word) < ulong c (t + 100)"
    using ilp32 unat_ucast_32_64 [of "0xFFFFFFFF"] by (simp add: ulong_def word_less_nat_alt)
  then show "\<exists>s'. connect_body K c fd addr (m_timeout (setTimeout (-1) S)) s = Inl s' \<and> True"
    using assms unfolding limit by (simp add: connect_body_def s Let_def)
qed simp

text \<open>
  The host name given to \<open>connect\<close> is stored cut to 255 characters and always
  terminated, with port and type; without a host or with port 0 the call fails at once, leaves
  the object alone and makes no call.
\<close>

lemma connect_to_arguments:
  assumes "0 \<notin> set name" "port \<noteq> 0"
  shows "(\<exists>H. ncSocket_connect_to K c tmp (Some name) port sockType S h =
      ncSocket_connect K c tmp (S\<lparr>m_port := port, m_socktype := sockType, m_hostname := H\<rparr>) h \<and>
      length H = MAX_HOSTNAME_LEN \<and> H ! (MAX_HOSTNAME_LEN - 1) = 0 \<and> cstr H = take 255 name) \<and>
    ncSocket_connect_to K c tmp None port sockType S h = Some (NC_FAILED, S, h) \<and>
    ncSocket_connect_to K c tmp (Some name) 0 sockType S h = Some (NC_FAILED, S, h)"
  using assms copy_hostname_terminated [of name] cstr_copy_hostname [of name]
  by (auto simp: ncSocket_connect_to_def intro!: exI [of _ "copy_hostname name"])

text \<open>
  The address taken from the resolver. The code reads an \<open>unsigned long\<close> where four bytes
  of address are; on little-endian machines and where the type has 32 bits the result is those
  four bytes, on a big-endian machine with 64-bit longs it is the four bytes behind them.
\<close>

lemma resolved_address:
  "first_address c m =
     (if cfg_big_endian c \<and> cfg_lp64 c then ucast (load_word c (map m [4..<8]))
      else ucast (load_word c (map m [0..<4])))"
proof -
  have le: "map m [0..<8] = map m [0..<4] @ map m [4..<8]"
    using upt_add_eq_append [of 0 4 4] by (metis (mono_tags) add_numeral_special(1) map_append
        add.left_neutral numeral_Bit0 le0)
  have pow: "256 ^ length (map m [0..<4]) = (4294967296 :: 64 word)"
    "256 ^ length (rev (map m [4..<8])) = (4294967296 :: 64 word)" by simp_all
  have 1: "(ucast (word_of_le (map m [0..<8])) :: 32 word) = ucast (word_of_le (map m [0..<4]))"
    unfolding le word_of_le_append pow by (rule ucast_low_32)
  have 2: "(ucast (word_of_le (rev (map m [0..<8]))) :: 32 word) =
      ucast (word_of_le (rev (map m [4..<8])))"
    unfolding le rev_append word_of_le_append pow by (rule ucast_low_32)
  show ?thesis
    using 1 2 by (simp add: first_address_def load_word_def)
qed

end
