(* ===== verification/Nc_Sock_Calls.thy ===== *)
theory Nc_Sock_Calls
  imports Nc_Sock_IO Nc_Sock_Connect
begin

text \<open>
  Which system calls the methods of an \<^verbatim>\<open>ncSocket\<close> make: \<open>talks fd h h'\<close> says that between two
  histories only calls were made that work on the descriptor \<open>fd\<close> and neither open nor close one,
  or that concern no descriptor at all. The transfer loops of both versions and the connect loop
  keep to the descriptor of their object.
\<close>

fun on_fd :: "fd \<Rightarrow> call \<Rightarrow> bool" where
  "on_fd fd (SysConnect f a r) = (f = fd)"
| "on_fd fd (SysFcntlGetfd f w) = (f = fd)"
| "on_fd fd (SysFcntlSetfl f w) = (f = fd)"
| "on_fd fd (SysIoctlNonblock f) = (f = fd)"
| "on_fd fd (SysPoll f ev t r rv) = (f = fd)"
| "on_fd fd (SysSelect d fs s us r rdy) = (fs = [fd])"
| "on_fd fd (SysSend f bs fl r) = (f = fd)"
| "on_fd fd (SysSendto f bs a r) = (f = fd)"
| "on_fd fd (SysRecv f n fl r bs) = (f = fd)"
| "on_fd fd (SysRecvfrom f n r bs a) = (f = fd)"
| "on_fd fd (SysShutdown f how) = (f = fd)"
| "on_fd fd (SysSleep n) = True"
| "on_fd fd (SysInetPton s r a) = True"
| "on_fd fd (SysInetAddr s a) = True"
| "on_fd fd (SysGethostbyname s b) = True"
| "on_fd fd e = False"

definition talks :: "fd \<Rightarrow> hist \<Rightarrow> hist \<Rightarrow> bool" where
  "talks fd h h' \<longleftrightarrow> (\<exists>new. h' = new @ h \<and> list_all (on_fd fd) new)"

lemma talks_refl [simp, intro]: "talks fd h h"
  by (auto simp: talks_def)

lemma talks_call [simp, intro]: "on_fd fd e \<Longrightarrow> talks fd h g \<Longrightarrow> talks fd h (e # g)"
  by (auto simp: talks_def intro: exI [of _ "e # _"])

lemma talks_trans: "talks fd h g \<Longrightarrow> talks fd g k \<Longrightarrow> talks fd h k"
  by (auto simp: talks_def)

lemma talks_after: "talks fd (e # h) h' \<Longrightarrow> on_fd fd e \<Longrightarrow> talks fd h h'"
  by (rule talks_trans [of _ _ "e # h"]) auto

lemma talks_induct [consumes 1, case_names refl call]:
  assumes "talks fd h h'" "P h"
    and "\<And>e g. talks fd h g \<Longrightarrow> P g \<Longrightarrow> on_fd fd e \<Longrightarrow> P (e # g)"
  shows "P h'"
proof -
  obtain new where "h' = new @ h" "list_all (on_fd fd) new" using assms(1) by (auto simp: talks_def)
  moreover have "list_all (on_fd fd) new \<Longrightarrow> talks fd h (new @ h) \<and> P (new @ h)" for new
    using assms(2,3) by (induction new) auto
  ultimately show ?thesis by blast
qed

lemma talks_transmit: "transmit e S d h = (n, h') \<Longrightarrow> talks (m_sockfd S) h h'"
  by (auto simp: transmit_def nc_os Let_def split: if_splits)

lemma talks_receive: "receive e S n h = (r, bs, S', h') \<Longrightarrow> talks (m_sockfd S) h h'"
  by (auto simp: receive_def nc_os Let_def split: if_splits prod.splits)

lemmas talks_after_transmit = talks_transmit [THEN talks_after]

lemma talks_after_receive:
  assumes "receive e S n (q # h) = (r, bs, S', h')" "on_fd (m_sockfd S) q"
  shows "(\<exists>a. S' = S\<lparr>m_to := a\<rparr>) \<and> talks (m_sockfd S) h h'"
  using receive_sock [OF assms(1)] talks_after [OF talks_receive [OF assms(1)] assms(2)] by blast

section \<open>The transfer loops\<close>

locale talking_loop = clocked_loop +
  assumes talks_again: "body e s = Inl s' \<Longrightarrow> talks (m_sockfd (x_sock s)) (x_hist s) (x_hist s')"
    and talks_last: "body e s = Inr (r, s') \<Longrightarrow> talks (m_sockfd (x_sock s)) (x_hist s) (x_hist s')"
begin

text \<open>A finished call has talked to its own descriptor only.\<close>

lemma run_talks:
  assumes run: "run_loop (body e) s = Some (r, s')"
  shows "talks (m_sockfd (x_sock s)) (x_hist s) (x_hist s')"
proof -
  let ?P = "\<lambda>u. m_sockfd (x_sock u) = m_sockfd (x_sock s) \<and> talks (m_sockfd (x_sock s)) (x_hist s) (x_hist u)"
  have "?P (snd (r, s'))"
  proof (rule run_loop_inv [OF run, where I = ?P and Q = "\<lambda>q. ?P (snd q)"])
    show "?P u'" if "?P u" "body e u = Inl u'" for u u'
      using that(1) talks_again [OF that(2)] frame_fields(3) [OF keeps [OF that(2)]] talks_trans by auto
    show "?P (snd q)" if "?P u" "body e u = Inr q" for u q
      using that talks_last [of e u "fst q" "snd q"] frame_fields(3) [OF keeps_last, of e u "fst q" "snd q"]
        talks_trans by auto
  qed simp
  then show ?thesis by simp
qed

end

interpretation wpoll_talk: talking_loop writeData_poll_body poll_clock_ok
proof
  show "talks (m_sockfd (x_sock s)) (x_hist s) (x_hist s')" if "writeData_poll_body e s = Inl s'" for e s s'
    using that
    by (auto simp: writeData_poll_body_def Let_def nc_os wait_for_def split: if_splits prod.splits
        dest!: talks_after_transmit)
  show "talks (m_sockfd (x_sock s)) (x_hist s) (x_hist s')" if "writeData_poll_body e s = Inr (r, s')" for e s r s'
    using that
    by (auto simp: writeData_poll_body_def Let_def nc_os wait_for_def split: if_splits prod.splits)
qed

interpretation rpoll_talk: talking_loop readData_poll_body poll_clock_ok
proof
  show "talks (m_sockfd (x_sock s)) (x_hist s) (x_hist s')" if "readData_poll_body e s = Inl s'" for e s s'
    using that
    by (auto simp: readData_poll_body_def Let_def nc_os wait_for_def split: if_splits prod.splits
        dest!: talks_after_receive)
  show "talks (m_sockfd (x_sock s)) (x_hist s) (x_hist s')" if "readData_poll_body e s = Inr (r, s')" for e s r s'
    using that
    by (auto simp: readData_poll_body_def Let_def nc_os wait_for_def split: if_splits prod.splits)
qed

interpretation wselect_talk: talking_loop writeData_select_body "\<lambda>_. True"
proof
  show "talks (m_sockfd (x_sock s)) (x_hist s) (x_hist s')" if "writeData_select_body e s = Inl s'" for e s s'
    using that
    by (auto simp: writeData_select_body_def Let_def nc_os wait_for_def split: if_splits prod.splits
        dest!: talks_after_transmit)
  show "talks (m_sockfd (x_sock s)) (x_hist s) (x_hist s')" if "writeData_select_body e s = Inr (r, s')" for e s r s'
    using that
    by (auto simp: writeData_select_body_def Let_def nc_os wait_for_def split: if_splits prod.splits)
qed

interpretation rselect_talk: talking_loop readData_select_body "\<lambda>_. True"
proof
  show "talks (m_sockfd (x_sock s)) (x_hist s) (x_hist s')" if "readData_select_body e s = Inl s'" for e s s'
    using that
    by (auto simp: readData_select_body_def Let_def nc_os wait_for_def split: if_splits prod.splits
        dest!: talks_after_receive)
  show "talks (m_sockfd (x_sock s)) (x_hist s) (x_hist s')" if "readData_select_body e s = Inr (r, s')" for e s r s'
    using that
    by (auto simp: readData_select_body_def Let_def nc_os wait_for_def split: if_splits prod.splits)
qed

section \<open>connect\<close>

lemma talks_resolve:
  assumes "ncGetInetAddr K c host old h = (v, a, h')"
  shows "talks fd h h'"
  using assms by (auto simp: ncGetInetAddr_defs Let_def split: if_splits prod.splits)

lemma talks_nonblocking: "talks fd h (ncSetSocketNonBlocking K c fd h)"
  by (auto simp: ncSetSocketNonBlocking_defs Let_def)

lemma talks_connect_body:
  "connect_body K c fd addr limit (t, h) = Inl (t', h') \<Longrightarrow> talks fd h h'"
  "connect_body K c fd addr limit (t, h) = Inr (r, h') \<Longrightarrow> talks fd h h'"
  by (auto simp: connect_body_def Let_def split: if_splits)

text \<open>What \<open>connect\<close> does before its loop: one new socket, and calls on it.\<close>

lemma connect_front_talks:
  assumes "connect_front K c tmp S h = (out, S', h')"
  shows "\<exists>kind. let fd = os_socket K h kind
     in m_sockfd S' = fd \<and> talks fd (SysSocket kind fd # h) h' \<and> m_stdiofd S' = m_stdiofd S \<and>
        m_timeout S' = m_timeout S \<and> m_polltime S' = m_polltime S"
proof -
  define kind where "kind = (if m_socktype S = SOCKTYPE_TCPIP then SOCK_STREAM else SOCK_DGRAM)"
  define fd where "fd = os_socket K h kind"
  define a0 where "a0 = (clear_servaddr c (if m_socktype S = SOCKTYPE_TCPIP then tmp else m_to S))
    \<lparr>sin_family := AF_INET, sin_port := htons c (m_port S)\<rparr>"
  obtain v a g where v: "ncGetInetAddr K c (cstr (m_hostname S)) (s_addr a0) (SysSocket kind fd # h) = (v, a, g)"
    by (metis prod_cases3)
  from talks_resolve [OF v] have g: "talks fd (SysSocket kind fd # h) g" .
  have fd: "m_socktype S = SOCKTYPE_TCPIP \<Longrightarrow> os_socket K h SOCK_STREAM = fd"
    "m_socktype S \<noteq> SOCKTYPE_TCPIP \<Longrightarrow> os_socket K h SOCK_DGRAM = fd"
    by (simp_all add: fd_def kind_def)
  have "m_sockfd S' = fd \<and> talks fd (SysSocket kind fd # h) h' \<and> m_stdiofd S' = m_stdiofd S \<and>
      m_timeout S' = m_timeout S \<and> m_polltime S' = m_polltime S"
    using assms v g talks_trans [OF talks_call [OF _ g] talks_nonblocking] talks_trans [OF g talks_nonblocking]
    by (auto simp: connect_front_def Let_def fd a0_def kind_def [symmetric] fd_def [symmetric] split: option.splits if_splits)
  then show ?thesis unfolding Let_def fd_def by blast
qed

end
