(* ===== verification/Nc_Descriptors.thy ===== *)
theory Nc_Descriptors
  imports Nc_Sock_Calls "HOL-Library.Multiset"
begin

text \<open>
  The descriptor table of the process, as a history shows it: \<open>open_fds\<close> are the descriptors that
  are open, \<open>births\<close> those the kernel gave out, with \<open>socket\<close> and \<open>accept\<close>. A process starts with
  its three standard descriptors. \<open>fresh_doc\<close> states what the manual pages say of the two calls:
  they fail with -1, or they return a descriptor that is not open. \<open>orderly\<close> histories use
  descriptors only while they are open.

  \<open>deed\<close> is the abstract specification of the owner of one descriptor, whatever the code does in
  detail: it talks on its descriptor, it gets a new one when it holds none, it closes the one it
  holds.
\<close>

section \<open>The table\<close>

primrec open_fds :: "hist \<Rightarrow> fd set" where
  "open_fds [] = {0, 1, 2}"
| "open_fds (e # h) =
     (case e of SysSocket k fd \<Rightarrow> if fd = -1 then open_fds h else insert fd (open_fds h)
              | SysAccept s fd a \<Rightarrow> if fd = -1 then open_fds h else insert fd (open_fds h)
              | SysClose fd \<Rightarrow> open_fds h - {fd}
              | SysFclose f \<Rightarrow> (case file_fd h f of Some fd \<Rightarrow> open_fds h - {fd} | None \<Rightarrow> open_fds h)
              | _ \<Rightarrow> open_fds h)"

primrec births :: "hist \<Rightarrow> fd list" where
  "births [] = []"
| "births (e # h) =
     (case e of SysSocket k fd \<Rightarrow> births h @ (if fd = -1 then [] else [fd])
              | SysAccept s fd a \<Rightarrow> births h @ (if fd = -1 then [] else [fd])
              | _ \<Rightarrow> births h)"

definition fresh_doc :: "os \<Rightarrow> bool" where
  "fresh_doc K \<longleftrightarrow>
     (\<forall>h k. os_socket K h k = -1 \<or> 0 \<le> os_socket K h k \<and> os_socket K h k \<notin> open_fds h) \<and>
     (\<forall>h s. fst (os_accept K h s) = -1 \<or>
        0 \<le> fst (os_accept K h s) \<and> fst (os_accept K h s) \<notin> open_fds h)"

text \<open>The descriptors a call works on.\<close>

fun call_fds :: "call \<Rightarrow> fd list" where
  "call_fds (SysConnect f a r) = [f]"
| "call_fds (SysFcntlGetfd f w) = [f]"
| "call_fds (SysFcntlSetfl f w) = [f]"
| "call_fds (SysIoctlNonblock f) = [f]"
| "call_fds (SysPoll f ev t r rv) = [f]"
| "call_fds (SysSelect d fs s us r rdy) = fs"
| "call_fds (SysSend f bs fl r) = [f]"
| "call_fds (SysSendto f bs a r) = [f]"
| "call_fds (SysRecv f n fl r bs) = [f]"
| "call_fds (SysRecvfrom f n r bs a) = [f]"
| "call_fds (SysShutdown f how) = [f]"
| "call_fds (SysClose f) = [f]"
| "call_fds (SysFdopen f r) = [f]"
| "call_fds (SysSetsockopt f r) = [f]"
| "call_fds (SysBind f a r) = [f]"
| "call_fds (SysListen f n r) = [f]"
| "call_fds (SysAccept f fd a) = [f]"
| "call_fds e = []"

text \<open>
  Every descriptor a call was given was open at the time. Only -1, the descriptor of an object
  that holds none, may be passed to a call, and not to \<open>close\<close>, except on Windows: there the
  destructor of an object without a descriptor calls \<^verbatim>\<open>closesocket(INVALID_SOCKET)\<close>, which fails.
\<close>

primrec orderly :: "config \<Rightarrow> hist \<Rightarrow> bool" where
  "orderly c [] = True"
| "orderly c (e # h) = (orderly c h \<and>
     (\<forall>fd \<in> set (call_fds e). fd \<in> open_fds h \<or> fd = -1 \<and> (e \<noteq> SysClose fd \<or> cfg_platform c = Win32)))"

lemma no_descriptor_open [simp]: "-1 \<notin> open_fds h"
  by (induction h) (auto split: call.splits option.splits)

lemma talks_table:
  assumes "talks fd h h'"
  shows "open_fds h' = open_fds h" "births h' = births h" "closes h' = closes h"
    "orderly c h \<Longrightarrow> fd \<in> open_fds h \<or> fd = -1 \<Longrightarrow> orderly c h'"
proof -
  have "open_fds h' = open_fds h \<and> births h' = births h \<and> closes h' = closes h \<and>
    (orderly c h \<longrightarrow> fd \<in> open_fds h \<or> fd = -1 \<longrightarrow> orderly c h')"
    using assms
  proof (induction rule: talks_induct)
    case (call e g) then show ?case by (cases e) auto
  qed simp
  then show "open_fds h' = open_fds h" "births h' = births h" "closes h' = closes h"
    "orderly c h \<Longrightarrow> fd \<in> open_fds h \<or> fd = -1 \<Longrightarrow> orderly c h'" by auto
qed

section \<open>The owner of a descriptor\<close>

inductive deed :: "os \<Rightarrow> config \<Rightarrow> fd \<times> hist \<Rightarrow> fd \<times> hist \<Rightarrow> bool" for K c where
  Talk: "talks fd h h' \<Longrightarrow> deed K c (fd, h) (fd, h')"
| Open: "fd \<le> 0 \<Longrightarrow> fd' = os_socket K h kind \<Longrightarrow> talks fd' (SysSocket kind fd' # h) h' \<Longrightarrow>
     deed K c (fd, h) (fd', h')"
| Close: "0 < fd \<Longrightarrow> deed K c (fd, h) (-1, SysClose fd # h)"
| Close_None: "cfg_platform c = Win32 \<Longrightarrow> deed K c (-1, h) (-1, SysClose (-1) # h)"

lemma deed_refl [simp, intro]: "deed K c (fd, h) (fd, h)"
  by (rule deed.Talk) simp

lemma deed_cases:
  assumes "deed K c (fd, h) (fd', h')"
  obtains (talk) "fd' = fd" "talks fd h h'"
  | (new) kind where "fd \<le> 0" "fd' = os_socket K h kind" "talks fd' (SysSocket kind fd' # h) h'"
  | (close) "0 < fd" "fd' = -1" "h' = SysClose fd # h"
  | (close_none) "cfg_platform c = Win32" "fd = -1" "fd' = -1" "h' = SysClose (-1) # h"
  using assms by (auto elim: deed.cases)

text \<open>The descriptor that is held, if any.\<close>

definition held :: "fd \<Rightarrow> fd list" where
  "held fd = (if 0 < fd then [fd] else [])"

text \<open>
  What a deed leaves true: the calls are orderly if the owner's descriptor is open, the books of
  descriptors balance, and nobody else's descriptor is closed or handed out again.
\<close>

lemma deed_keeps:
  assumes d: "deed K c (fd, h) (fd', h')" and K: "fresh_doc K"
    and zero: "0 \<in> open_fds h" and own: "set (held fd) \<subseteq> open_fds h" and fd: "fd \<noteq> 0 \<Longrightarrow> -1 \<le> fd"
  shows "fd' = fd \<or> fd' = -1 \<or> 0 < fd'"
    and "orderly c h \<Longrightarrow> orderly c h'"
    and "set (held fd') \<subseteq> open_fds h'"
    and "open_fds h - set (held fd) \<subseteq> open_fds h'"
    and "set (held fd') - set (held fd) \<subseteq> - open_fds h"
    and "mset (closes h') + mset (held fd') + mset (births h) =
      mset (closes h) + mset (held fd) + mset (births h')"
proof -
  have "(fd' = fd \<or> fd' = -1 \<or> 0 < fd') \<and> (orderly c h \<longrightarrow> orderly c h') \<and> set (held fd') \<subseteq> open_fds h' \<and>
    open_fds h - set (held fd) \<subseteq> open_fds h' \<and> set (held fd') - set (held fd) \<subseteq> - open_fds h \<and>
    mset (closes h') + mset (held fd') + mset (births h) =
      mset (closes h) + mset (held fd) + mset (births h')"
    using d
  proof (cases rule: deed_cases)
    case talk
    have "fd \<in> open_fds h \<or> fd = -1"
      using zero own fd by (cases "0 < fd"; cases "fd = 0") (auto simp: held_def)
    with talk talks_table [OF talk(2)] own show ?thesis by auto
  next
    case (new kind)
    have "fd' = -1 \<or> 0 \<le> fd' \<and> fd' \<notin> open_fds h" using K new by (simp add: fresh_doc_def)
    then have "fd' = -1 \<or> 0 < fd' \<and> fd' \<notin> open_fds h" using zero by (cases "fd' = 0") auto
    with new talks_table [OF new(3)] show ?thesis by (auto simp: held_def)
  next
    case close
    with close own show ?thesis by (auto simp: held_def)
  next
    case close_none
    then show ?thesis by (auto simp: held_def)
  qed
  then show "fd' = fd \<or> fd' = -1 \<or> 0 < fd'" "orderly c h \<Longrightarrow> orderly c h'"
    "set (held fd') \<subseteq> open_fds h'" "open_fds h - set (held fd) \<subseteq> open_fds h'"
    "set (held fd') - set (held fd) \<subseteq> - open_fds h"
    "mset (closes h') + mset (held fd') + mset (births h) =
      mset (closes h) + mset (held fd) + mset (births h')" by simp_all
qed

section \<open>A concrete kernel\<close>

text \<open>It gives out the lowest descriptor that is not open, as Unix systems do.\<close>

primrec top_fd :: "hist \<Rightarrow> int" where
  "top_fd [] = 2"
| "top_fd (e # h) =
     (case e of SysSocket k fd \<Rightarrow> max fd (top_fd h) | SysAccept s fd a \<Rightarrow> max fd (top_fd h) | _ \<Rightarrow> top_fd h)"

definition lowest_fd :: "hist \<Rightarrow> fd" where
  "lowest_fd h =
     (case find (\<lambda>n. int n \<notin> open_fds h) [0..<nat (top_fd h + 2)] of Some n \<Rightarrow> int n | None \<Rightarrow> -1)"

lemma top_fd_start: "2 \<le> top_fd h"
  by (induction h) (auto simp: le_max_iff_disj split: call.split)

lemma top_fd: "fd \<in> open_fds h \<Longrightarrow> fd \<le> top_fd h"
proof (induction h)
  case (Cons e h)
  then show ?case
    by (cases e) (auto simp: le_max_iff_disj split: if_splits option.splits)
qed auto

lemma lowest_fd: "0 \<le> lowest_fd h \<and> lowest_fd h \<notin> open_fds h"
proof -
  have "top_fd h + 1 \<notin> open_fds h" using top_fd [of "top_fd h + 1" h] by auto
  then have "int (nat (top_fd h + 1)) \<notin> open_fds h" using top_fd_start [of h] by simp
  moreover have "nat (top_fd h + 1) \<in> set [0..<nat (top_fd h + 2)]" using top_fd_start [of h] by simp
  ultimately have "find (\<lambda>n. int n \<notin> open_fds h) [0..<nat (top_fd h + 2)] \<noteq> None"
    unfolding find_None_iff by blast
  then obtain n where n: "find (\<lambda>n. int n \<notin> open_fds h) [0..<nat (top_fd h + 2)] = Some n" by blast
  then have "int n \<notin> open_fds h" by (auto simp: find_Some_iff)
  with n show ?thesis by (simp add: lowest_fd_def)
qed

text \<open>Every \<open>connect\<close> to an address in dotted form succeeds on it.\<close>

definition lowest_os :: os where
  "lowest_os = ready_os
     \<lparr>os_socket := \<lambda>h k. lowest_fd h, os_accept := \<lambda>h fd. (-1, zero_sockaddr),
      os_inet_pton := \<lambda>h host. (1, 0x0100007F), os_connect := \<lambda>h fd a. 0\<rparr>"

lemma lowest_os_fresh: "fresh_doc lowest_os"
  using lowest_fd by (simp add: fresh_doc_def lowest_os_def)

end
