(* ===== verification/Nc_Sock_Life.thy ===== *)
theory Nc_Sock_Life
  imports Nc_Sock_IO Nc_Sock_Connect
begin

text \<open>
  The life of an \<^verbatim>\<open>ncSocket\<close> object: a constructor, any sequence of public methods, the
  destructor. The question is what becomes of the descriptor. \<open>method_step\<close> runs one method,
  \<open>run_methods\<close> a sequence of them; \<open>None\<close> is a method that does not return.
\<close>

datatype sock_method =
    MClose | MFlush | MConnect sockaddr_in | MConnectTo sockaddr_in "cstring option" "16 word" int
  | MSetTimeout int | MSetPollTime int | MSetIpAddr "64 word"
  | MWrite int mem bool | MRead int mem bool

fun method_step :: "os \<Rightarrow> config \<Rightarrow> sock_method \<Rightarrow> ncSocket \<times> hist \<Rightarrow> (ncSocket \<times> hist) option" where
  "method_step K c MClose (S, h) = Some (ncSocket_close S h)"
| "method_step K c MFlush (S, h) = (let (r, S, h) = ncSocket_flush K S h in Some (S, h))"
| "method_step K c (MConnect tmp) (S, h) =
     map_option (\<lambda>(r, S, h). (S, h)) (ncSocket_connect K c tmp S h)"
| "method_step K c (MConnectTo tmp host port ty) (S, h) =
     map_option (\<lambda>(r, S, h). (S, h)) (ncSocket_connect_to K c tmp host port ty S h)"
| "method_step K c (MSetTimeout n) (S, h) = Some (setTimeout n S, h)"
| "method_step K c (MSetPollTime n) (S, h) = Some (setPollTime n S, h)"
| "method_step K c (MSetIpAddr a) (S, h) = Some (setIpAddr a S, h)"
| "method_step K c (MWrite n buf want) (S, h) =
     map_option (\<lambda>(r, x). (x_sock x, x_hist x))
       (writeData \<lparr>e_os = K, e_cfg = c, e_len = n\<rparr> S buf want h)"
| "method_step K c (MRead n buf want) (S, h) =
     map_option (\<lambda>(r, x). (x_sock x, x_hist x))
       (readData \<lparr>e_os = K, e_cfg = c, e_len = n\<rparr> S buf want h)"

fun run_methods ::
    "os \<Rightarrow> config \<Rightarrow> sock_method list \<Rightarrow> ncSocket \<times> hist \<Rightarrow> (ncSocket \<times> hist) option" where
  "run_methods K c [] s = Some s"
| "run_methods K c (m # ms) s = Option.bind (method_step K c m s) (run_methods K c ms)"

text \<open>The methods that neither open a descriptor nor put a stream on top of it.\<close>

fun plain_method :: "sock_method \<Rightarrow> bool" where
  "plain_method MFlush = False"
| "plain_method (MConnect a) = False"
| "plain_method (MConnectTo a b c d) = False"
| "plain_method m = True"

text \<open>
  The descriptor \<open>fd\<close> is held and not closed since \<open>h0\<close>, or no longer held and closed once.
\<close>

definition fd_once :: "fd \<Rightarrow> hist \<Rightarrow> ncSocket \<times> hist \<Rightarrow> bool" where
  "fd_once fd h0 s \<longleftrightarrow> m_stdiofd (fst s) = None \<and>
     (m_sockfd (fst s) = fd \<and> closes (snd s) = closes h0 \<or>
      m_sockfd (fst s) = -1 \<and> closes (snd s) = closes h0 @ [fd])"

definition same_fd :: "ncSocket \<Rightarrow> hist \<Rightarrow> xfer \<Rightarrow> bool" where
  "same_fd S h x \<longleftrightarrow> m_sockfd (x_sock x) = m_sockfd S \<and> m_stdiofd (x_sock x) = m_stdiofd S \<and>
     closes (x_hist x) = closes h"

lemma transfer_same_fd:
  "writeData e S buf want h = Some (r, x) \<Longrightarrow> same_fd S h x"
  "readData e S buf want h = Some (r, x) \<Longrightarrow> same_fd S h x"
  using wpoll_clock.run_frame [of e "xfer_init e S buf want h" r x]
    rpoll_clock.run_frame [of e "xfer_init e S buf want h" r x]
    wselect_clock.run_frame [of e "xfer_init e S buf want h" r x]
    rselect_clock.run_frame [of e "xfer_init e S buf want h" r x]
    frame_fields(3,5) [of "xfer_init e S buf want h" x]
  by (auto simp: io_defs xfer_init_def same_fd_def split: if_splits)

lemma method_step_once:
  assumes "plain_method m" "fd_once fd h0 s" "method_step K c m s = Some s'"
  shows "fd_once fd h0 s'"
  using assms
  by (cases m; cases s)
    (auto simp: fd_once_def same_fd_def nc_defs dest!: transfer_same_fd split: if_splits)

lemma run_methods_once:
  "list_all plain_method ms \<Longrightarrow> fd_once fd h0 s \<Longrightarrow> run_methods K c ms s = Some s' \<Longrightarrow> fd_once fd h0 s'"
proof (induction ms arbitrary: s)
  case (Cons m ms)
  then obtain t where "method_step K c m s = Some t" "run_methods K c ms t = Some s'"
    by (auto simp: bind_eq_Some_conv)
  with Cons method_step_once [of m fd h0 s K c t] show ?case by simp
qed simp

section \<open>Properties\<close>

text \<open>
  An object made for an open descriptor, used through any sequence of writes, reads,
  closes and setters and then destroyed, closes that descriptor exactly once and no other,
  however often \<open>close\<close> was called in between.
\<close>

lemma descriptor_closed_once:
  assumes "0 < fd" "list_all plain_method ms"
    and "run_methods K c ms (ncSocket_of_fd c fd, h) = Some (S, h')"
  shows "closes (snd (ncSocket_destroy c S h')) = closes h @ [fd]"
proof -
  have "fd_once fd h (ncSocket_of_fd c fd, h)" by (simp add: fd_once_def ncSocket_of_fd_def)
  from run_methods_once [OF assms(2) this assms(3)] assms(1) show ?thesis
    by (auto simp: fd_once_def ncSocket_destroy_def)
qed

text \<open>
  After a successful \<open>flush\<close> the object holds a stream on top of the descriptor, which
  \<open>close\<close> does not know of: \<open>flush\<close>, \<open>close\<close> and destruction close the descriptor twice.
\<close>

lemma flush_closes_twice:
  assumes "m_stdiofd S = None" "m_sockfd S \<noteq> -1" "os_fdopen K h (m_sockfd S) = Some f"
    and "run_methods K c [MFlush, MClose] (S, h) = Some (S', h')"
  shows "closes (snd (ncSocket_destroy c S' h')) = closes h @ [m_sockfd S, m_sockfd S]"
  using assms by (auto simp: nc_defs Let_def)

text \<open>
  C39: \<open>connect\<close> replaces the descriptor of the object by a new one without closing anything: a
  second \<open>connect\<close> leaves the first connection's descriptor open and forgotten.
\<close>

lemma connect_closes_nothing:
  assumes "ncSocket_connect K c tmp S h = Some (r, S', h')"
  shows "closes h' = closes h \<and> m_stdiofd S' = m_stdiofd S \<and>
    (\<exists>kind. m_sockfd S' = os_socket K h kind)"
proof -
  have res: "closes g = closes g0" if "ncGetInetAddr K c host old g0 = (v, a, g)" for host old g0 v a g
    using that by (auto simp: ncGetInetAddr_defs Let_def split: if_splits prod.splits)
  have nb: "closes (ncSetSocketNonBlocking K c fd g) = closes g" for fd g
    by (simp add: ncSetSocketNonBlocking_defs Let_def)
  have loop: "closes (snd q) = closes g"
    if "run_loop (connect_body K c fd addr limit) (t, g) = Some q" for fd addr limit t g q
    by (rule run_loop_inv [OF that, where I = "\<lambda>(t, u). closes u = closes g"])
      (auto simp: connect_body_def Let_def split: if_splits)
  show ?thesis
    using assms
    by (auto simp: ncSocket_connect_defs Let_def nb split: if_splits option.splits prod.splits
        dest!: res loop)
qed

text \<open>
  An object made for a host holds descriptor 0 until it is connected. Its destructor leaves
  that descriptor alone, but \<open>close\<close> closes it: the process's standard input.
\<close>

lemma unconnected_close:
  "closes (snd (ncSocket_destroy c (ncSocket_of_host c host port ty) h)) = closes h \<and>
   closes (snd (ncSocket_close (ncSocket_of_host c host port ty) h)) = closes h @ [0] \<and>
   ncSocket_close (ncSocket_default c) h = (ncSocket_default c, h) \<and>
   closes (snd (ncSocket_destroy c (ncSocket_default c) h)) = closes h"
  by (simp add: nc_defs)

end
