(* ===== verification/Nc_Client.thy ===== *)
theory Nc_Client
  imports Nc_Descriptors Nc_Sock_Life
begin

text \<open>
  A thread that uses one \<^verbatim>\<open>ncSocket\<close>: it calls a list of methods and then deletes the object. The
  thread runs in steps between which other threads of the process may run: a transfer or a
  \<open>connect\<close> is one step per trip round its loop, every other method is one step. The history
  belongs to all threads; a thread that goes on with a loop continues from the history as it is
  then.
\<close>

section \<open>Steps\<close>

definition write_body :: xbody where
  "write_body e = (if uses_select (e_cfg e) then writeData_select_body e else writeData_poll_body e)"

definition read_body :: xbody where
  "read_body e = (if uses_select (e_cfg e) then readData_select_body e else readData_poll_body e)"

lemma transfer_bodies:
  "writeData e S buf want h = run_loop (write_body e) (xfer_init e S buf want h)"
  "readData e S buf want h = run_loop (read_body e) (xfer_init e S buf want h)"
  by (simp_all add: io_defs write_body_def read_body_def)

text \<open>What a thread is in the middle of; \<open>Dialling\<close> is the loop of \<open>connect\<close>.\<close>

datatype activity =
  Idle | Writing xenv xfer | Reading xenv xfer | Dialling sockaddr_in "64 word" | Gone

record client =
  cl_sock :: ncSocket
  cl_work :: "sock_method list"
  cl_now :: activity

definition dial :: "os \<Rightarrow> config \<Rightarrow> sockaddr_in \<Rightarrow> ncSocket \<Rightarrow> hist \<Rightarrow> activity \<times> ncSocket \<times> hist" where
  "dial K c tmp S h =
     (case connect_front K c tmp S h of
        (None, S, h) \<Rightarrow> (Idle, S, h)
      | (Some addr, S, h) \<Rightarrow> (Dialling addr 0, S, h))"

fun start_method ::
    "os \<Rightarrow> config \<Rightarrow> sock_method \<Rightarrow> ncSocket \<Rightarrow> hist \<Rightarrow> activity \<times> ncSocket \<times> hist" where
  "start_method K c MClose S h = (Idle, ncSocket_close S h)"
| "start_method K c MFlush S h = (let (r, S, h) = ncSocket_flush K S h in (Idle, S, h))"
| "start_method K c (MConnect tmp) S h = dial K c tmp S h"
| "start_method K c (MConnectTo tmp host port ty) S h =
     (case host of
        Some name \<Rightarrow>
          if port \<noteq> 0
          then dial K c tmp (S\<lparr>m_port := port, m_socktype := ty, m_hostname := copy_hostname name\<rparr>) h
          else (Idle, S, h)
      | None \<Rightarrow> (Idle, S, h))"
| "start_method K c (MSetTimeout n) S h = (Idle, setTimeout n S, h)"
| "start_method K c (MSetPollTime n) S h = (Idle, setPollTime n S, h)"
| "start_method K c (MSetIpAddr a) S h = (Idle, setIpAddr a S, h)"
| "start_method K c (MWrite n buf want) S h =
     (let e = \<lparr>e_os = K, e_cfg = c, e_len = n\<rparr> in (Writing e (xfer_init e S buf want h), S, h))"
| "start_method K c (MRead n buf want) S h =
     (let e = \<lparr>e_os = K, e_cfg = c, e_len = n\<rparr> in (Reading e (xfer_init e S buf want h), S, h))"

fun go_on :: "os \<Rightarrow> config \<Rightarrow> activity \<Rightarrow> ncSocket \<Rightarrow> hist \<Rightarrow> activity \<times> ncSocket \<times> hist" where
  "go_on K c (Writing e x) S h =
     (case write_body e (x\<lparr>x_hist := h\<rparr>) of
        Inl x \<Rightarrow> (Writing e x, x_sock x, x_hist x)
      | Inr (r, x) \<Rightarrow> (Idle, x_sock x, x_hist x))"
| "go_on K c (Reading e x) S h =
     (case read_body e (x\<lparr>x_hist := h\<rparr>) of
        Inl x \<Rightarrow> (Reading e x, x_sock x, x_hist x)
      | Inr (r, x) \<Rightarrow> (Idle, x_sock x, x_hist x))"
| "go_on K c (Dialling addr t) S h =
     (case connect_body K c (m_sockfd S) addr (m_timeout S) (t, h) of
        Inl (t, h) \<Rightarrow> (Dialling addr t, S, h)
      | Inr (r, h) \<Rightarrow> (Idle, S, h))"
| "go_on K c a S h = (a, S, h)"

text \<open>One step of the thread; a thread that is \<open>Gone\<close> makes none.\<close>

definition client_step :: "os \<Rightarrow> config \<Rightarrow> client \<times> hist \<Rightarrow> client \<times> hist" where
  "client_step K c s =
     (let (C, h) = s
      in case cl_now C of
           Gone \<Rightarrow> (C, h)
         | Idle \<Rightarrow>
             (case cl_work C of
                [] \<Rightarrow> (let (S, h) = ncSocket_destroy c (cl_sock C) h in (C\<lparr>cl_sock := S, cl_now := Gone\<rparr>, h))
              | m # ms \<Rightarrow>
                  (let (a, S, h) = start_method K c m (cl_sock C) h
                   in (\<lparr>cl_sock = S, cl_work = ms, cl_now = a\<rparr>, h)))
         | a \<Rightarrow> (let (a, S, h) = go_on K c a (cl_sock C) h in (C\<lparr>cl_sock := S, cl_now := a\<rparr>, h)))"

section \<open>Running alone\<close>

definition runs_to :: "os \<Rightarrow> config \<Rightarrow> client \<times> hist \<Rightarrow> client \<times> hist \<Rightarrow> bool" where
  "runs_to K c s s' \<longleftrightarrow> (\<exists>n. (client_step K c ^^ n) s = s')"

lemma runs_to_refl [simp, intro]: "runs_to K c s s"
  by (auto simp: runs_to_def intro: exI [of _ 0])

lemma runs_to_step: "runs_to K c s t \<Longrightarrow> client_step K c t = u \<Longrightarrow> runs_to K c s u"
  by (auto simp: runs_to_def intro: exI [of _ "Suc _"])

lemma runs_to_trans: "runs_to K c s t \<Longrightarrow> runs_to K c t u \<Longrightarrow> runs_to K c s u"
  unfolding runs_to_def by (metis comp_apply funpow_add)

lemma dialling_alone:
  assumes "run_loop (connect_body K c (m_sockfd S) addr (m_timeout S)) (0, h) = Some (r, h')"
  shows "runs_to K c (\<lparr>cl_sock = S, cl_work = ms, cl_now = Dialling addr 0\<rparr>, h)
    (\<lparr>cl_sock = S, cl_work = ms, cl_now = Idle\<rparr>, h')"
proof -
  let ?s = "(\<lparr>cl_sock = S, cl_work = ms, cl_now = Dialling addr 0\<rparr>, h)"
  have "runs_to K c ?s (\<lparr>cl_sock = S, cl_work = ms, cl_now = Idle\<rparr>, snd (r, h'))"
    by (rule run_loop_inv [OF assms, where
          I = "\<lambda>(t, g). runs_to K c ?s (\<lparr>cl_sock = S, cl_work = ms, cl_now = Dialling addr t\<rparr>, g)"])
      (auto simp: client_step_def elim!: runs_to_step)
  then show ?thesis by simp
qed

lemma transfer_alone:
  assumes "run_loop (body e) x0 = Some (r, x')" and now: "now = Writing \<and> body = write_body \<or> now = Reading \<and> body = read_body"
  shows "runs_to K c (\<lparr>cl_sock = x_sock x0, cl_work = ms, cl_now = now e x0\<rparr>, x_hist x0)
    (\<lparr>cl_sock = x_sock x', cl_work = ms, cl_now = Idle\<rparr>, x_hist x')"
proof -
  let ?at = "\<lambda>x. (\<lparr>cl_sock = x_sock x, cl_work = ms, cl_now = now e x\<rparr>, x_hist x)"
  let ?fin = "\<lambda>x. (\<lparr>cl_sock = x_sock x, cl_work = ms, cl_now = Idle\<rparr>, x_hist x)"
  have "runs_to K c (?at x0) (?fin (snd (r, x')))"
  proof (rule run_loop_inv [OF assms(1), where I = "\<lambda>x. runs_to K c (?at x0) (?at x)"])
    show "runs_to K c (?at x0) (?at x')" if "runs_to K c (?at x0) (?at x)" "body e x = Inl x'" for x x'
      by (rule runs_to_step [OF that(1)]) (use now that(2) in \<open>auto simp: client_step_def\<close>)
    show "runs_to K c (?at x0) (?fin (snd q))" if "runs_to K c (?at x0) (?at x)" "body e x = Inr q" for x q
      by (rule runs_to_step [OF that(1)]) (use now that(2) in \<open>auto simp: client_step_def split: prod.split\<close>)
  qed simp
  then show ?thesis by simp
qed

lemma runs_to_first: "client_step K c s = t \<Longrightarrow> runs_to K c t u \<Longrightarrow> runs_to K c s u"
  by (rule runs_to_trans [OF runs_to_step [OF runs_to_refl]])

lemma dial_alone:
  assumes "ncSocket_connect K c tmp S h = Some (r, S', h')"
    and "client_step K c s = (let (a, S, h) = dial K c tmp S h in (\<lparr>cl_sock = S, cl_work = ms, cl_now = a\<rparr>, h))"
  shows "runs_to K c s (\<lparr>cl_sock = S', cl_work = ms, cl_now = Idle\<rparr>, h')"
proof -
  obtain out T g where f: "connect_front K c tmp S h = (out, T, g)" by (metis prod_cases3)
  show ?thesis
  proof (cases out)
    case None
    with assms(1) f have "client_step K c s = (\<lparr>cl_sock = S', cl_work = ms, cl_now = Idle\<rparr>, h')"
      by (simp add: assms(2) dial_def ncSocket_connect_def)
    then show ?thesis by (rule runs_to_first) simp
  next
    case (Some addr)
    with assms(1) f have "run_loop (connect_body K c (m_sockfd T) addr (m_timeout T)) (0, g) = Some (r, h')"
      and "S' = T" by (auto simp: ncSocket_connect_def map_option_eq_Some)
    with dialling_alone Some f show ?thesis
      by (intro runs_to_first [OF assms(2)]) (simp add: dial_def)
  qed
qed

lemma method_alone:
  assumes "method_step K c m (S, h) = Some (S', h')"
  shows "runs_to K c (\<lparr>cl_sock = S, cl_work = m # ms, cl_now = Idle\<rparr>, h)
    (\<lparr>cl_sock = S', cl_work = ms, cl_now = Idle\<rparr>, h')"
proof -
  let ?s = "(\<lparr>cl_sock = S, cl_work = m # ms, cl_now = Idle\<rparr>, h)"
  let ?u = "(\<lparr>cl_sock = S', cl_work = ms, cl_now = Idle\<rparr>, h')"
  have start: "client_step K c ?s = (let (a, S, h) = start_method K c m S h
      in (\<lparr>cl_sock = S, cl_work = ms, cl_now = a\<rparr>, h))"
    by (simp add: client_step_def)
  have at_once: "runs_to K c ?s ?u" if "client_step K c ?s = ?u"
    by (rule runs_to_first [OF that]) simp
  have transfer: "runs_to K c ?s ?u"
    if "run_loop (body e) (xfer_init e S buf want h) = Some (r, x)" "S' = x_sock x" "h' = x_hist x"
      "start_method K c m S h = (now e (xfer_init e S buf want h), S, h)"
      "now = Writing \<and> body = write_body \<or> now = Reading \<and> body = read_body"
    for body e buf want r x now
    using transfer_alone [OF that(1,5), of K c ms] that(2-4) runs_to_first [OF start]
    by (simp add: xfer_init_def)
  show ?thesis
  proof (cases m)
    case (MConnect tmp)
    with assms dial_alone [of K c tmp S h _ S' h' ?s ms] start show ?thesis
      by (auto simp: map_option_eq_Some)
  next
    case (MConnectTo tmp host port ty)
    let ?S = "S\<lparr>m_port := port, m_socktype := ty, m_hostname := copy_hostname (the host)\<rparr>"
    from MConnectTo assms dial_alone [of K c tmp ?S h _ S' h' ?s ms] start at_once show ?thesis
      by (auto simp: map_option_eq_Some ncSocket_connect_to_def split: option.splits if_splits)
  next
    case (MWrite n buf want)
    with assms transfer [of write_body _ buf want _ _ Writing] show ?thesis
      by (auto simp: map_option_eq_Some transfer_bodies Let_def)
  next
    case (MRead n buf want)
    with assms transfer [of read_body _ buf want _ _ Reading] show ?thesis
      by (auto simp: map_option_eq_Some transfer_bodies Let_def)
  qed (use assms start at_once in \<open>simp_all split: prod.splits\<close>)
qed

lemma methods_alone:
  "run_methods K c ms (S, h) = Some (S', h') \<Longrightarrow>
    runs_to K c (\<lparr>cl_sock = S, cl_work = ms, cl_now = Idle\<rparr>, h)
      (\<lparr>cl_sock = S', cl_work = [], cl_now = Idle\<rparr>, h')"
proof (induction ms arbitrary: S h)
  case (Cons m ms)
  then obtain T g where "method_step K c m (S, h) = Some (T, g)" "run_methods K c ms (T, g) = Some (S', h')"
    by (auto simp: bind_eq_Some_conv)
  with Cons.IH method_alone runs_to_trans show ?case by blast
qed simp

section \<open>Threads that look after their descriptor\<close>

text \<open>
  A connection is closed before the next is made, and there is no \<open>flush\<close>, which would put a
  stream on the descriptor. The argument says whether the object may hold a descriptor.
\<close>

fun tidy :: "bool \<Rightarrow> sock_method list \<Rightarrow> bool" where
  "tidy may [] = True"
| "tidy may (MFlush # ms) = False"
| "tidy may (MConnect a # ms) = (\<not> may \<and> tidy True ms)"
| "tidy may (MConnectTo a h p t # ms) = (\<not> may \<and> tidy True ms)"
| "tidy may (MClose # ms) = tidy False ms"
| "tidy may (m # ms) = tidy may ms"

lemma tidy_fewer: "tidy may ms \<Longrightarrow> tidy False ms"
  by (induction may ms rule: tidy.induct) simp_all

text \<open>An object made for a host holds descriptor 0 until its first \<open>connect\<close>.\<close>

fun starts_with_connect :: "sock_method list \<Rightarrow> bool" where
  "starts_with_connect (MConnect a # ms) = True"
| "starts_with_connect ms = False"

fun in_step :: "activity \<Rightarrow> ncSocket \<Rightarrow> bool" where
  "in_step (Writing e x) S = (x_sock x = S)"
| "in_step (Reading e x) S = (x_sock x = S)"
| "in_step a S = True"

definition client_ok :: "client \<Rightarrow> bool" where
  "client_ok C \<longleftrightarrow>
     m_stdiofd (cl_sock C) = None \<and> -1 \<le> m_sockfd (cl_sock C) \<and>
     tidy (0 < m_sockfd (cl_sock C)) (cl_work C) \<and>
     (m_sockfd (cl_sock C) = 0 \<longrightarrow> cl_now C = Idle \<and> starts_with_connect (cl_work C)) \<and>
     (cl_now C = Gone \<longrightarrow> m_sockfd (cl_sock C) = -1) \<and>
     in_step (cl_now C) (cl_sock C)"

text \<open>The step of such a thread, as a deed of the owner of its descriptor.\<close>

definition proper_step :: "os \<Rightarrow> config \<Rightarrow> client \<times> hist \<Rightarrow> client \<times> hist \<Rightarrow> bool" where
  "proper_step K c s s' \<longleftrightarrow> client_ok (fst s') \<and>
     deed K c (m_sockfd (cl_sock (fst s)), snd s) (m_sockfd (cl_sock (fst s')), snd s')"

lemma dial_proper:
  assumes "dial K c tmp S h = (a, S', h')" "fresh_doc K" "0 \<in> open_fds h"
    and "m_stdiofd S = None" "m_sockfd S \<le> 0" "tidy True ms"
  shows "client_ok \<lparr>cl_sock = S', cl_work = ms, cl_now = a\<rparr> \<and> deed K c (m_sockfd S, h) (m_sockfd S', h')"
proof -
  obtain out where f: "connect_front K c tmp S h = (out, S', h')"
    and a: "a = Idle \<or> (\<exists>addr. a = Dialling addr 0)"
    using assms(1) by (auto simp: dial_def split: prod.splits option.splits)
  from connect_front_talks [OF f] obtain kind where k: "m_sockfd S' = os_socket K h kind"
    "talks (m_sockfd S') (SysSocket kind (m_sockfd S') # h) h'" "m_stdiofd S' = m_stdiofd S"
    by (auto simp: Let_def)
  have "m_sockfd S' = -1 \<or> 0 \<le> m_sockfd S' \<and> m_sockfd S' \<notin> open_fds h"
    using assms(2) k(1) by (simp add: fresh_doc_def)
  then have "m_sockfd S' = -1 \<or> 0 < m_sockfd S'" using assms(3) by (cases "m_sockfd S' = 0") auto
  with a k assms(4-6) tidy_fewer show ?thesis
    by (auto simp: client_ok_def intro: deed.Open)
qed

lemma start_proper:
  assumes "start_method K c m S h = (a, S', h')" "fresh_doc K" "0 \<in> open_fds h"
    and "client_ok \<lparr>cl_sock = S, cl_work = m # ms, cl_now = Idle\<rparr>"
  shows "client_ok \<lparr>cl_sock = S', cl_work = ms, cl_now = a\<rparr> \<and> deed K c (m_sockfd S, h) (m_sockfd S', h')"
proof (cases m)
  case (MConnect tmp)
  with assms dial_proper [of K c tmp S h a S' h' ms] show ?thesis by (auto simp: client_ok_def)
next
  case (MConnectTo tmp host port ty)
  let ?S = "S\<lparr>m_port := port, m_socktype := ty, m_hostname := copy_hostname (the host)\<rparr>"
  from MConnectTo assms dial_proper [of K c tmp ?S h a S' h' ms] tidy_fewer show ?thesis
    by (auto simp: client_ok_def intro: deed.Talk split: option.splits if_splits)
next
  case MClose
  with assms show ?thesis
    by (cases "0 < m_sockfd S") (auto simp: client_ok_def ncSocket_close_def intro: deed.Talk deed.Close)
qed (use assms in \<open>auto simp: client_ok_def nc_defs xfer_init_def Let_def intro: deed.Talk\<close>)

lemma body_talks:
  "write_body e x = Inl x' \<Longrightarrow> talks (m_sockfd (x_sock x)) (x_hist x) (x_hist x')"
  "write_body e x = Inr (r, x') \<Longrightarrow> talks (m_sockfd (x_sock x)) (x_hist x) (x_hist x')"
  "read_body e x = Inl x' \<Longrightarrow> talks (m_sockfd (x_sock x)) (x_hist x) (x_hist x')"
  "read_body e x = Inr (r, x') \<Longrightarrow> talks (m_sockfd (x_sock x)) (x_hist x) (x_hist x')"
  by (auto simp: write_body_def read_body_def split: if_splits
      intro: wpoll_talk.talks_again wselect_talk.talks_again rpoll_talk.talks_again rselect_talk.talks_again
        wpoll_talk.talks_last wselect_talk.talks_last rpoll_talk.talks_last rselect_talk.talks_last)

lemma body_frame:
  "write_body e x = Inl x' \<Longrightarrow> frame x x'" "write_body e x = Inr (r, x') \<Longrightarrow> frame x x'"
  "read_body e x = Inl x' \<Longrightarrow> frame x x'" "read_body e x = Inr (r, x') \<Longrightarrow> frame x x'"
  by (auto simp: write_body_def read_body_def split: if_splits
      intro: wpoll_clock.keeps wselect_clock.keeps rpoll_clock.keeps rselect_clock.keeps
        wpoll_clock.keeps_last wselect_clock.keeps_last rpoll_clock.keeps_last rselect_clock.keeps_last)

definition same_owner :: "ncSocket \<Rightarrow> hist \<Rightarrow> ncSocket \<Rightarrow> hist \<Rightarrow> bool" where
  "same_owner S h S' h' \<longleftrightarrow>
     m_sockfd S' = m_sockfd S \<and> m_stdiofd S' = m_stdiofd S \<and> talks (m_sockfd S) h h'"

lemma go_on_talks:
  assumes "go_on K c a S h = (a', S', h')" "in_step a S"
  shows "same_owner S h S' h' \<and> in_step a' S' \<and> (a' = Gone \<longrightarrow> a = Gone)"
proof (cases a)
  case (Writing e x)
  let ?x = "x\<lparr>x_hist := h\<rparr>"
  from Writing assms show ?thesis
    using body_talks(1,2) [of e ?x] body_frame(1,2) [of e ?x, THEN frame_fields(3)]
      body_frame(1,2) [of e ?x, THEN frame_fields(5)]
    by (auto simp: same_owner_def split: sum.splits)
next
  case (Reading e x)
  let ?x = "x\<lparr>x_hist := h\<rparr>"
  from Reading assms show ?thesis
    using body_talks(3,4) [of e ?x] body_frame(3,4) [of e ?x, THEN frame_fields(3)]
      body_frame(3,4) [of e ?x, THEN frame_fields(5)]
    by (auto simp: same_owner_def split: sum.splits)
next
  case (Dialling addr t)
  with assms show ?thesis
    by (auto simp: same_owner_def split: sum.splits dest: talks_connect_body)
qed (use assms in \<open>auto simp: same_owner_def\<close>)

lemma client_step_proper:
  assumes "client_ok C" "fresh_doc K" "0 \<in> open_fds h"
  shows "proper_step K c (C, h) (client_step K c (C, h))"
proof -
  obtain S ms a where C: "C = \<lparr>cl_sock = S, cl_work = ms, cl_now = a\<rparr>" by (cases C)
  consider (gone) "a = Gone" | (idle) "a = Idle" "ms = []" | (start) m ms' where "a = Idle" "ms = m # ms'"
    | (busy) "a \<noteq> Gone" "a \<noteq> Idle" by (cases ms) auto
  then show ?thesis
  proof cases
    case gone
    with assms(1) show ?thesis by (auto simp: proper_step_def client_step_def C intro: deed.Talk)
  next
    case idle
    with assms(1) have "m_sockfd S = -1 \<or> 0 < m_sockfd S" by (auto simp: C client_ok_def)
    with idle assms(1) show ?thesis
      by (auto simp: proper_step_def client_step_def C client_ok_def ncSocket_destroy_def
          intro: deed.Talk deed.Close deed.Close_None)
  next
    case (start m ms')
    obtain a' S' h' where m: "start_method K c m S h = (a', S', h')" by (metis prod_cases3)
    from start_proper [OF this assms(2,3)] assms(1) start show ?thesis
      by (simp add: proper_step_def client_step_def C m)
  next
    case busy
    obtain a' S' h' where g: "go_on K c a S h = (a', S', h')" by (metis prod_cases3)
    have "client_step K c (C, h) = (\<lparr>cl_sock = S', cl_work = ms, cl_now = a'\<rparr>, h')"
      using busy g by (cases a) (simp_all add: client_step_def C)
    with go_on_talks [OF g] assms(1) busy show ?thesis
      by (auto simp: proper_step_def client_ok_def C same_owner_def intro: deed.Talk)
  qed
qed

section \<open>Over the life of a thread\<close>

definition thread_inv :: "client \<times> hist \<Rightarrow> bool" where
  "thread_inv s \<longleftrightarrow> client_ok (fst s) \<and> 0 \<in> open_fds (snd s) \<and>
     set (held (m_sockfd (cl_sock (fst s)))) \<subseteq> open_fds (snd s)"

text \<open>Every descriptor that was given out or held has been closed or is held.\<close>

definition books :: "config \<Rightarrow> client \<times> hist \<Rightarrow> client \<times> hist \<Rightarrow> bool" where
  "books c s s' \<longleftrightarrow>
     mset (closes (snd s')) + mset (held (m_sockfd (cl_sock (fst s')))) + mset (births (snd s)) =
     mset (closes (snd s)) + mset (held (m_sockfd (cl_sock (fst s)))) + mset (births (snd s')) \<and>
     (orderly c (snd s) \<longrightarrow> orderly c (snd s'))"

lemma transitive_balance:
  fixes a b :: "'a::cancel_comm_monoid_add"
  assumes "a' + b = a + b'" "a'' + b' = a' + b''"
  shows "a'' + b = a + b''"
proof -
  have "(a'' + b') + (a' + b) = (a' + b'') + (a + b')" by (simp only: assms)
  then have "(a'' + b) + (a' + b') = (a + b'') + (a' + b')" by (simp only: ac_simps)
  then show ?thesis by simp
qed

lemma books_trans: "books c s t \<Longrightarrow> books c t u \<Longrightarrow> books c s u"
  unfolding books_def by (blast intro: transitive_balance)

lemma zero_not_held [simp]: "0 \<notin> set (held fd)"
  by (simp add: held_def)

lemma thread_step:
  assumes "thread_inv s" "fresh_doc K"
  shows "thread_inv (client_step K c s) \<and> books c s (client_step K c s)"
proof -
  obtain C h where s: "s = (C, h)" by fastforce
  obtain C' h' where s': "client_step K c (C, h) = (C', h')" by fastforce
  from assms(1) s have inv: "client_ok C" "0 \<in> open_fds h" "set (held (m_sockfd (cl_sock C))) \<subseteq> open_fds h"
    by (simp_all add: thread_inv_def)
  have p: "client_ok C'" "deed K c (m_sockfd (cl_sock C), h) (m_sockfd (cl_sock C'), h')"
    using client_step_proper [OF inv(1) assms(2) inv(2), of c] by (simp_all add: proper_step_def s')
  have "m_sockfd (cl_sock C) \<noteq> 0 \<Longrightarrow> -1 \<le> m_sockfd (cl_sock C)" using inv(1) by (simp add: client_ok_def)
  note k = deed_keeps [OF p(2) assms(2) inv(2,3) this]
  have "0 \<in> open_fds h'" using k(4) inv(2) by auto
  with p(1) k(2,3,6) show ?thesis by (simp add: thread_inv_def books_def s s')
qed

lemma thread_runs:
  assumes "runs_to K c s s'" "thread_inv s" "fresh_doc K"
  shows "thread_inv s' \<and> books c s s'"
proof -
  have "thread_inv ((client_step K c ^^ n) s) \<and> books c s ((client_step K c ^^ n) s)" for n
  proof (induction n)
    case 0 with assms(2) show ?case by (simp add: books_def)
  next
    case (Suc n) with thread_step [OF _ assms(3)] books_trans show ?case by (simp, blast)
  qed
  with assms(1) show ?thesis by (auto simp: runs_to_def)
qed

section \<open>Properties\<close>

lemma client_alone:
  assumes "run_methods K c ms (S, h) = Some (S', h')"
  shows "runs_to K c (\<lparr>cl_sock = S, cl_work = ms, cl_now = Idle\<rparr>, h)
    (\<lparr>cl_sock = fst (ncSocket_destroy c S' h'), cl_work = [], cl_now = Gone\<rparr>, snd (ncSocket_destroy c S' h'))"
  by (rule runs_to_step [OF methods_alone [OF assms]]) (simp add: client_step_def split: prod.split)

text \<open>
  C15: the steps of a thread are the code: if the methods it calls return, one after the other, when
  they are run as the sequential model runs them, then the steps of the thread, undisturbed, lead
  to the same object and the same calls, the destructor's included.
\<close>

theorem client_refines_code:
  assumes "run_methods K c ms (S, h) = Some (S', h')"
  shows "\<exists>n. (client_step K c ^^ n) (\<lparr>cl_sock = S, cl_work = ms, cl_now = Idle\<rparr>, h) =
    (\<lparr>cl_sock = fst (ncSocket_destroy c S' h'), cl_work = [], cl_now = Gone\<rparr>, snd (ncSocket_destroy c S' h'))"
  using client_alone [OF assms] by (simp add: runs_to_def)

theorem client_refines_code_witness:
  "\<exists>S' h' n. run_methods ready_os linux_config [MSetTimeout 5, MWrite 3 (\<lambda>a. word_of_int a) True, MClose]
      (ncSocket_of_fd linux_config 9, []) = Some (S', h') \<and>
    (client_step ready_os linux_config ^^ n)
      (\<lparr>cl_sock = ncSocket_of_fd linux_config 9,
        cl_work = [MSetTimeout 5, MWrite 3 (\<lambda>a. word_of_int a) True, MClose], cl_now = Idle\<rparr>, []) =
    (\<lparr>cl_sock = fst (ncSocket_destroy linux_config S' h'), cl_work = [], cl_now = Gone\<rparr>, snd (ncSocket_destroy linux_config S' h'))"
proof -
  let ?ms = "[MSetTimeout 5, MWrite 3 (\<lambda>a. word_of_int a) True, MClose]"
  let ?S = "setTimeout 5 (ncSocket_of_fd linux_config 9)"
  have "clock_fits ?S" by (simp add: clock_fits_def ncSocket_of_fd_def setTimeout_def)
  then obtain r x where "writeData (linux_env 3) ?S (\<lambda>a. word_of_int a) True [] = Some (r, x)"
    using writeData_post [OF concrete_envs(1), of 3 ?S "\<lambda>a. word_of_int a" True "[]"] by auto
  then obtain S' h' where "run_methods ready_os linux_config ?ms (ncSocket_of_fd linux_config 9, []) = Some (S', h')"
    by (cases "ncSocket_close (x_sock x) (x_hist x)") (auto simp: linux_env_def bind_eq_Some_conv)
  with client_refines_code [OF this] show ?thesis by blast
qed

text \<open>
  C16: a client that connects again and again, closing each connection before the next, loses no
  descriptor: when its object has been deleted, every descriptor it ever held, the first one and
  each one a \<open>connect\<close> opened, has been closed exactly once, whatever \<open>connect\<close> returned, and no call
  was made on a descriptor that was not open. (On Windows the destructor of a closed object calls
  \<^verbatim>\<open>closesocket(INVALID_SOCKET)\<close>, which fails and closes nothing.)
\<close>

theorem reconnect_closes_once:
  assumes "run_methods K c ms (S, h) = Some (S', h')" "fresh_doc K"
    and "client_ok \<lparr>cl_sock = S, cl_work = ms, cl_now = Idle\<rparr>" "orderly c h"
    and "0 \<in> open_fds h" "set (held (m_sockfd S)) \<subseteq> open_fds h"
  shows "let h'' = snd (ncSocket_destroy c S' h')
    in mset (closes h'') + mset (births h) = mset (closes h) + mset (held (m_sockfd S)) + mset (births h'') \<and>
      orderly c h''"
proof -
  let ?S = "fst (ncSocket_destroy c S' h')"
  have "thread_inv (\<lparr>cl_sock = S, cl_work = ms, cl_now = Idle\<rparr>, h)"
    using assms(3,5,6) by (simp add: thread_inv_def)
  from thread_runs [OF client_alone [OF assms(1)] this assms(2)] assms(4) have
    "m_sockfd ?S = -1" and b: "books c (\<lparr>cl_sock = S, cl_work = ms, cl_now = Idle\<rparr>, h)
      (\<lparr>cl_sock = ?S, cl_work = [], cl_now = Gone\<rparr>, snd (ncSocket_destroy c S' h'))"
    by (simp_all add: thread_inv_def client_ok_def)
  then have "held (m_sockfd ?S) = []" by (simp add: held_def)
  with b assms(4) show ?thesis by (simp add: books_def Let_def)
qed

text \<open>Two connections to the same host, one after the other; both get descriptor 3.\<close>

theorem reconnect_closes_once_witness:
  "\<exists>S' h'. run_methods lowest_os linux_config [MConnect zero_sockaddr, MClose, MConnect zero_sockaddr]
      (ncSocket_of_host linux_config [49] 80 SOCKTYPE_TCPIP, []) = Some (S', h') \<and>
    births (snd (ncSocket_destroy linux_config S' h')) = [3, 3] \<and>
    (let h'' = snd (ncSocket_destroy linux_config S' h')
     in mset (closes h'') + mset (births []) = mset (closes []) + mset (held 0) + mset (births h'') \<and>
       orderly linux_config h'')"
proof -
  let ?S = "ncSocket_of_host linux_config [49] 80 SOCKTYPE_TCPIP"
  let ?ms = "[MConnect zero_sockaddr, MClose, MConnect zero_sockaddr]"
  let ?run = "run_methods lowest_os linux_config ?ms (?S, [])"
  have low: "lowest_fd h = 3" if "open_fds h = {0, 1, 2}" "top_fd h = 2 \<or> top_fd h = 3" for h
    using that by (auto simp: lowest_fd_def upt_rec)
  have "?run \<noteq> None \<and> births (snd (ncSocket_destroy linux_config (fst (the ?run)) (snd (the ?run)))) = [3, 3]"
    by (simp add: ncSocket_connect_defs connect_body_def ncGetInetAddr_defs ncSetSocketNonBlocking_defs
        lowest_os_def ready_os_def dead_os_def linux_config_def nc_defs low Let_def)
  then obtain S' h' where r: "?run = Some (S', h')" "births (snd (ncSocket_destroy linux_config S' h')) = [3, 3]"
    by auto
  have "client_ok \<lparr>cl_sock = ?S, cl_work = ?ms, cl_now = Idle\<rparr>" "m_sockfd ?S = 0"
    by (simp_all add: client_ok_def ncSocket_of_host_def)
  with reconnect_closes_once [OF r(1) lowest_os_fresh] r show ?thesis by (simp add: held_def)
qed

end
