(* ===== verification/Nc_Thread.thy ===== *)
theory Nc_Thread
  imports Nc_Sock
begin

text \<open>
  The class \<^verbatim>\<open>ncThread\<close> of \<^verbatim>\<open>src/ncthread.cpp\<close>: a thin layer over POSIX threads, over Windows
  threads, or, in a build without \<open>HAVE_THREADS\<close>, over nothing at all. \<open>threads\<close> says which.
  A thread is known by its handle, a number; the null handle of Windows is 0.
\<close>

record ncThread =
  th_retVal :: nat
  ncthread :: nat

datatype thread_layer = WinThreads | PThreads | NoThreads

definition threads :: "config \<Rightarrow> thread_layer" where
  "threads c = (if cfg_platform c = Win32 then WinThreads
                else if cfg_have_threads c then PThreads else NoThreads)"

text \<open>
  The constructor leaves \<open>ncthread\<close> uninitialised, and \<open>m_retVal\<close> too without
  \<open>HAVE_THREADS\<close>: the argument \<open>T\<close> holds the indeterminate values.
\<close>

definition ncThread_init :: "config \<Rightarrow> ncThread \<Rightarrow> hist \<Rightarrow> ncThread \<times> hist" where
  "ncThread_init c T h =
     (if cfg_have_threads c
      then (T\<lparr>th_retVal := 0\<rparr>, if cfg_platform c = Linux then ThreadSetup # h else h)
      else (T, h))"

definition ncThread_destroy :: "config \<Rightarrow> ncThread \<Rightarrow> hist \<Rightarrow> hist" where
  "ncThread_destroy c T h =
     (if threads c = WinThreads then ThreadCloseHandle (ncthread T) # h else h)"

definition getThreadHandle :: "ncThread \<Rightarrow> nat" where
  "getThreadHandle T = ncthread T"

text \<open>
  Each of the other operations has a Windows and a POSIX version; the POSIX one does nothing
  without \<open>HAVE_THREADS\<close>. \<open>CreateThread\<close> reports failure by a null handle, \<open>pthread_create\<close>
  by a non-zero result.
\<close>

definition ncThread_start_win :: "os \<Rightarrow> cbarg \<Rightarrow> ncThread \<Rightarrow> hist \<Rightarrow> retcode \<times> ncThread \<times> hist" where
  "ncThread_start_win K arg T h =
     (let (e, t) = os_thread_create K h arg
      in (if t = 0 then NC_FAILED else NC_OK, T\<lparr>ncthread := t\<rparr>, ThreadCreate arg e t # h))"

definition ncThread_start_posix ::
    "os \<Rightarrow> config \<Rightarrow> cbarg \<Rightarrow> ncThread \<Rightarrow> hist \<Rightarrow> retcode \<times> ncThread \<times> hist" where
  "ncThread_start_posix K c arg T h =
     (if cfg_have_threads c
      then (let (e, t) = os_thread_create K h arg
            in (if e \<noteq> 0 then NC_FAILED else NC_OK, T\<lparr>ncthread := t\<rparr>, ThreadCreate arg e t # h))
      else (NC_OK, T, h))"

definition ncThread_start ::
    "os \<Rightarrow> config \<Rightarrow> cbarg \<Rightarrow> ncThread \<Rightarrow> hist \<Rightarrow> retcode \<times> ncThread \<times> hist" where
  "ncThread_start K c arg T h =
     (if cfg_platform c = Win32 then ncThread_start_win K arg T h else ncThread_start_posix K c arg T h)"

definition ncThread_join_win :: "os \<Rightarrow> ncThread \<Rightarrow> hist \<Rightarrow> retcode \<times> ncThread \<times> hist" where
  "ncThread_join_win K T h =
     (let (e, v) = os_thread_join K h (ncthread T)
      in (if e \<noteq> 0 then NC_FAILED else NC_OK, T, ThreadJoin (ncthread T) e # h))"

definition ncThread_join_posix ::
    "os \<Rightarrow> config \<Rightarrow> ncThread \<Rightarrow> hist \<Rightarrow> retcode \<times> ncThread \<times> hist" where
  "ncThread_join_posix K c T h =
     (if cfg_have_threads c
      then (let (e, v) = os_thread_join K h (ncthread T)
            in (if e \<noteq> 0 then NC_FAILED else NC_OK, if e = 0 then T\<lparr>th_retVal := v\<rparr> else T,
                ThreadJoin (ncthread T) e # h))
      else (NC_OK, T, h))"

definition ncThread_join :: "os \<Rightarrow> config \<Rightarrow> ncThread \<Rightarrow> hist \<Rightarrow> retcode \<times> ncThread \<times> hist" where
  "ncThread_join K c T h =
     (if cfg_platform c = Win32 then ncThread_join_win K T h else ncThread_join_posix K c T h)"

definition ncThread_detach_win :: "hist \<Rightarrow> retcode \<times> hist" where
  "ncThread_detach_win h = (NC_OK, h)"

definition ncThread_detach_posix :: "os \<Rightarrow> config \<Rightarrow> ncThread \<Rightarrow> hist \<Rightarrow> retcode \<times> hist" where
  "ncThread_detach_posix K c T h =
     (if cfg_have_threads c
      then (let e = os_thread_detach K h (ncthread T)
            in (if e \<noteq> 0 then NC_FAILED else NC_OK, ThreadDetach (ncthread T) e # h))
      else (NC_OK, h))"

definition ncThread_detach :: "os \<Rightarrow> config \<Rightarrow> ncThread \<Rightarrow> hist \<Rightarrow> retcode \<times> hist" where
  "ncThread_detach K c T h =
     (if cfg_platform c = Win32 then ncThread_detach_win h else ncThread_detach_posix K c T h)"

text \<open>\<open>testCancel\<close> does nothing on Windows.\<close>

definition ncThread_testCancel_win :: "hist \<Rightarrow> hist" where
  "ncThread_testCancel_win h = h"

definition ncThread_testCancel_posix :: "config \<Rightarrow> hist \<Rightarrow> hist" where
  "ncThread_testCancel_posix c h = (if cfg_have_threads c then ThreadTestCancel # h else h)"

definition ncThread_testCancel :: "config \<Rightarrow> hist \<Rightarrow> hist" where
  "ncThread_testCancel c h =
     (if cfg_platform c = Win32 then ncThread_testCancel_win h else ncThread_testCancel_posix c h)"

text \<open>
  \<open>stop\<close>: \<open>TerminateThread\<close> on Windows; elsewhere cancel and join, results ignored.
\<close>

definition ncThread_stop_win :: "ncThread \<Rightarrow> hist \<Rightarrow> ncThread \<times> hist" where
  "ncThread_stop_win T h = (T, ThreadCancel (ncthread T) # h)"

definition ncThread_stop_posix :: "os \<Rightarrow> config \<Rightarrow> ncThread \<Rightarrow> hist \<Rightarrow> ncThread \<times> hist" where
  "ncThread_stop_posix K c T h =
     (if cfg_have_threads c
      then (let h = ThreadCancel (ncthread T) # h;
                (e, v) = os_thread_join K h (ncthread T)
            in (if e = 0 then T\<lparr>th_retVal := v\<rparr> else T, ThreadJoin (ncthread T) e # h))
      else (T, h))"

definition ncThread_stop :: "os \<Rightarrow> config \<Rightarrow> ncThread \<Rightarrow> hist \<Rightarrow> ncThread \<times> hist" where
  "ncThread_stop K c T h =
     (if cfg_platform c = Win32 then ncThread_stop_win T h else ncThread_stop_posix K c T h)"

text \<open>\<open>exit\<close> ends the calling thread where there are POSIX threads, and does nothing elsewhere.\<close>

definition ncThread_exit_win :: "hist \<Rightarrow> hist" where
  "ncThread_exit_win h = h"

definition ncThread_exit_posix :: "config \<Rightarrow> ncThread \<Rightarrow> hist \<Rightarrow> hist" where
  "ncThread_exit_posix c T h = (if cfg_have_threads c then ThreadExit (th_retVal T) # h else h)"

definition ncThread_exit :: "config \<Rightarrow> ncThread \<Rightarrow> hist \<Rightarrow> hist" where
  "ncThread_exit c T h =
     (if cfg_platform c = Win32 then ncThread_exit_win h else ncThread_exit_posix c T h)"

text \<open>The operations by thread layer.\<close>

lemma ncThread_start_alt:
  "ncThread_start K c arg T h =
     (if threads c = NoThreads then (NC_OK, T, h)
      else let (e, t) = os_thread_create K h arg;
               failed = (if threads c = WinThreads then t = 0 else e \<noteq> 0)
           in (if failed then NC_FAILED else NC_OK, T\<lparr>ncthread := t\<rparr>, ThreadCreate arg e t # h))"
  by (simp add: ncThread_start_def ncThread_start_win_def ncThread_start_posix_def threads_def Let_def
      split: prod.split)

lemma ncThread_join_alt:
  "ncThread_join K c T h =
     (if threads c = NoThreads then (NC_OK, T, h)
      else let (e, v) = os_thread_join K h (ncthread T)
           in (if e \<noteq> 0 then NC_FAILED else NC_OK,
               if threads c = PThreads \<and> e = 0 then T\<lparr>th_retVal := v\<rparr> else T,
               ThreadJoin (ncthread T) e # h))"
  by (simp add: ncThread_join_def ncThread_join_win_def ncThread_join_posix_def threads_def Let_def
      split: prod.split)

lemma ncThread_detach_alt:
  "ncThread_detach K c T h =
     (if threads c = PThreads
      then (let e = os_thread_detach K h (ncthread T)
            in (if e \<noteq> 0 then NC_FAILED else NC_OK, ThreadDetach (ncthread T) e # h))
      else (NC_OK, h))"
  by (simp add: ncThread_detach_def ncThread_detach_win_def ncThread_detach_posix_def threads_def Let_def)

lemma ncThread_stop_alt:
  "ncThread_stop K c T h =
     (case threads c of
        WinThreads \<Rightarrow> (T, ThreadCancel (ncthread T) # h)
      | NoThreads \<Rightarrow> (T, h)
      | PThreads \<Rightarrow>
          (let h = ThreadCancel (ncthread T) # h;
               (e, v) = os_thread_join K h (ncthread T)
           in (if e = 0 then T\<lparr>th_retVal := v\<rparr> else T, ThreadJoin (ncthread T) e # h)))"
  by (simp add: ncThread_stop_def ncThread_stop_win_def ncThread_stop_posix_def threads_def)

lemmas thread_alts = ncThread_start_alt ncThread_join_alt ncThread_detach_alt ncThread_stop_alt

section \<open>Thread life cycles\<close>

text \<open>
  \<open>joins t h\<close> and \<open>detaches t h\<close> count the calls made for a handle since it was last created:
  POSIX allows one of the two, once.
\<close>

primrec releases :: "nat \<Rightarrow> hist \<Rightarrow> nat" where
  "releases t [] = 0"
| "releases t (c # h) =
     (case c of ThreadCreate a e u \<Rightarrow> if u = t \<and> e = 0 then 0 else releases t h
              | ThreadJoin u e \<Rightarrow> releases t h + (if u = t then 1 else 0)
              | ThreadDetach u e \<Rightarrow> releases t h + (if u = t then 1 else 0)
              | _ \<Rightarrow> releases t h)"

text \<open>The handles of the POSIX threads that were created, and that were joined or detached.\<close>

primrec created :: "hist \<Rightarrow> nat list" where
  "created [] = []"
| "created (c # h) =
     (case c of ThreadCreate a e t \<Rightarrow> created h @ (if e = 0 then [t] else []) | _ \<Rightarrow> created h)"

primrec freed :: "hist \<Rightarrow> nat list" where
  "freed [] = []"
| "freed (c # h) =
     (case c of ThreadJoin t e \<Rightarrow> freed h @ (if e = 0 then [t] else [])
              | ThreadDetach t e \<Rightarrow> freed h @ (if e = 0 then [t] else [])
              | _ \<Rightarrow> freed h)"

lemma ncThread_start_result:
  "ncThread_start K c arg T h = (r, T', h') \<Longrightarrow> r = NC_OK \<or> r = NC_FAILED"
  by (auto simp: ncThread_start_alt Let_def split: if_splits prod.splits)

section \<open>The contract of the thread operations\<close>

text \<open>
  What a user of the class relies on where threads are real (\<open>real\<close>): each operation answers
  \<open>NC_OK\<close> or \<open>NC_FAILED\<close>; a start that succeeded has created the one thread whose handle the
  object then holds; a join or a detach that succeeded has released the object's thread and no
  other; what failed has changed nothing.
\<close>

locale thread_class =
  fixes real :: bool
    and start :: "cbarg \<Rightarrow> ncThread \<Rightarrow> hist \<Rightarrow> retcode \<times> ncThread \<times> hist"
    and join :: "ncThread \<Rightarrow> hist \<Rightarrow> retcode \<times> ncThread \<times> hist"
    and detach :: "ncThread \<Rightarrow> hist \<Rightarrow> retcode \<times> hist"
  assumes start_law: "start a T h = (r, T', h') \<Longrightarrow> real \<Longrightarrow> freed h' = freed h \<and>
      (r = NC_OK \<and> created h' = created h @ [getThreadHandle T'] \<and>
         releases (getThreadHandle T') h' = 0 \<or>
       r = NC_FAILED \<and> created h' = created h)"
    and join_law: "join T h = (r, T', h') \<Longrightarrow> real \<Longrightarrow> created h' = created h \<and>
      getThreadHandle T' = getThreadHandle T \<and>
      releases (getThreadHandle T) h' = Suc (releases (getThreadHandle T) h) \<and>
      (r = NC_OK \<and> freed h' = freed h @ [getThreadHandle T] \<or> r = NC_FAILED \<and> freed h' = freed h)"
    and detach_law: "detach T h = (r, h') \<Longrightarrow> real \<Longrightarrow> created h' = created h \<and>
      releases (getThreadHandle T) h' = Suc (releases (getThreadHandle T) h) \<and>
      (r = NC_OK \<and> freed h' = freed h @ [getThreadHandle T] \<or> r = NC_FAILED \<and> freed h' = freed h)"
begin

lemma start_join:
  assumes "real" "start a T h = (NC_OK, T1, h1)" "join T1 h1 = (NC_OK, T2, h2)"
  shows "\<exists>t. getThreadHandle T2 = t \<and> created h2 = created h @ [t] \<and> freed h2 = freed h @ [t] \<and>
    releases t h2 = 1"
  using start_law [OF assms(2,1)] join_law [OF assms(3,1)] by auto

lemma start_detach:
  assumes "real" "start a T h = (NC_OK, T1, h1)" "detach T1 h1 = (NC_OK, h2)"
  shows "\<exists>t. getThreadHandle T1 = t \<and> created h2 = created h @ [t] \<and> freed h2 = freed h @ [t] \<and>
    releases t h2 = 1"
  using start_law [OF assms(2,1)] detach_law [OF assms(3,1)] by auto

end

interpretation pthreads: thread_class "threads c = PThreads" "ncThread_start K c" "ncThread_join K c"
    "ncThread_detach K c" for K c
proof unfold_locales
  fix a T h r T' h'
  assume "ncThread_start K c a T h = (r, T', h')" "threads c = PThreads"
  then show "freed h' = freed h \<and>
      (r = NC_OK \<and> created h' = created h @ [getThreadHandle T'] \<and>
         releases (getThreadHandle T') h' = 0 \<or>
       r = NC_FAILED \<and> created h' = created h)"
    by (auto simp: ncThread_start_alt getThreadHandle_def Let_def split: prod.splits if_splits)
next
  fix T h r T' h'
  assume "ncThread_join K c T h = (r, T', h')" "threads c = PThreads"
  then show "created h' = created h \<and> getThreadHandle T' = getThreadHandle T \<and>
      releases (getThreadHandle T) h' = Suc (releases (getThreadHandle T) h) \<and>
      (r = NC_OK \<and> freed h' = freed h @ [getThreadHandle T] \<or> r = NC_FAILED \<and> freed h' = freed h)"
    by (auto simp: ncThread_join_alt getThreadHandle_def Let_def split: prod.splits if_splits)
next
  fix T h r h'
  assume "ncThread_detach K c T h = (r, h')" "threads c = PThreads"
  then show "created h' = created h \<and>
      releases (getThreadHandle T) h' = Suc (releases (getThreadHandle T) h) \<and>
      (r = NC_OK \<and> freed h' = freed h @ [getThreadHandle T] \<or> r = NC_FAILED \<and> freed h' = freed h)"
    by (auto simp: ncThread_detach_alt getThreadHandle_def Let_def split: if_splits)
qed

section \<open>Properties\<close>

definition ok_threads_os :: os where
  "ok_threads_os = dead_os\<lparr>os_thread_create := \<lambda>h a. (0, Suc (length h)),
     os_thread_join := \<lambda>h t. (0, 0), os_thread_detach := \<lambda>h t. 0\<rparr>"

text \<open>
  With POSIX threads a thread that was started and then detached, or started and then
  joined, all successfully, has been released exactly once, as POSIX asks.
\<close>

lemma thread_released_once:
  assumes "threads c = PThreads" "ncThread_start K c a T h = (NC_OK, T1, h1)"
  shows "(ncThread_detach K c T1 h1 = (NC_OK, h2) \<longrightarrow> releases (getThreadHandle T1) h2 = 1) \<and>
    (ncThread_join K c T1 h1 = (NC_OK, T2, h3) \<longrightarrow>
       getThreadHandle T2 = getThreadHandle T1 \<and> releases (getThreadHandle T1) h3 = 1)"
  using pthreads.start_detach [OF assms] pthreads.start_join [OF assms]
    pthreads.join_law [of K c T1 h1 NC_OK T2 h3] assms(1) by metis

text \<open>
  \<open>stop\<close> joins the thread it cancels whatever was done with it before: after a detach, or
  after a join, the thread is released a second time, which POSIX leaves undefined.
\<close>

lemma stop_releases_again:
  assumes "threads c = PThreads" "ncThread_start K c a T h = (NC_OK, T1, h1)"
    and "ncThread_detach K c T1 h1 = (NC_OK, h2)"
  shows "releases (getThreadHandle T1) (snd (ncThread_stop K c T1 h2)) = 2"
proof -
  have "releases (ncthread T1) h2 = 1"
    using pthreads.start_detach [OF assms] by (simp add: getThreadHandle_def)
  then show ?thesis using assms(1)
    by (simp add: ncThread_stop_alt getThreadHandle_def Let_def split: prod.splits)
qed

end
