(* ===== verification/Nc_Udp.thy ===== *)
theory Nc_Udp
  imports Nc_Data
begin

text \<open>
  The class \<^verbatim>\<open>udpData\<close> of \<^verbatim>\<open>src/udpdata.h\<close>: a datagram on its way to a callback. The
  constructor limits the length from above only; its \<open>memcpy\<close> is a fault of the model when the
  number of bytes, converted to \<open>size_t\<close>, is more than the source or the destination holds.
\<close>

datatype fault = Memcpy_overrun int

definition size_t :: "config \<Rightarrow> int \<Rightarrow> int" where
  "size_t c n = n mod (if cfg_ptr64 c then 2 ^ 64 else 2 ^ 32)"

text \<open>\<open>junk\<close> is what the uninitialised array \<open>m_data\<close> holds before the copy.\<close>

definition udpData_make ::
    "config \<Rightarrow> byte list \<Rightarrow> fd \<Rightarrow> sockaddr_in \<Rightarrow> byte list \<Rightarrow> int \<Rightarrow> fault + udpData" where
  "udpData_make c junk sockfd clientaddr buf len =
     (let m_length = NC_MIN len MAX_DGRAM_BUF_LEN;
          n = size_t c m_length
      in if MAX_DGRAM_BUF_LEN < n \<or> int (length buf) < n then Inl (Memcpy_overrun n)
         else Inr \<lparr>u_sockfd = sockfd, u_length = m_length, u_clientaddr = clientaddr,
                   u_data = take (nat n) buf @ drop (nat n) junk\<rparr>)"

definition udpData_getClientAddr :: "udpData \<Rightarrow> sockaddr_in" where
  "udpData_getClientAddr u = u_clientaddr u"

definition udpData_getSockfd :: "udpData \<Rightarrow> fd" where
  "udpData_getSockfd u = u_sockfd u"

definition udpData_getLength :: "udpData \<Rightarrow> int" where
  "udpData_getLength u = u_length u"

definition udpData_getData :: "udpData \<Rightarrow> byte list" where
  "udpData_getData u = u_data u"

lemmas udp_getters = udpData_getClientAddr_def udpData_getSockfd_def udpData_getLength_def
  udpData_getData_def

lemma size_t_id: "0 \<le> n \<Longrightarrow> n < 2 ^ 32 \<Longrightarrow> size_t c n = n"
  by (simp add: size_t_def)

lemma size_t_negative:
  assumes "n < 0" "- (2 ^ 31) \<le> n"
  shows "2 ^ 31 \<le> size_t c n"
proof -
  have "n mod 2 ^ 64 = n + 2 ^ 64" "n mod 2 ^ 32 = n + 2 ^ 32"
    using assms mod_pos_pos_trivial [of "n + 2 ^ 64" "2 ^ 64"]
      mod_pos_pos_trivial [of "n + 2 ^ 32" "2 ^ 32"] by simp_all
  with assms show ?thesis by (simp add: size_t_def)
qed

lemma udpData_make_ok:
  assumes "0 \<le> len" "NC_MIN len 512 \<le> int (length buf)"
  shows "udpData_make c junk fd a buf len =
    Inr \<lparr>u_sockfd = fd, u_length = NC_MIN len 512, u_clientaddr = a,
         u_data = take (nat (NC_MIN len 512)) buf @ drop (nat (NC_MIN len 512)) junk\<rparr>"
proof -
  have "size_t c (NC_MIN len 512) = NC_MIN len 512"
    by (rule size_t_id) (use assms in \<open>auto simp: NC_MIN_def\<close>)
  then show ?thesis
    using assms by (auto simp: udpData_make_def MAX_DGRAM_BUF_LEN_def NC_MIN_def Let_def)
qed

lemma udpData_make_negative:
  assumes "len < 0" "- (2 ^ 31) \<le> len"
  shows "\<exists>n \<ge> 2 ^ 31. udpData_make c junk fd a buf len = Inl (Memcpy_overrun n)"
  using assms size_t_negative [OF assms, of c]
  by (auto simp: udpData_make_def MAX_DGRAM_BUF_LEN_def NC_MIN_def Let_def)

text \<open>
  A datagram object built from a 512-byte buffer. For a length that is not negative the copy
  stays inside both arrays, the object reports the length cut to 512, the given descriptor and
  address, and its data are 512 bytes that start with those of the buffer. For a negative length,
  the error result of \<open>recvfrom\<close>, the copy runs over by at least \<open>2^31 - 512\<close> bytes.
\<close>

lemma udpData_constructed:
  assumes "length junk = 512" "length buf = 512" "- (2 ^ 31) \<le> len"
  shows "case udpData_make c junk fd a buf len of
      Inr u \<Rightarrow> 0 \<le> len \<and> udpData_getLength u = min len 512 \<and> udpData_getSockfd u = fd \<and>
        udpData_getClientAddr u = a \<and> length (udpData_getData u) = 512 \<and>
        take (nat len) (udpData_getData u) = take (nat len) buf
    | Inl (Memcpy_overrun n) \<Rightarrow> len < 0 \<and> 2 ^ 31 \<le> n"
proof (cases "0 \<le> len")
  case True
  then have "udpData_make c junk fd a buf len = Inr \<lparr>u_sockfd = fd, u_length = min len 512,
      u_clientaddr = a, u_data = take (nat (min len 512)) buf @ drop (nat (min len 512)) junk\<rparr>"
    using udpData_make_ok [of len buf c junk fd a] assms(2) by (simp add: NC_MIN_min)
  with True assms show ?thesis
    by (auto simp: udp_getters min_def)
next
  case False
  then show ?thesis using udpData_make_negative [OF _ assms(3), of c junk fd a buf] by auto
qed

end
