(* ===== verification/Nc_Listener.thy ===== *)
theory Nc_Listener
  imports Nc_Sock_Connect Nc_Thread Nc_Udp
begin

text \<open>
  The class \<^verbatim>\<open>ncSocketListener\<close> of \<^verbatim>\<open>src/ncsocklist.cpp\<close>: a server socket that hands each
  accepted connection, or each datagram, to a callback.

  \<open>stopListening\<close> and \<open>setBackLog\<close> are meant to be called by other threads, or by the
  callback, while \<open>startListening\<close> runs. Whenever \<open>startListening\<close> reads a member again,
  \<open>os_view\<close> first replaces the object by what the others have made of it meanwhile.

  \<open>startListening\<close> is the composition of the phases of the function: \<open>bind_body\<close>,
  \<open>accept_body\<close> and \<open>udp_body\<close> are its three loops, \<open>serve_client\<close> is what happens to one
  accepted connection. The result \<open>None\<close> means that it never returns; \<open>Inl\<close> of a fault that it
  ran into undefined behaviour; \<open>Inr\<close> of a return code that it returned.
\<close>

section \<open>Construction, destruction, stop\<close>

definition ncSocketListener_init :: "16 word \<Rightarrow> int \<Rightarrow> ncSocketListener" where
  "ncSocketListener_init port sockType =
     \<lparr>ls_sockfd = 0, ls_listening = 0, ls_socktype = sockType, ls_backlog = 16, ls_port = port\<rparr>"

definition ncSocketListener_destroy :: "ncSocketListener \<Rightarrow> hist \<Rightarrow> hist" where
  "ncSocketListener_destroy L h =
     (if ls_sockfd L \<noteq> 0 then SysClose (ls_sockfd L) # h else h)"

definition stopListening :: "ncSocketListener \<Rightarrow> hist \<Rightarrow> ncSocketListener \<times> hist" where
  "stopListening L h =
     (let L = L\<lparr>ls_listening := 0\<rparr>;
          h = SysSleep 250 # h
      in if ls_sockfd L \<noteq> 0
         then (L\<lparr>ls_sockfd := 0\<rparr>, SysClose (ls_sockfd L) # SysShutdown (ls_sockfd L) 0 # h)
         else (L, h))"

definition getBackLog :: "ncSocketListener \<Rightarrow> int" where
  "getBackLog L = ls_backlog L"

definition setBackLog :: "int \<Rightarrow> ncSocketListener \<Rightarrow> ncSocketListener" where
  "setBackLog backlog L = L\<lparr>ls_backlog := backlog\<rparr>"

section \<open>Binding\<close>

definition htonl :: "config \<Rightarrow> 32 word \<Rightarrow> 32 word" where
  "htonl c x =
     (if cfg_big_endian c then x
      else push_bit 24 x OR (push_bit 8 x AND 0xFF0000) OR (drop_bit 8 x AND 0xFF00) OR drop_bit 24 x)"

definition listen_address :: "config \<Rightarrow> 16 word \<Rightarrow> sockaddr_in" where
  "listen_address c port =
     zero_sockaddr\<lparr>sin_family := AF_INET, s_addr := htonl c INADDR_ANY, sin_port := htons c port\<rparr>"

text \<open>
  The state is the object, \<open>bindAttempts\<close> and the history. The loop is left with \<open>None\<close> (the
  code goes on) or with a return code.
\<close>

type_synonym bind_state = "ncSocketListener \<times> int \<times> hist"

definition bind_body ::
    "os \<Rightarrow> config \<Rightarrow> sockaddr_in \<Rightarrow> bind_state \<Rightarrow>
     bind_state + (retcode option \<times> ncSocketListener \<times> hist)" where
  "bind_body K c addr s =
     (let (L, bindAttempts, h) = s;
          L = os_view K h L;
          r = os_bind K h (ls_sockfd L) addr;
          h = SysBind (ls_sockfd L) addr r # h
      in if r \<noteq> -1 then Inr (None, L, h)
         else
           let L = os_view K h L
           in if ls_listening L = 0 then Inr (None, L, h)
              else if bindAttempts = 10 then Inr (Some NC_FAILED, L, h)
              else
                let bindAttempts = bindAttempts + 1
                in if ncAddrInUse c (os_errno K h) then Inr (None, L, h)
                   else Inl (L, bindAttempts, SysSleep (bindAttempts * 1000) # h))"

section \<open>Serving one connection\<close>

text \<open>\<open>Some r\<close>: \<open>startListening\<close> returns \<open>r\<close>; \<open>None\<close>: it goes on.\<close>

definition serve_threaded ::
    "os \<Rightarrow> config \<Rightarrow> 32 word \<Rightarrow> ncSocket \<Rightarrow> ncThread \<Rightarrow> hist \<Rightarrow> retcode option \<times> ncThread \<times> hist"
  where
  "serve_threaded K c flags newSock T h =
     (let (r, T, h) = ncThread_start K c (CbSocket newSock) T h
      in if r = NC_FAILED then (Some NC_FAILED, T, snd (ncSocket_destroy c newSock h))
         else if flags = NC_DETACHED
         then (let (r, h) = ncThread_detach K c T h
               in (if r = NC_FAILED then Some NC_FAILED else None, T, h))
         else if flags = NC_JOINED
         then (let (r, T, h) = ncThread_join K c T h
               in (if r = NC_FAILED then Some NC_FAILED else None, T, h))
         else (None, T, h))"

text \<open>
  \<open>new\<close> may give a null pointer here, which is what the code tests for. (A compiler whose \<open>new\<close>
  throws instead leaves the function by an exception that nobody catches; that is not modelled.)
\<close>

definition serve_client ::
    "os \<Rightarrow> config \<Rightarrow> int \<Rightarrow> 32 word \<Rightarrow> fd \<Rightarrow> sockaddr_in \<Rightarrow> ncThread \<Rightarrow> hist \<Rightarrow>
     retcode option \<times> ncThread \<times> hist" where
  "serve_client K c option flags client clientaddr T h =
     (let ok = os_new K h;
          h = SysNew ok # h;
          newSock = setIpAddr (ucast (s_addr clientaddr)) (ncSocket_of_fd c client)
      in if \<not> ok then (Some NC_FAILED, T, h)
         else if option = NC_THREADED then serve_threaded K c flags newSock T h
         else (None, T, Callback (CbSocket newSock) # h))"

section \<open>The two service loops\<close>

type_synonym accept_state = "ncSocketListener \<times> ncThread \<times> hist"

definition accept_body ::
    "os \<Rightarrow> config \<Rightarrow> int \<Rightarrow> 32 word \<Rightarrow> accept_state \<Rightarrow> accept_state + (retcode \<times> accept_state)" where
  "accept_body K c option flags s =
     (let (L, T, h) = s;
          L = os_view K h L
      in if ls_listening L = 0 then Inr (NC_OK, L, T, h)
         else
           let L = os_view K h L;
               (client, clientaddr) = os_accept K h (ls_sockfd L);
               h = SysAccept (ls_sockfd L) client clientaddr # h;
               (out, T, h) = (if client \<noteq> -1 then serve_client K c option flags client clientaddr T h
                              else (None, T, SysSleep 100 # h))
           in case out of
                Some r \<Rightarrow> Inr (r, L, T, h)
              | None \<Rightarrow> (let L = os_view K h L
                         in if ls_listening L = 0 then Inr (NC_OK, L, T, h) else Inl (L, T, h)))"

text \<open>
  The datagram loop: the object, \<open>clientaddr\<close>, which a failed \<open>recvfrom\<close> leaves alone, and the
  history. The buffer is cleared before each call. \<open>junk h\<close> is the uninitialised content of a
  new \<^verbatim>\<open>udpData\<close>, whose allocation is taken to succeed. \<open>client\<close> is the local variable of the
  function; nothing is assigned to it in this branch.
\<close>

type_synonym udp_state = "ncSocketListener \<times> sockaddr_in \<times> hist"

definition udp_buffer :: "byte list \<Rightarrow> byte list" where
  "udp_buffer bytes = take 512 (bytes @ replicate 512 0)"

definition udp_body ::
    "os \<Rightarrow> config \<Rightarrow> (hist \<Rightarrow> byte list) \<Rightarrow> fd \<Rightarrow> udp_state \<Rightarrow>
     udp_state + ((fault + retcode) \<times> ncSocketListener \<times> hist)" where
  "udp_body K c junk client s =
     (let (L, clientaddr, h) = s;
          L = os_view K h L
      in if ls_listening L = 0 then Inr (Inr NC_OK, L, h)
         else
           let L = os_view K h L;
               (datasize, bytes, from, h) = k_recvfrom K (ls_sockfd L) MAX_DGRAM_BUF_LEN h;
               clientaddr = (if datasize < 0 then clientaddr else from)
           in case udpData_make c (junk h) client clientaddr (udp_buffer bytes) datasize of
                Inl f \<Rightarrow> Inr (Inl f, L, h)
              | Inr u \<Rightarrow>
                  let h = Callback (CbUdp u) # h;
                      L = os_view K h L
                  in if ls_listening L = 0 then Inr (Inr NC_OK, L, h) else Inl (L, clientaddr, h))"

section \<open>startListening\<close>

definition bad_args :: "bool \<Rightarrow> int \<Rightarrow> 32 word \<Rightarrow> bool" where
  "bad_args fnptr option flags \<longleftrightarrow>
     \<not> fnptr \<or> (option \<noteq> NC_THREADED \<and> option \<noteq> NC_NONTHREADED) \<or>
     (flags AND NC_DETACHED = 0 \<and> flags AND NC_JOINED = 0 \<and> flags AND NC_REUSEADDR = 0)"

text \<open>The part after \<open>bind\<close>: \<open>listen\<close>, non-blocking mode and the service loop.\<close>

definition serve ::
    "os \<Rightarrow> config \<Rightarrow> int \<Rightarrow> 32 word \<Rightarrow> (hist \<Rightarrow> byte list) \<Rightarrow> ncSocketListener \<Rightarrow> ncThread \<Rightarrow> hist \<Rightarrow>
     ((fault + retcode) \<times> ncSocketListener \<times> ncThread \<times> hist) option" where
  "serve K c option flags junk L T h =
     (if ls_socktype L = SOCKTYPE_TCPIP
      then
        let L = os_view K h L;
            r = os_listen K h (ls_sockfd L) (ls_backlog L);
            h = SysListen (ls_sockfd L) (ls_backlog L) r # h
        in if r = -1 then Some (Inr NC_FAILED, L, T, h)
           else
             let L = os_view K h L;
                 h = ncSetSocketNonBlocking K c (ls_sockfd L) h
             in map_option (\<lambda>(r, s). (Inr r, s)) (run_loop (accept_body K c option flags) (L, T, h))
      else if ls_socktype L = SOCKTYPE_UDP
      then map_option (\<lambda>(r, L, h). (r, L, T, h)) (run_loop (udp_body K c junk 0) (L, zero_sockaddr, h))
      else Some (Inr NC_OK, L, T, h))"

text \<open>\<open>setsockopt\<close> when \<open>NC_REUSEADDR\<close> is among the flags; whether it failed.\<close>

definition set_reuse :: "os \<Rightarrow> 32 word \<Rightarrow> ncSocketListener \<Rightarrow> hist \<Rightarrow> bool \<times> hist" where
  "set_reuse K flags L h =
     (if flags AND NC_REUSEADDR \<noteq> 0
      then (let r = os_setsockopt K h (ls_sockfd L)
            in (r = -1, SysSetsockopt (ls_sockfd L) r # h))
      else (False, h))"

text \<open>Leaving the scope of the local \<open>newThread\<close> runs its destructor.\<close>

fun leave_scope ::
    "config \<Rightarrow> (fault + retcode) \<times> ncSocketListener \<times> ncThread \<times> hist \<Rightarrow>
     (fault + retcode) \<times> ncSocketListener \<times> hist" where
  "leave_scope c (r, L, T, h) = (r, L, ncThread_destroy c T h)"

definition startListening ::
    "os \<Rightarrow> config \<Rightarrow> bool \<Rightarrow> int \<Rightarrow> 32 word \<Rightarrow> ncThread \<Rightarrow> (hist \<Rightarrow> byte list) \<Rightarrow> ncSocketListener \<Rightarrow> hist \<Rightarrow>
     ((fault + retcode) \<times> ncSocketListener \<times> hist) option" where
  "startListening K c fnptr option flags junk_thread junk L h =
     (let kind = (if ls_socktype L = SOCKTYPE_TCPIP then SOCK_STREAM else SOCK_DGRAM);
          fd = os_socket K h kind;
          L = L\<lparr>ls_sockfd := fd\<rparr>;
          h = SysSocket kind fd # h
      in if fd = 0 then Some (Inr NC_FAILED, L, h)
         else if bad_args fnptr option flags then Some (Inr NC_BADARGS, L, h)
         else
           let addr = listen_address c (ls_port L);
               L = L\<lparr>ls_listening := 1\<rparr>;
               (T, h) = ncThread_init c junk_thread h;
               L = os_view K h L;
               (failed, h) = set_reuse K flags L h
           in if failed then Some (leave_scope c (Inr NC_FAILED, L, T, h))
              else case run_loop (bind_body K c addr) (L, 0, h) of
                     None \<Rightarrow> None
                   | Some (Some r, L, h) \<Rightarrow> Some (leave_scope c (Inr r, L, T, h))
                   | Some (None, L, h) \<Rightarrow> map_option (leave_scope c) (serve K c option flags junk L T h))"

end
