(* ===== verification/Nc_Listener_Start.thy ===== *)
theory Nc_Listener_Start
  imports Nc_Listener
begin

text \<open>
  What \<open>startListening\<close> does before its service loop, and \<open>stopListening\<close>: the arguments, the
  bind loop, the descriptor. \<open>quiet h h'\<close> says that \<open>h'\<close> adds only set-up calls to \<open>h\<close>; the
  theory \<open>Nc_Listener_Serve\<close> uses \<open>startListening_phases\<close> to get to the service loops.
\<close>

section \<open>Set-up calls\<close>

fun setup_call :: "call \<Rightarrow> bool" where
  "setup_call (SysSocket k fd) = True"
| "setup_call ThreadSetup = True"
| "setup_call (ThreadCloseHandle t) = True"
| "setup_call (SysSetsockopt fd r) = True"
| "setup_call (SysBind fd a r) = True"
| "setup_call (SysListen fd n r) = True"
| "setup_call (SysSleep n) = True"
| "setup_call (SysFcntlGetfd fd w) = True"
| "setup_call (SysFcntlSetfl fd w) = True"
| "setup_call (SysIoctlNonblock fd) = True"
| "setup_call c = False"

definition quiet :: "hist \<Rightarrow> hist \<Rightarrow> bool" where
  "quiet h h' \<longleftrightarrow> (\<exists>xs. h' = xs @ h \<and> list_all setup_call xs)"

lemma quiet_refl [simp, intro]: "quiet h h"
  by (auto simp: quiet_def)

lemma quiet_step [simp]: "quiet h g \<Longrightarrow> setup_call c \<Longrightarrow> quiet h (c # g)"
  unfolding quiet_def by (metis append_Cons list.pred_inject(2))

lemma quiet_trans: "quiet h g \<Longrightarrow> quiet g k \<Longrightarrow> quiet h k"
  unfolding quiet_def by (metis append.assoc list_all_append)

lemma quiet_induct [consumes 1, case_names refl step]:
  assumes "quiet h h'" "P h" "\<And>c g. quiet h g \<Longrightarrow> P g \<Longrightarrow> setup_call c \<Longrightarrow> P (c # g)"
  shows "P h'"
proof -
  obtain xs where h': "h' = xs @ h" and xs: "list_all setup_call xs"
    using assms(1) unfolding quiet_def by blast
  from xs have "quiet h (xs @ h) \<and> P (xs @ h)"
    by (induction xs) (auto intro: assms(2,3))
  then show ?thesis by (simp add: h')
qed

lemma quiet_nonblocking: "quiet h (ncSetSocketNonBlocking K c fd h)"
  by (auto simp: ncSetSocketNonBlocking_defs Let_def)

lemma quiet_thread:
  "ncThread_init c T h = (T', h') \<Longrightarrow> quiet h h'" "quiet h (ncThread_destroy c T h)"
  by (auto simp: ncThread_init_def ncThread_destroy_def split: if_splits)

lemma quiet_closes:
  assumes "quiet h h'" shows "closes h' = closes h"
  using assms
proof (induction rule: quiet_induct)
  case (step c g) then show ?case by (cases c) auto
qed simp

lemma quiet_threads:
  assumes "quiet h h'" shows "created h' = created h \<and> freed h' = freed h"
  using assms
proof (induction rule: quiet_induct)
  case (step c g) then show ?case by (cases c) auto
qed simp

section \<open>The bind loop\<close>

primrec binds :: "hist \<Rightarrow> nat" where
  "binds [] = 0"
| "binds (c # h) = (case c of SysBind fd a r \<Rightarrow> Suc (binds h) | _ \<Rightarrow> binds h)"

primrec slept :: "hist \<Rightarrow> int" where
  "slept [] = 0"
| "slept (c # h) = (case c of SysSleep n \<Rightarrow> slept h + n | _ \<Rightarrow> slept h)"

text \<open>
  The members \<open>m_socktype\<close> and \<open>m_port\<close> are set by the constructor and by nothing else.
\<close>

definition view_doc :: "os \<Rightarrow> bool" where
  "view_doc K \<longleftrightarrow>
     (\<forall>h L. ls_socktype (os_view K h L) = ls_socktype L \<and> ls_port (os_view K h L) = ls_port L)"

text \<open>
  \<open>bind_post\<close>: how the loop ends. \<open>n\<close> attempts, at most 11; before each but the first it slept
  a second longer than before. It gives up after exactly 11, and goes on when \<open>bind\<close> succeeded,
  when it was told to stop, or when the address is in use.
\<close>

definition bind_post ::
    "os \<Rightarrow> config \<Rightarrow> hist \<Rightarrow> retcode option \<Rightarrow> ncSocketListener \<Rightarrow> hist \<Rightarrow> bool" where
  "bind_post K c h0 out L h \<longleftrightarrow>
     (let n = int (binds h) - int (binds h0)
      in 1 \<le> n \<and> n \<le> 11 \<and> slept h = slept h0 + 500 * n * (n - 1) \<and> quiet h0 h \<and>
         (\<exists>fd addr r g. h = SysBind fd addr r # g \<and>
            (out = None \<and> (r \<noteq> -1 \<or> ls_listening L = 0 \<or> ncAddrInUse c (os_errno K h)) \<or>
             out = Some NC_FAILED \<and> r = -1 \<and> n = 11)))"

lemma bind_loop:
  "\<exists>out L' h'. run_loop (bind_body K c addr) (L, 0, h) = Some (out, L', h') \<and>
     bind_post K c h out L' h' \<and> (view_doc K \<longrightarrow> ls_socktype L' = ls_socktype L)"
proof -
  let ?b = "bind_body K c addr"
  let ?I = "\<lambda>(M, n, g). 0 \<le> n \<and> n \<le> 10 \<and> int (binds g) = int (binds h) + n \<and>
    slept g = slept h + 500 * n * (n + 1) \<and> quiet h g \<and>
    (view_doc K \<longrightarrow> ls_socktype M = ls_socktype L)"
  have init: "?I (L, 0, h)" by simp
  have again: "?I s' \<and> nat (10 - fst (snd s')) < nat (10 - fst (snd s))"
    if I: "?I s" and b: "?b s = Inl s'" for s s'
  proof -
    obtain M n g where s: "s = (M, n, g)" by (cases s) auto
    from b have n: "n \<noteq> 10" and s': "\<exists>M' r fd. s' = (M', n + 1, SysSleep ((n + 1) * 1000) # SysBind fd addr r # g) \<and>
        (view_doc K \<longrightarrow> ls_socktype M' = ls_socktype M)"
      by (auto simp: bind_body_def s Let_def view_doc_def split: if_splits)
    from I n have "500 * n * (n + 1) + (n + 1) * 1000 = 500 * (n + 1) * (n + 1 + 1)"
      by (simp add: algebra_simps)
    with I n s' show ?thesis by (auto simp: s)
  qed
  have leave: "bind_post K c h out M' g' \<and> (view_doc K \<longrightarrow> ls_socktype M' = ls_socktype L)"
    if I: "?I s" and b: "?b s = Inr (out, M', g')" for s out M' g'
  proof -
    obtain M n g where s: "s = (M, n, g)" by (cases s) auto
    from b obtain fd r where g': "g' = SysBind fd addr r # g"
      and out: "out = None \<and> (r \<noteq> -1 \<or> ls_listening M' = 0 \<or> ncAddrInUse c (os_errno K g')) \<or>
        out = Some NC_FAILED \<and> r = -1 \<and> n = 10"
      and ty: "view_doc K \<longrightarrow> ls_socktype M' = ls_socktype M"
      by (auto simp: bind_body_def s Let_def view_doc_def split: if_splits)
    from I have "1 \<le> n + 1" "n + 1 \<le> 11" "int (binds g') - int (binds h) = n + 1"
      "slept g' = slept h + 500 * (n + 1) * (n + 1 - 1)" "quiet h g'"
      by (auto simp: s g' algebra_simps)
    with out g' have "bind_post K c h out M' g'"
      unfolding bind_post_def Let_def by auto
    with ty I show ?thesis by (simp add: s)
  qed
  have "\<exists>q. run_loop ?b (L, 0, h) = Some q"
    by (rule run_loop_returns [where I = ?I and m = "\<lambda>s. nat (10 - fst (snd s))", OF init again])
  then obtain out L' h' where run: "run_loop ?b (L, 0, h) = Some (out, L', h')" by force
  have "case (out, L', h') of (out, M', g') \<Rightarrow>
      bind_post K c h out M' g' \<and> (view_doc K \<longrightarrow> ls_socktype M' = ls_socktype L)"
  proof (rule run_loop_inv [OF run, where I = ?I, OF init])
    show "?I s'" if "?I s" "?b s = Inl s'" for s s' using again [OF that] by blast
    show "case r of (out, M', g') \<Rightarrow>
        bind_post K c h out M' g' \<and> (view_doc K \<longrightarrow> ls_socktype M' = ls_socktype L)"
      if "?I s" "?b s = Inr r" for s r
      using leave [of s "fst r" "fst (snd r)" "snd (snd r)"] that by (cases r) auto
  qed
  with run show ?thesis by simp
qed

section \<open>The phases of startListening\<close>

lemma view_doc_type [simp]: "view_doc K \<Longrightarrow> ls_socktype (os_view K h L) = ls_socktype L"
  by (simp add: view_doc_def)

lemma startListening_serve:
  assumes "view_doc K"
  shows "(\<exists>r L' h'. startListening K c fnptr option flags T0 junk L h = Some (Inr r, L', h') \<and>
       r \<in> {NC_FAILED, NC_BADARGS} \<and> quiet h h') \<or>
    (\<exists>M T g. startListening K c fnptr option flags T0 junk L h =
         map_option (leave_scope c) (serve K c option flags junk M T g) \<and>
       ls_socktype M = ls_socktype L \<and> quiet h g \<and> \<not> bad_args fnptr option flags)"
proof -
  define kind where "kind = (if ls_socktype L = SOCKTYPE_TCPIP then SOCK_STREAM else SOCK_DGRAM)"
  define fd where "fd = os_socket K h kind"
  show ?thesis
  proof (cases "fd = 0 \<or> bad_args fnptr option flags")
    case True
    then have "startListening K c fnptr option flags T0 junk L h =
        Some (Inr (if fd = 0 then NC_FAILED else NC_BADARGS), L\<lparr>ls_sockfd := fd\<rparr>, SysSocket kind fd # h)"
      by (auto simp: startListening_def Let_def simp flip: kind_def fd_def)
    then show ?thesis by (cases "fd = 0") auto
  next
    case False
    define h1 where "h1 = SysSocket kind fd # h"
    obtain T h2 where T: "ncThread_init c T0 h1 = (T, h2)" by fastforce
    define M where "M = os_view K h2 (L\<lparr>ls_sockfd := fd, ls_listening := 1\<rparr>)"
    obtain failed h3 where reuse: "set_reuse K flags M h2 = (failed, h3)" by fastforce
    obtain out1 M1 h4 where b: "run_loop (bind_body K c (listen_address c (ls_port L))) (M, 0, h3) =
        Some (out1, M1, h4)"
      and post: "bind_post K c h3 out1 M1 h4" and ty: "ls_socktype M1 = ls_socktype M"
      using bind_loop [of K c _ M h3] assms by blast
    have "quiet h h2" using quiet_trans [OF _ quiet_thread(1) [OF T], of h] by (simp add: h1_def)
    then have q: "quiet h h3" using reuse by (auto simp: set_reuse_def Let_def split: if_splits)
    from post have q4: "quiet h h4" unfolding bind_post_def Let_def using q quiet_trans by blast
    have ty: "ls_socktype M1 = ls_socktype L" using ty assms by (simp add: M_def)
    note fin = quiet_thread(2) [of _ c]
    have eq: "startListening K c fnptr option flags T0 junk L h =
      (if failed then Some (Inr NC_FAILED, M, ncThread_destroy c T h3)
       else case out1 of Some r \<Rightarrow> Some (Inr r, M1, ncThread_destroy c T h4)
         | None \<Rightarrow> map_option (leave_scope c) (serve K c option flags junk M1 T h4))"
      using False b T reuse
      by (simp add: startListening_def Let_def flip: kind_def fd_def h1_def M_def split: option.split)
    show ?thesis
    proof (cases "failed \<or> out1 \<noteq> None")
      case True
      with eq post quiet_trans [OF q fin] quiet_trans [OF q4 fin] show ?thesis
        by (auto simp: bind_post_def Let_def)
    next
      case nr: False
      with eq have "startListening K c fnptr option flags T0 junk L h =
          map_option (leave_scope c) (serve K c option flags junk M1 T h4)" by simp
      with q4 ty False show ?thesis by blast
    qed
  qed
qed

lemma startListening_phases:
  assumes "startListening K c fnptr option flags T0 junk L h = Some (out, L', h')" "view_doc K"
  shows "(out = Inr NC_FAILED \<or> out = Inr NC_BADARGS) \<and> quiet h h' \<or>
    (\<exists>M T g T' g'. serve K c option flags junk M T g = Some (out, L', T', g') \<and>
       ls_socktype M = ls_socktype L \<and> quiet h g \<and> quiet g' h' \<and> \<not> bad_args fnptr option flags)"
  using startListening_serve [OF assms(2), of c fnptr option flags T0 junk L h]
proof (elim disjE exE conjE)
  fix M T g
  assume eq: "startListening K c fnptr option flags T0 junk L h =
      map_option (leave_scope c) (serve K c option flags junk M T g)"
    and rest: "ls_socktype M = ls_socktype L" "quiet h g" "\<not> bad_args fnptr option flags"
  from eq assms(1) have "map_option (leave_scope c) (serve K c option flags junk M T g) =
      Some (out, L', h')" by simp
  then obtain T' g' where "serve K c option flags junk M T g = Some (out, L', T', g')"
    "h' = ncThread_destroy c T' g'" by (auto simp: map_option_eq_Some)
  with rest quiet_thread(2) show ?thesis by blast
qed (use assms(1) in auto)

section \<open>Properties\<close>

text \<open>
  C29: the bind loop ends, whatever \<open>bind\<close> does, after at most 11 attempts and at most 55 seconds
  of sleep; \<open>bind_post\<close> says which of its exits it takes.
\<close>

theorem bind_attempts:
  "\<exists>out L' h'. run_loop (bind_body K c addr) (L, 0, h) = Some (out, L', h') \<and>
     bind_post K c h out L' h' \<and> binds h' \<le> binds h + 11 \<and> slept h' \<le> slept h + 55000"
proof -
  obtain out L' h' where run: "run_loop (bind_body K c addr) (L, 0, h) = Some (out, L', h')"
    and post: "bind_post K c h out L' h'" using bind_loop by blast
  define n where "n = int (binds h') - int (binds h)"
  from post have n: "1 \<le> n" "n \<le> 11" and sl: "slept h' = slept h + 500 * n * (n - 1)"
    by (simp_all add: bind_post_def n_def Let_def)
  have "500 * n * (n - 1) \<le> 500 * n * 10" using n by (intro mult_left_mono) auto
  also have "\<dots> \<le> 55000" using n by simp
  finally have "slept h' \<le> slept h + 55000" using sl by simp
  moreover have "binds h' \<le> binds h + 11" using n by (simp add: n_def)
  ultimately show ?thesis using run post by blast
qed

text \<open>
  An address in use, the failure one expects of \<open>bind\<close>, is not retried and not reported: the
  loop is left after one attempt as if \<open>bind\<close> had succeeded, and the code goes on to \<open>listen\<close> on
  a socket without that address.
\<close>

lemma bind_address_in_use:
  assumes "\<forall>g fd a. os_bind K g fd a = -1" "\<forall>g. ncAddrInUse c (os_errno K g)"
    and "\<forall>g M. os_view K g M = M" "ls_listening L \<noteq> 0"
  shows "run_loop (bind_body K c addr) (L, 0, h) = Some (None, L, SysBind (ls_sockfd L) addr (-1) # h) \<and>
    (ls_socktype L = SOCKTYPE_TCPIP \<longrightarrow> os_listen K (SysBind (ls_sockfd L) addr (-1) # h)
        (ls_sockfd L) (ls_backlog L) = -1 \<longrightarrow>
      serve K c option flags junk L T (SysBind (ls_sockfd L) addr (-1) # h) =
        Some (Inr NC_FAILED, L, T, SysListen (ls_sockfd L) (ls_backlog L) (-1) #
          SysBind (ls_sockfd L) addr (-1) # h))"
  using assms by (simp add: bind_body_def serve_def Let_def)

text \<open>
  The arguments are checked after the socket has been opened, and each start overwrites the
  descriptor of the one before: two starts with bad arguments and the destructor close only the
  second socket.
\<close>

lemma start_leaks_socket:
  assumes bad: "bad_args fnptr option flags" and "a \<noteq> 0" "b \<noteq> 0" "b \<noteq> -1"
    and kind: "kind = (if ls_socktype L = SOCKTYPE_TCPIP then SOCK_STREAM else SOCK_DGRAM)"
    and "os_socket K h kind = a" "os_socket K (SysSocket kind a # h) kind = b"
  shows "\<exists>L1 h1 L2 h2.
    startListening K c fnptr option flags T junk L h = Some (Inr NC_BADARGS, L1, h1) \<and>
    startListening K c fnptr option flags T junk L1 h1 = Some (Inr NC_BADARGS, L2, h2) \<and>
    closes (ncSocketListener_destroy L2 h2) = closes h @ [b]"
proof -
  have 1: "startListening K c fnptr option flags T junk M g =
      Some (Inr NC_BADARGS, M\<lparr>ls_sockfd := os_socket K g kind\<rparr>, SysSocket kind (os_socket K g kind) # g)"
    if "ls_socktype M = ls_socktype L" "os_socket K g kind \<noteq> 0" for M g
    using that bad by (simp add: startListening_def Let_def kind)
  from 1 [of L h] 1 [of "L\<lparr>ls_sockfd := a\<rparr>" "SysSocket kind a # h"] assms show ?thesis
    by (auto simp: ncSocketListener_destroy_def)
qed

text \<open>
  C24: \<open>stopListening\<close> clears the flag, waits a quarter of a second and closes the listening
  socket if there is one. Neither a second \<open>stopListening\<close> nor the destructor closes it again.
\<close>

lemma stop_closes_once:
  "let (L1, h1) = stopListening L h; (L2, h2) = stopListening L1 h1;
       once = closes h @ (if ls_sockfd L \<in> {0, -1} then [] else [ls_sockfd L])
   in ls_listening L1 = 0 \<and> slept h1 = slept h + 250 \<and> L2 = L1 \<and>
     closes (ncSocketListener_destroy L1 h1) = once \<and> closes (ncSocketListener_destroy L2 h2) = once"
  by (simp add: stopListening_def ncSocketListener_destroy_def Let_def)

end
