(* ===== verification/Nc_Listener_Serve.thy ===== *)
theory Nc_Listener_Serve
  imports Nc_Listener_Start
begin

text \<open>
  What the service loops of \<open>startListening\<close> do with connections and datagrams: which are handed
  to the callback, what becomes of the threads and descriptors, and when the loops end.
\<close>

section \<open>Reading a history\<close>

text \<open>Connections that were accepted, and those that reached the callback, oldest first.\<close>

primrec accepted :: "hist \<Rightarrow> (fd \<times> sockaddr_in) list" where
  "accepted [] = []"
| "accepted (e # h) =
     (case e of SysAccept s fd a \<Rightarrow> accepted h @ (if fd \<noteq> -1 then [(fd, a)] else []) | _ \<Rightarrow> accepted h)"

definition thread_ran :: "config \<Rightarrow> int \<Rightarrow> nat \<Rightarrow> bool" where
  "thread_ran c e t \<longleftrightarrow> (if threads c = WinThreads then t \<noteq> 0 else e = 0)"

primrec handed :: "config \<Rightarrow> hist \<Rightarrow> ncSocket list" where
  "handed c [] = []"
| "handed c (e # h) =
     (case e of Callback (CbSocket S) \<Rightarrow> handed c h @ [S]
              | ThreadCreate (CbSocket S) r t \<Rightarrow> handed c h @ (if thread_ran c r t then [S] else [])
              | _ \<Rightarrow> handed c h)"

text \<open>The object a callback should get for a connection.\<close>

definition client_socket :: "config \<Rightarrow> fd \<times> sockaddr_in \<Rightarrow> ncSocket" where
  "client_socket c x = setIpAddr (ucast (s_addr (snd x))) (ncSocket_of_fd c (fst x))"

text \<open>Datagrams that were received, and the objects that reached the callback.\<close>

primrec datagrams :: "hist \<Rightarrow> (byte list \<times> sockaddr_in) list" where
  "datagrams [] = []"
| "datagrams (e # h) =
     (case e of SysRecvfrom fd n r bs a \<Rightarrow> datagrams h @ (if 0 \<le> r then [(bs, a)] else [])
              | _ \<Rightarrow> datagrams h)"

primrec delivered :: "hist \<Rightarrow> udpData list" where
  "delivered [] = []"
| "delivered (e # h) = (case e of Callback (CbUdp u) \<Rightarrow> delivered h @ [u] | _ \<Rightarrow> delivered h)"

text \<open>How often a service loop went to the kernel for a client.\<close>

primrec rounds :: "hist \<Rightarrow> nat" where
  "rounds [] = 0"
| "rounds (e # h) =
     (case e of SysAccept s fd a \<Rightarrow> Suc (rounds h) | SysRecvfrom fd n r bs a \<Rightarrow> Suc (rounds h)
              | _ \<Rightarrow> rounds h)"

lemma quiet_service:
  assumes "quiet h h'"
  shows "accepted h' = accepted h \<and> handed c h' = handed c h \<and> datagrams h' = datagrams h \<and>
    delivered h' = delivered h \<and> rounds h' = rounds h"
  using assms
proof (induction rule: quiet_induct)
  case (step e g) then show ?case by (cases e) auto
qed simp

lemmas quiet_frame = quiet_service quiet_closes quiet_threads

section \<open>One connection\<close>

text \<open>
  Served: the callback got the connection's object and no descriptor was closed. Or not: then
  the thread could not be created, the descriptor was closed and the whole function fails.
\<close>

lemma serve_client_hands_over:
  assumes "serve_client K c option flags fd a T h = (out, T', h')" "os_new K h"
    and "option \<noteq> NC_THREADED \<or> threads c \<noteq> NoThreads" "fd \<noteq> -1"
  shows "accepted h' = accepted h \<and> rounds h' = rounds h \<and> (out = None \<or> out = Some NC_FAILED) \<and>
    (handed c h' = handed c h @ [client_socket c (fd, a)] \<and> closes h' = closes h \<or>
     out = Some NC_FAILED \<and> handed c h' = handed c h \<and>
       closes h' = closes h @ (if fd_positive c fd then [fd] else []))"
  using assms
  by (auto simp: serve_client_def serve_threaded_def ncThread_start_alt ncThread_detach_alt
      ncThread_join_alt client_socket_def thread_ran_def ncSocket_destroy_def setIpAddr_def
      ncSocket_of_fd_def Let_def split: if_splits prod.splits)

lemma serve_client_frame:
  assumes "serve_client K c option flags fd a T h = (out, T', h')"
  shows "accepted h' = accepted h \<and> rounds h' = rounds h \<and> (out = None \<or> out = Some NC_FAILED)"
  using assms
  by (auto simp: serve_client_def serve_threaded_def ncThread_start_alt ncThread_detach_alt
      ncThread_join_alt ncSocket_destroy_def setIpAddr_def
      ncSocket_of_fd_def Let_def split: if_splits prod.splits)

definition releasing :: "32 word \<Rightarrow> bool" where
  "releasing flags \<longleftrightarrow> flags = NC_DETACHED \<or> flags = NC_JOINED"

lemma serve_client_threads:
  assumes "serve_client K c NC_THREADED flags fd a T h = (None, T', h')" "threads c = PThreads"
  shows "\<exists>t. created h' = created h @ [t] \<and> freed h' = freed h @ (if releasing flags then [t] else [])"
proof -
  define S where "S = setIpAddr (ucast (s_addr a)) (ncSocket_of_fd c fd)"
  obtain r1 T1 h1 where s: "ncThread_start K c (CbSocket S) T (SysNew (os_new K h) # h) = (r1, T1, h1)"
    by (metis prod_cases3)
  with assms(1) have r1: "r1 \<noteq> NC_FAILED"
    by (auto simp: serve_client_def serve_threaded_def S_def Let_def split: if_splits)
  with ncThread_start_result [OF s] have ok: "r1 = NC_OK" by blast
  note law = pthreads.start_law [OF s assms(2)]
  show ?thesis
  proof (cases "releasing flags")
    case False
    with assms(1) s ok have "h' = h1"
      by (auto simp: serve_client_def serve_threaded_def releasing_def S_def Let_def split: if_splits)
    with law ok False show ?thesis by auto
  next
    case True
    then consider (d) "flags = NC_DETACHED" | (j) "flags = NC_JOINED" "flags \<noteq> NC_DETACHED"
      by (auto simp: releasing_def)
    then show ?thesis
    proof cases
      case d
      obtain r2 h2 where "ncThread_detach K c T1 h1 = (r2, h2)" by fastforce
      with assms(1) s ok d pthreads.detach_law [OF this assms(2)] law True show ?thesis
        by (auto simp: serve_client_def serve_threaded_def S_def Let_def split: if_splits)
    next
      case j
      obtain r2 T2 h2 where "ncThread_join K c T1 h1 = (r2, T2, h2)" by (metis prod_cases3)
      with assms(1) s ok j pthreads.join_law [OF this assms(2)] law True show ?thesis
        by (auto simp: serve_client_def serve_threaded_def S_def Let_def split: if_splits)
    qed
  qed
qed

section \<open>The accept loop\<close>

text \<open>
  One trip round the loop, as cases: it was told to stop; nothing was there to accept; a client was
  served, which may end the function.
\<close>

lemma accept_body_cases:
  assumes "accept_body K c option flags (L, T, h) = z"
  obtains (stopped) M where "z = Inr (NC_OK, M, T, h)" "ls_listening M = 0"
  | (none) s a where "ls_listening (os_view K h L) \<noteq> 0"
      "(\<exists>M. z = Inl (M, T, SysSleep 100 # SysAccept s (-1) a # h)) \<or>
       (\<exists>M. z = Inr (NC_OK, M, T, SysSleep 100 # SysAccept s (-1) a # h))"
  | (client) s fd a out T' h' where "ls_listening (os_view K h L) \<noteq> 0" "fd \<noteq> -1"
      "serve_client K c option flags fd a T (SysAccept s fd a # h) = (out, T', h')"
      "case out of Some r \<Rightarrow> \<exists>M. z = Inr (r, M, T', h')
         | None \<Rightarrow> (\<exists>M. z = Inl (M, T', h')) \<or> (\<exists>M. z = Inr (NC_OK, M, T', h'))"
proof (cases "ls_listening (os_view K h L) = 0")
  case True
  with assms stopped show ?thesis by (auto simp: accept_body_def Let_def)
next
  case l: False
  define M where "M = os_view K h (os_view K h L)"
  obtain fd a where acc: "os_accept K h (ls_sockfd M) = (fd, a)" by fastforce
  show ?thesis
  proof (cases "fd = -1")
    case True
    show ?thesis
      by (rule none [of "ls_sockfd M" a])
        (use assms l acc True in \<open>auto simp: accept_body_def Let_def M_def\<close>)
  next
    case False
    obtain out T' h' where s: "serve_client K c option flags fd a T (SysAccept (ls_sockfd M) fd a # h) =
        (out, T', h')" by (metis prod_cases3)
    show ?thesis
      by (rule client [OF l False s])
        (use assms l acc False s in \<open>auto simp: accept_body_def Let_def M_def split: option.split\<close>)
  qed
qed

text \<open>Invariants of the accept loop in general: \<open>P\<close> is kept by every trip.\<close>

lemma accept_loop_keeps:
  assumes run: "run_loop (accept_body K c option flags) (L, T, h) = Some (r, L', T', h')" and "P h"
    and idle: "\<And>g s a. P g \<Longrightarrow> P (SysSleep 100 # SysAccept s (-1) a # g)"
    and serve: "\<And>g s fd a out U U' g'. P g \<Longrightarrow> fd \<noteq> -1 \<Longrightarrow>
      serve_client K c option flags fd a U (SysAccept s fd a # g) = (out, U', g') \<Longrightarrow>
      (case out of None \<Rightarrow> P g' | Some r \<Rightarrow> Q r g')"
    and leave: "\<And>g. P g \<Longrightarrow> Q NC_OK g"
  shows "Q r h'"
proof -
  let ?I = "\<lambda>(M :: ncSocketListener, T :: ncThread, g). P g" and ?b = "accept_body K c option flags"
  have step: "case ?b s of Inl s' \<Rightarrow> ?I s' | Inr (r, M, T, g) \<Rightarrow> Q r g" if I: "?I s" for s
  proof -
    obtain M U g where s: "s = (M, U, g)" by (cases s)
    with I have I: "P g" by simp
    show ?thesis
    proof (cases rule: accept_body_cases [of K c option flags M U g "?b (M, U, g)", OF refl])
      case 1 with leave [OF I] show ?thesis by (simp add: s)
    next
      case (2 sl a) with idle [OF I, of sl a] leave [OF idle [OF I, of sl a]] show ?thesis
        by (auto simp: s)
    next
      case (3 sl fd a out U' g')
      with serve [OF I 3(2,3)] leave [of g'] show ?thesis by (auto simp: s split: option.splits)
    qed
  qed
  have "case (r, L', T', h') of (r, M, T, g) \<Rightarrow> Q r g"
  proof (rule run_loop_inv [OF run, where I = ?I])
    show "?I (L, T, h)" using \<open>P h\<close> by simp
    show "?I s'" if "?I s" "?b s = Inl s'" for s s' using step [OF that(1)] that(2) by simp
    show "case q of (r, M, T, g) \<Rightarrow> Q r g" if "?I s" "?b s = Inr q" for s q
      using step [OF that(1)] that(2) by simp
  qed
  then show ?thesis by simp
qed

text \<open>
  \<open>clients_post\<close>: of the connections accepted since \<open>h0\<close>, all were handed over, in order, and
  nothing was closed; or all but a last one, whose descriptor was closed and which failed the call.
\<close>

definition clients_post :: "config \<Rightarrow> hist \<Rightarrow> retcode \<Rightarrow> hist \<Rightarrow> bool" where
  "clients_post c h0 r h \<longleftrightarrow>
     (\<exists>new rest. accepted h = accepted h0 @ new @ rest \<and>
        handed c h = handed c h0 @ map (client_socket c) new \<and>
        (rest = [] \<and> closes h = closes h0 \<or>
         (\<exists>fd a. rest = [(fd, a)] \<and> r = NC_FAILED \<and>
            closes h = closes h0 @ (if fd_positive c fd then [fd] else []))))"

definition all_handed :: "config \<Rightarrow> hist \<Rightarrow> hist \<Rightarrow> bool" where
  "all_handed c h0 h \<longleftrightarrow> closes h = closes h0 \<and>
     (\<exists>new. accepted h = accepted h0 @ new \<and> handed c h = handed c h0 @ map (client_socket c) new)"

lemma all_handed_post: "all_handed c h0 h \<Longrightarrow> clients_post c h0 r h"
  unfolding all_handed_def clients_post_def by (metis append_Nil2)

lemma serve_client_post:
  assumes "all_handed c h0 h" "serve_client K c option flags fd a T (SysAccept s fd a # h) = (out, T', h')"
    and "fd \<noteq> -1" "\<forall>g. os_new K g" "option \<noteq> NC_THREADED \<or> threads c \<noteq> NoThreads"
  shows "case out of None \<Rightarrow> all_handed c h0 h' | Some r \<Rightarrow> clients_post c h0 r h'"
proof -
  from assms(1) obtain new where acc: "accepted h = accepted h0 @ new" and cl: "closes h = closes h0"
    and hd: "handed c h = handed c h0 @ map (client_socket c) new" by (auto simp: all_handed_def)
  from serve_client_hands_over [OF assms(2) _ assms(5,3)] assms(3,4)
  have acc': "accepted h' = accepted h0 @ new @ [(fd, a)]" and out: "out = None \<or> out = Some NC_FAILED"
    and ends: "handed c h' = handed c h0 @ map (client_socket c) (new @ [(fd, a)]) \<and> closes h' = closes h0 \<or>
      out = Some NC_FAILED \<and> handed c h' = handed c h0 @ map (client_socket c) new \<and>
        closes h' = closes h0 @ (if fd_positive c fd then [fd] else [])"
    by (simp_all add: acc hd cl)
  from ends show ?thesis
  proof (rule disjE)
    assume "handed c h' = handed c h0 @ map (client_socket c) (new @ [(fd, a)]) \<and> closes h' = closes h0"
    with acc' have "all_handed c h0 h'" unfolding all_handed_def by blast
    then show ?thesis using all_handed_post by (auto split: option.split)
  next
    assume "out = Some NC_FAILED \<and> handed c h' = handed c h0 @ map (client_socket c) new \<and>
        closes h' = closes h0 @ (if fd_positive c fd then [fd] else [])"
    with acc' show ?thesis unfolding clients_post_def by fastforce
  qed
qed

lemma accept_loop_hands_over:
  assumes run: "run_loop (accept_body K c option flags) (L, T, h) = Some (r, L', T', h')"
    and new: "\<forall>g. os_new K g" and opt: "option \<noteq> NC_THREADED \<or> threads c \<noteq> NoThreads"
  shows "clients_post c h r h'"
proof (rule accept_loop_keeps [OF run, where P = "all_handed c h"])
  show "all_handed c h h" by (auto simp: all_handed_def)
  show "all_handed c h (SysSleep 100 # SysAccept s (-1) a # g)" if "all_handed c h g" for g s a
    using that by (simp add: all_handed_def)
  show "case out of None \<Rightarrow> all_handed c h g' | Some r \<Rightarrow> clients_post c h r g'"
    if "all_handed c h g" "fd \<noteq> -1"
      "serve_client K c option flags fd a U (SysAccept s fd a # g) = (out, U', g')"
    for g s fd a out U U' g'
    by (rule serve_client_post [OF that(1,3,2) new opt])
qed (rule all_handed_post)

lemma accept_loop_threads:
  assumes run: "run_loop (accept_body K c NC_THREADED flags) (L, T, h) = Some (NC_OK, L', T', h')"
    and "threads c = PThreads"
  shows "\<exists>ts. created h' = created h @ ts \<and> freed h' = freed h @ (if releasing flags then ts else [])"
proof -
  let ?P = "\<lambda>g. \<exists>ts. created g = created h @ ts \<and> freed g = freed h @ (if releasing flags then ts else [])"
  have "NC_OK = NC_OK \<longrightarrow> ?P h'"
  proof (rule accept_loop_keeps [OF run, where P = ?P and Q = "\<lambda>r g. r = NC_OK \<longrightarrow> ?P g"])
    show "case out of None \<Rightarrow> ?P g' | Some r \<Rightarrow> r = NC_OK \<longrightarrow> ?P g'"
      if P: "?P g" and s: "serve_client K c NC_THREADED flags fd a U (SysAccept s fd a # g) = (out, U', g')"
      for g s fd a out U U' g'
    proof (cases out)
      case None
      from P obtain ts where ts: "created g = created h @ ts"
        "freed g = freed h @ (if releasing flags then ts else [])" by blast
      from serve_client_threads [OF s [unfolded None] assms(2)] obtain t where
        "created g' = created h @ ts @ [t]"
        "freed g' = freed h @ (if releasing flags then ts @ [t] else [])" using ts by auto
      then show ?thesis using None by auto
    next
      case (Some r)
      with serve_client_frame [OF s] show ?thesis by simp
    qed
  qed simp_all
  then show ?thesis by simp
qed

lemma serve_tcp:
  assumes "serve K c option flags junk L T h = Some (out, L', T', h')" "ls_socktype L = SOCKTYPE_TCPIP"
  shows "out = Inr NC_FAILED \<and> quiet h h' \<or>
    (\<exists>M g r. quiet h g \<and> out = Inr r \<and>
       run_loop (accept_body K c option flags) (M, T, g) = Some (r, L', T', h'))"
proof -
  define M where "M = os_view K h L"
  define g where "g = SysListen (ls_sockfd M) (ls_backlog M) (os_listen K h (ls_sockfd M) (ls_backlog M)) # h"
  define g2 where "g2 = ncSetSocketNonBlocking K c (ls_sockfd (os_view K g M)) g"
  have "quiet h g2" unfolding g2_def using quiet_trans [OF _ quiet_nonblocking] by (simp add: g_def)
  moreover have "serve K c option flags junk L T h =
      (if os_listen K h (ls_sockfd M) (ls_backlog M) = -1 then Some (Inr NC_FAILED, M, T, g)
       else map_option (\<lambda>(r, s). (Inr r, s))
         (run_loop (accept_body K c option flags) (os_view K g M, T, g2)))"
    by (simp add: serve_def assms(2) Let_def g2_def g_def M_def)
  moreover have "quiet h g" by (simp add: g_def)
  ultimately have "out = Inr NC_FAILED \<and> h' = g \<or>
      map_option (\<lambda>(r, s). (Inr r, s)) (run_loop (accept_body K c option flags) (os_view K g M, T, g2)) =
        Some (out, L', T', h')"
    using assms(1) by (simp split: if_splits)
  with \<open>quiet h g\<close> \<open>quiet h g2\<close> show ?thesis
    by (auto simp: map_option_eq_Some)
qed

lemma startListening_tcp:
  assumes "startListening K c fnptr option flags T0 junk L h = Some (out, L', h')" "view_doc K"
    and "ls_socktype L = SOCKTYPE_TCPIP"
  shows "(out = Inr NC_FAILED \<or> out = Inr NC_BADARGS) \<and> quiet h h' \<or>
    (\<exists>M T g r T' g'. out = Inr r \<and> quiet h g \<and> quiet g' h' \<and>
       option \<in> {NC_THREADED, NC_NONTHREADED} \<and>
       run_loop (accept_body K c option flags) (M, T, g) = Some (r, L', T', g'))"
  using startListening_phases [OF assms(1,2)]
proof (elim disjE exE conjE)
  fix M T g T' g'
  assume s: "serve K c option flags junk M T g = Some (out, L', T', g')" and q: "quiet h g" "quiet g' h'"
    and "ls_socktype M = ls_socktype L" and args: "\<not> bad_args fnptr option flags"
  then have "ls_socktype M = SOCKTYPE_TCPIP" using assms(3) by simp
  from serve_tcp [OF s this] show ?thesis
  proof (elim disjE exE conjE)
    assume "out = Inr NC_FAILED" "quiet g g'"
    with q show ?thesis using quiet_trans by blast
  next
    fix M' k r
    assume "quiet g k" "out = Inr r"
      "run_loop (accept_body K c option flags) (M', T, k) = Some (r, L', T', g')"
    moreover have "option \<in> {NC_THREADED, NC_NONTHREADED}"
      using args unfolding bad_args_def by blast
    ultimately show ?thesis using quiet_trans [OF q(1)] q(2) by blast
  qed
qed simp_all

lemma startListening_hands_over:
  assumes "startListening K c fnptr option flags T junk L h = Some (out, L', h')"
    and "ls_socktype L = SOCKTYPE_TCPIP" "view_doc K" "\<forall>g. os_new K g"
    and "option \<noteq> NC_THREADED \<or> threads c \<noteq> NoThreads"
  shows "\<exists>r. out = Inr r \<and> clients_post c h r h'"
  using startListening_tcp [OF assms(1,3,2)]
proof (elim disjE exE conjE)
  fix M U g r U' g'
  assume "out = Inr r" "quiet h g" "quiet g' h'"
    and run: "run_loop (accept_body K c option flags) (M, U, g) = Some (r, L', U', g')"
  with accept_loop_hands_over [OF run assms(4,5)] show ?thesis
    using quiet_frame [of h g] quiet_frame [of g' h'] by (simp add: clients_post_def)
next
  assume "out = Inr NC_FAILED" "quiet h h'"
  then show ?thesis using quiet_frame [of h h'] by (simp add: clients_post_def)
next
  assume "out = Inr NC_BADARGS" "quiet h h'"
  then show ?thesis using quiet_frame [of h h'] by (simp add: clients_post_def)
qed

section \<open>The datagram loop\<close>

definition datagram_ok :: "byte list \<times> sockaddr_in \<Rightarrow> udpData \<Rightarrow> bool" where
  "datagram_ok d u \<longleftrightarrow> udpData_getSockfd u = 0 \<and> udpData_getClientAddr u = snd d \<and>
     udpData_getLength u = int (length (fst d)) \<and>
     take (length (fst d)) (udpData_getData u) = fst d"

text \<open>Every datagram received since \<open>h0\<close> was delivered, in order, each in an object of its own.\<close>

definition all_delivered :: "hist \<Rightarrow> hist \<Rightarrow> bool" where
  "all_delivered h0 h \<longleftrightarrow> (\<exists>new us. datagrams h = datagrams h0 @ new \<and>
     delivered h = delivered h0 @ us \<and> list_all2 datagram_ok new us)"

lemma length_udp_buffer [simp]: "length (udp_buffer bs) = 512"
  by (simp add: udp_buffer_def)

lemma take_udp_buffer: "length bs \<le> 512 \<Longrightarrow> take (length bs) (udp_buffer bs) = bs"
  by (simp add: udp_buffer_def)

lemma udp_received:
  assumes "recv_result 512 n bs" "0 \<le> n"
  shows "\<exists>u. udpData_make c junk 0 a (udp_buffer bs) n = Inr u \<and> datagram_ok (bs, a) u"
proof -
  from assms have n: "n = int (length bs)" "length bs \<le> 512" "NC_MIN n 512 = n"
    by (auto simp: recv_result_def NC_MIN_def)
  with udpData_make_ok [OF assms(2), of "udp_buffer bs" c junk 0 a] take_udp_buffer [of bs]
  show ?thesis by (simp add: datagram_ok_def udp_getters)
qed

text \<open>A trip round the loop: stopped, a failed \<open>recvfrom\<close>, or a delivery.\<close>

lemma udp_body_cases:
  assumes "udp_body K c junk 0 (L, a0, h) = z" "recv_doc K"
  obtains (stopped) M where "z = Inr (Inr NC_OK, M, h)" "ls_listening M = 0"
  | (failed) s bs a M n where "z = Inr (Inl (Memcpy_overrun n), M, SysRecvfrom s 512 (-1) bs a # h)"
      "2 ^ 31 \<le> n" "ls_listening (os_view K h L) \<noteq> 0" "os_recvfrom K h s 512 = (-1, bs, a)"
  | (datagram) s n bs a u M where "ls_listening (os_view K h L) \<noteq> 0" "0 \<le> n" "datagram_ok (bs, a) u"
      "z = Inl (M, a, Callback (CbUdp u) # SysRecvfrom s 512 n bs a # h) \<or>
       z = Inr (Inr NC_OK, M, Callback (CbUdp u) # SysRecvfrom s 512 n bs a # h)"
proof (cases "ls_listening (os_view K h L) = 0")
  case True
  with assms stopped show ?thesis by (auto simp: udp_body_def Let_def)
next
  case l: False
  define M where "M = os_view K h (os_view K h L)"
  obtain n bs a where r: "os_recvfrom K h (ls_sockfd M) 512 = (n, bs, a)" by (metis prod_cases3)
  have res: "recv_result 512 n bs" by (rule recv_docD(2) [OF assms(2) _ r]) simp
  let ?h = "SysRecvfrom (ls_sockfd M) 512 n bs a # h"
  show ?thesis
  proof (cases "0 \<le> n")
    case True
    obtain u where u: "udpData_make c (junk ?h) 0 a (udp_buffer bs) n = Inr u" "datagram_ok (bs, a) u"
      using udp_received [OF res True] by blast
    show ?thesis
      by (rule datagram [OF l True u(2)])
        (use assms(1) l r True u(1) in
          \<open>auto simp: udp_body_def k_recvfrom_def MAX_DGRAM_BUF_LEN_def Let_def M_def\<close>)
  next
    case False
    then have n: "n = -1" using res by (simp add: recv_result_def)
    obtain m where m: "2 ^ 31 \<le> m"
      "udpData_make c (junk ?h) 0 a0 (udp_buffer bs) n = Inl (Memcpy_overrun m)"
      using udpData_make_negative [of n c "junk ?h" 0 a0 "udp_buffer bs"] n by auto
    show ?thesis
      by (rule failed [of m M "ls_sockfd M" bs a])
        (use assms(1) l r n m in
          \<open>auto simp: udp_body_def k_recvfrom_def MAX_DGRAM_BUF_LEN_def Let_def M_def\<close>)
  qed
qed

definition udp_post :: "hist \<Rightarrow> (fault + retcode) \<Rightarrow> hist \<Rightarrow> bool" where
  "udp_post h0 out h \<longleftrightarrow> all_delivered h0 h \<and> closes h = closes h0 \<and>
     (out = Inr NC_OK \<or>
      (\<exists>n s bs a g. out = Inl (Memcpy_overrun n) \<and> 2 ^ 31 \<le> n \<and> h = SysRecvfrom s 512 (-1) bs a # g))"

lemma all_delivered_step:
  assumes "all_delivered h0 h" "datagram_ok (bs, a) u" "0 \<le> n"
  shows "all_delivered h0 (Callback (CbUdp u) # SysRecvfrom s 512 n bs a # h)"
proof -
  obtain new us where "datagrams h = datagrams h0 @ new" "delivered h = delivered h0 @ us"
    "list_all2 datagram_ok new us" using assms(1) unfolding all_delivered_def by blast
  then show ?thesis
    using assms(2,3) unfolding all_delivered_def
    by (intro exI [of _ "new @ [(bs, a)]"] exI [of _ "us @ [u]"])
      (auto intro: list_all2_appendI)
qed

lemma udp_loop_delivers:
  assumes run: "run_loop (udp_body K c junk 0) (L, a0, h) = Some (out, L', h')" and doc: "recv_doc K"
  shows "udp_post h out h'"
proof -
  let ?I = "\<lambda>(M :: ncSocketListener, a :: sockaddr_in, g). all_delivered h g \<and> closes g = closes h"
  let ?b = "udp_body K c junk 0"
  have step: "case ?b s of Inl s' \<Rightarrow> ?I s' | Inr (out, M, g) \<Rightarrow> udp_post h out g" if I: "?I s" for s
  proof -
    obtain M b g where s: "s = (M, b, g)" by (cases s)
    with I have I: "all_delivered h g" "closes g = closes h" by simp_all
    show ?thesis
    proof (cases rule: udp_body_cases [of K c junk M b g "?b (M, b, g)", OF refl doc])
      case 1 with I show ?thesis by (simp add: s udp_post_def)
    next
      case (2 sl bs a M' n) with I show ?thesis by (simp add: s udp_post_def all_delivered_def)
    next
      case (3 sl n bs a u M')
      with I all_delivered_step [OF I(1) 3(3,2), of sl] show ?thesis by (auto simp: s udp_post_def)
    qed
  qed
  have "case (out, L', h') of (out, M, g) \<Rightarrow> udp_post h out g"
  proof (rule run_loop_inv [OF run, where I = ?I])
    show "?I (L, a0, h)" by (simp add: all_delivered_def)
    show "?I s'" if "?I s" "?b s = Inl s'" for s s' using step [OF that(1)] that(2) by simp
    show "case q of (out, M, g) \<Rightarrow> udp_post h out g" if "?I s" "?b s = Inr q" for s q
      using step [OF that(1)] that(2) by simp
  qed
  then show ?thesis by simp
qed

section \<open>The end of the loops\<close>

text \<open>
  \<open>stops_after N\<close>: once the program has gone to the kernel for a client \<open>N\<close> times, another
  thread has called \<open>stopListening\<close>.
\<close>

definition stops_after :: "os \<Rightarrow> nat \<Rightarrow> bool" where
  "stops_after K N \<longleftrightarrow> (\<forall>g L. N \<le> rounds g \<longrightarrow> ls_listening (os_view K g L) = 0)"

lemma stops_afterD: "stops_after K N \<Longrightarrow> ls_listening (os_view K g L) \<noteq> 0 \<Longrightarrow> rounds g < N"
  unfolding stops_after_def by (meson not_le)

lemma rounds_loop:
  assumes step: "\<And>M x g. rounds g \<le> B \<Longrightarrow> case body (M, x, g) of
      Inl (M', x', g') \<Rightarrow> rounds g < N \<and> rounds g' = Suc (rounds g) |
      Inr r \<Rightarrow> rounds (last_hist r) \<le> B"
    and "N \<le> B" "rounds h \<le> B"
  shows "\<exists>r. run_loop body (L :: ncSocketListener, x, h) = Some r \<and> rounds (last_hist r) \<le> B"
proof -
  let ?I = "\<lambda>(M :: ncSocketListener, x :: 'a, g). rounds g \<le> B"
  have again: "?I s' \<and> N - rounds (snd (snd s')) < N - rounds (snd (snd s))"
    if "?I s" "body s = Inl s'" for s s'
    using that step [of "snd (snd s)" "fst s" "fst (snd s)"] assms(2)
    by (cases s; cases s') auto
  have "\<exists>r. run_loop body (L, x, h) = Some r"
    by (rule run_loop_returns [where I = ?I and m = "\<lambda>s. N - rounds (snd (snd s))"])
      (use assms(3) again in auto)
  then obtain r where run: "run_loop body (L, x, h) = Some r" by blast
  have "rounds (last_hist r) \<le> B"
  proof (rule run_loop_inv [OF run, where I = ?I])
    show "?I (L, x, h)" using assms(3) by simp
    show "?I s'" if "?I s" "body s = Inl s'" for s s' using again [OF that] by blast
    show "rounds (last_hist r) \<le> B" if "?I s" "body s = Inr r" for s r
      using that step [of "snd (snd s)" "fst s" "fst (snd s)"] by (cases s) auto
  qed
  with run show ?thesis by blast
qed

lemma accept_loop_stops:
  assumes "stops_after K N"
  shows "\<exists>r L' T' h'. run_loop (accept_body K c option flags) (L, T, h) = Some (r, L', T', h') \<and>
    rounds h' \<le> max N (rounds h)"
proof -
  have "\<exists>q. run_loop (accept_body K c option flags) (L, T, h) = Some q \<and>
      rounds (snd (snd (snd q))) \<le> max N (rounds h)"
  proof (rule rounds_loop [where N = N])
    fix M and U :: ncThread and g
    assume b: "rounds g \<le> max N (rounds h)"
    show "case accept_body K c option flags (M, U, g) of
        Inl (M', x', g') \<Rightarrow> rounds g < N \<and> rounds g' = Suc (rounds g)
      | Inr r \<Rightarrow> rounds (snd (snd (snd r))) \<le> max N (rounds h)"
    proof (cases rule: accept_body_cases [of K c option flags M U g
        "accept_body K c option flags (M, U, g)", OF refl])
      case 1 with b show ?thesis by simp
    next
      case (2 sl a)
      with stops_afterD [OF assms 2(1)] show ?thesis by auto
    next
      case (3 sl fd a out U' g')
      with stops_afterD [OF assms 3(1)] serve_client_frame [OF 3(3)] show ?thesis
        by (auto split: option.splits)
    qed
  qed simp_all
  then show ?thesis by force
qed

lemma udp_loop_stops:
  assumes "stops_after K N" "recv_doc K"
  shows "\<exists>r L' h'. run_loop (udp_body K c junk 0) (L, a0, h) = Some (r, L', h') \<and>
    rounds h' \<le> max N (rounds h)"
proof -
  have "\<exists>q. run_loop (udp_body K c junk 0) (L, a0, h) = Some q \<and>
      rounds (snd (snd q)) \<le> max N (rounds h)"
  proof (rule rounds_loop [where N = N])
    fix M and a1 :: sockaddr_in and g
    assume b: "rounds g \<le> max N (rounds h)"
    show "case udp_body K c junk 0 (M, a1, g) of
        Inl (M', x', g') \<Rightarrow> rounds g < N \<and> rounds g' = Suc (rounds g)
      | Inr r \<Rightarrow> rounds (snd (snd r)) \<le> max N (rounds h)"
    proof (cases rule: udp_body_cases [of K c junk M a1 g "udp_body K c junk 0 (M, a1, g)",
          OF refl assms(2)])
      case 1 with b show ?thesis by simp
    next
      case (2 sl bs a M' n)
      with stops_afterD [OF assms(1) 2(3)] show ?thesis by auto
    next
      case (3 sl n bs a u M')
      with stops_afterD [OF assms(1) 3(1)] show ?thesis by auto
    qed
  qed simp_all
  then show ?thesis by force
qed

lemma serve_stops:
  assumes "stops_after K N" "recv_doc K"
  shows "\<exists>out L' T' h'. serve K c option flags junk L T h = Some (out, L', T', h') \<and>
    rounds h' \<le> max N (rounds h)"
proof -
  define M where "M = os_view K h L"
  define g where "g = SysListen (ls_sockfd M) (ls_backlog M) (os_listen K h (ls_sockfd M) (ls_backlog M)) # h"
  define g2 where "g2 = ncSetSocketNonBlocking K c (ls_sockfd (os_view K g M)) g"
  have g2: "rounds g2 = rounds h"
    using quiet_service [OF quiet_nonblocking [of g K c "ls_sockfd (os_view K g M)"]]
    by (simp add: g2_def g_def)
  have eq: "serve K c option flags junk L T h =
      (if ls_socktype L = SOCKTYPE_TCPIP
       then if os_listen K h (ls_sockfd M) (ls_backlog M) = -1 then Some (Inr NC_FAILED, M, T, g)
         else map_option (\<lambda>(r, s). (Inr r, s))
           (run_loop (accept_body K c option flags) (os_view K g M, T, g2))
       else if ls_socktype L = SOCKTYPE_UDP
       then map_option (\<lambda>(r, L, h). (r, L, T, h)) (run_loop (udp_body K c junk 0) (L, zero_sockaddr, h))
       else Some (Inr NC_OK, L, T, h))"
    by (simp add: serve_def Let_def g2_def g_def M_def)
  show ?thesis
    using accept_loop_stops [OF assms(1), of c option flags "os_view K g M" T g2]
      udp_loop_stops [OF assms, of c junk L zero_sockaddr h]
    unfolding eq by (auto simp: g2 g_def)
qed

lemma startListening_returns:
  assumes "view_doc K" "recv_doc K" "stops_after K N"
  shows "\<exists>out L' h'. startListening K c fnptr option flags T junk L h = Some (out, L', h') \<and>
    rounds h' \<le> max N (rounds h)"
  using startListening_serve [OF assms(1), of c fnptr option flags T junk L h]
proof (elim disjE exE conjE)
  fix r L' h'
  assume "startListening K c fnptr option flags T junk L h = Some (Inr r, L', h')" "quiet h h'"
  then show ?thesis using quiet_service [of h h'] by simp
next
  fix M U g
  assume eq: "startListening K c fnptr option flags T junk L h =
      map_option (leave_scope c) (serve K c option flags junk M U g)" and "quiet h g"
  then have "rounds g = rounds h" using quiet_service by blast
  moreover obtain out L' U' g' where "serve K c option flags junk M U g = Some (out, L', U', g')"
    "rounds g' \<le> max N (rounds g)" using serve_stops [OF assms(3,2)] by blast
  ultimately show ?thesis
    using eq quiet_service [OF quiet_thread(2) [of g' c U']] by auto
qed

text \<open>The datagram service is the only one that can fault, and only when \<open>recvfrom\<close> fails.\<close>

definition recv_works :: "os \<Rightarrow> bool" where
  "recv_works K \<longleftrightarrow> (\<forall>g fd. 0 \<le> fst (os_recvfrom K g fd 512))"

lemma udp_loop_no_fault:
  assumes "run_loop (udp_body K c junk 0) (L, a0, h) = Some (out, L', h')" "recv_doc K" "recv_works K"
  shows "out = Inr NC_OK"
proof -
  have "fst (out, L', h') = Inr NC_OK"
  proof (rule run_loop_inv [OF assms(1), where I = "\<lambda>_. True"])
    show "fst q = Inr NC_OK" if "udp_body K c junk 0 s = Inr q" for s q
    proof -
      obtain M a g where s: "s = (M, a, g)" by (cases s)
      show ?thesis
      proof (cases rule: udp_body_cases [of K c junk M a g "udp_body K c junk 0 (M, a, g)", OF refl assms(2)])
        case (2 sl bs b M' n)
        have "0 \<le> fst (os_recvfrom K g sl 512)" using assms(3) by (simp add: recv_works_def)
        with 2(4) show ?thesis by simp
      qed (use that s in auto)
    qed
  qed simp_all
  then show ?thesis by simp
qed

lemma serve_no_fault:
  assumes "serve K c option flags junk L T h = Some (out, L', T', h')" "recv_doc K"
    and "ls_socktype L = SOCKTYPE_UDP \<Longrightarrow> recv_works K"
  shows "\<exists>r. out = Inr r"
proof (cases "ls_socktype L = SOCKTYPE_TCPIP")
  case True
  with serve_tcp [OF assms(1)] show ?thesis by blast
next
  case False
  with assms udp_loop_no_fault show ?thesis
    by (fastforce simp: serve_def map_option_eq_Some split: if_splits)
qed

lemma startListening_no_fault:
  assumes "startListening K c fnptr option flags T junk L h = Some (out, L', h')" "view_doc K" "recv_doc K"
    and "ls_socktype L = SOCKTYPE_UDP \<Longrightarrow> recv_works K"
  shows "\<exists>r. out = Inr r"
  using startListening_phases [OF assms(1,2)] serve_no_fault [OF _ assms(3)] assms(4) by fastforce

lemma startListening_udp:
  assumes "startListening K c fnptr option flags T junk L h = Some (out, L', h')" "view_doc K"
    and "ls_socktype L = SOCKTYPE_UDP"
  shows "(out = Inr NC_FAILED \<or> out = Inr NC_BADARGS) \<and> quiet h h' \<or>
    (\<exists>M g g'. quiet h g \<and> quiet g' h' \<and>
       run_loop (udp_body K c junk 0) (M, zero_sockaddr, g) = Some (out, L', g'))"
  using startListening_phases [OF assms(1,2)]
proof (elim disjE exE conjE)
  fix M U g U' g'
  assume s: "serve K c option flags junk M U g = Some (out, L', U', g')" and q: "quiet h g" "quiet g' h'"
    and "ls_socktype M = ls_socktype L"
  then have "ls_socktype M = SOCKTYPE_UDP" using assms(3) by simp
  with s have "run_loop (udp_body K c junk 0) (M, zero_sockaddr, g) = Some (out, L', g')"
    by (auto simp: serve_def SOCKTYPE_TCPIP_def SOCKTYPE_UDP_def map_option_eq_Some)
  with q show ?thesis by blast
qed simp_all

section \<open>Properties\<close>

text \<open>
  Two concrete programs. \<open>tcp_os\<close> accepts one client on descriptor 9 and is then stopped;
  \<open>udp_os n\<close> receives datagrams of one byte, reports an error at the \<open>n\<close>-th call and is stopped
  after three.
\<close>

definition stop_view :: "nat \<Rightarrow> hist \<Rightarrow> ncSocketListener \<Rightarrow> ncSocketListener" where
  "stop_view n h L = (if n \<le> rounds h then L\<lparr>ls_listening := 0\<rparr> else L)"

definition tcp_os :: os where
  "tcp_os = ok_threads_os\<lparr>os_socket := \<lambda>h k. 3, os_setsockopt := \<lambda>h fd. 0, os_bind := \<lambda>h fd a. 0,
     os_listen := \<lambda>h fd n. 0,
     os_accept := \<lambda>h fd. (9, zero_sockaddr), os_view := stop_view 1\<rparr>"

definition udp_os :: "nat \<Rightarrow> os" where
  "udp_os n = tcp_os\<lparr>os_recvfrom := \<lambda>h fd k. if Suc (rounds h) = n \<or> k < 1 then (-1, [], zero_sockaddr)
     else (1, [42], zero_sockaddr), os_view := stop_view 3\<rparr>"

lemma concrete_docs:
  "view_doc tcp_os" "view_doc (udp_os n)" "stops_after tcp_os 1" "stops_after (udp_os n) 3"
  "recv_doc tcp_os" "recv_doc (udp_os n)" "os_new tcp_os g" "threads linux_config = PThreads"
  by (auto simp: view_doc_def stops_after_def stop_view_def tcp_os_def udp_os_def ok_threads_os_def
      recv_doc_def recv_result_def dead_os_def threads_def linux_config_def)

text \<open>
  C4: of the connections a TCP listener accepts, each is handed to the callback, in a new thread
  or by a call, exactly once and in the order they came, in an object made for its descriptor and
  carrying its peer's address; and the listener closes none of them. The exception is a connection
  whose thread cannot be created: it is the last, its descriptor is closed and the result is
  \<open>NC_FAILED\<close>.
\<close>

theorem connections_handed_over:
  assumes "startListening K c fnptr option flags T junk L h = Some (out, L', h')"
    and "ls_socktype L = SOCKTYPE_TCPIP" "view_doc K" "\<forall>g. os_new K g"
    and "option \<noteq> NC_THREADED \<or> threads c \<noteq> NoThreads"
  shows "\<exists>r. out = Inr r \<and> clients_post c h r h'"
  by (rule startListening_hands_over [OF assms])

theorem connections_handed_over_witness:
  "\<exists>out L' h'. startListening tcp_os linux_config True NC_THREADED NC_DETACHED \<lparr>th_retVal = 0, ncthread = 0\<rparr>
      (\<lambda>h. []) (ncSocketListener_init 80 SOCKTYPE_TCPIP) [] = Some (out, L', h') \<and>
    (\<exists>r. out = Inr r \<and> clients_post linux_config [] r h')"
proof -
  obtain out L' h' where s: "startListening tcp_os linux_config True NC_THREADED NC_DETACHED
      \<lparr>th_retVal = 0, ncthread = 0\<rparr> (\<lambda>h. []) (ncSocketListener_init 80 SOCKTYPE_TCPIP) [] =
      Some (out, L', h')" using startListening_returns concrete_docs(1,5,3) by blast
  have "\<exists>r. out = Inr r \<and> clients_post linux_config [] r h'"
    by (rule connections_handed_over [OF s])
      (simp_all add: concrete_docs ncSocketListener_init_def)
  with s show ?thesis by blast
qed

text \<open>
  C22: \<open>stopListening\<close> is honoured: once it has been called after \<open>N\<close> rounds, \<open>startListening\<close>
  returns a code to its caller without going to the kernel for another client. Each call into the
  kernel returns here; an \<open>accept\<close> does, the socket being non-blocking, but the datagram socket is
  not, and its \<open>recvfrom\<close> has to succeed: where it fails the datagram service does not return at all.
\<close>

theorem listening_stops:
  assumes "view_doc K" "recv_doc K" "stops_after K N" "ls_socktype L = SOCKTYPE_UDP \<Longrightarrow> recv_works K"
  shows "\<exists>r L' h'. startListening K c fnptr option flags T junk L h = Some (Inr r, L', h') \<and>
    rounds h' \<le> max N (rounds h)"
proof -
  obtain out L' h' where s: "startListening K c fnptr option flags T junk L h = Some (out, L', h')"
    "rounds h' \<le> max N (rounds h)" using startListening_returns [OF assms(1-3)] by blast
  with startListening_no_fault [OF s(1) assms(1,2,4)] show ?thesis by blast
qed

text \<open>A datagram listener whose kernel always has a datagram, and a TCP listener.\<close>

theorem listening_stops_witness:
  "let K = (udp_os 7)\<lparr>os_recvfrom := \<lambda>h fd k. if k < 1 then (-1, [], zero_sockaddr) else (1, [42], zero_sockaddr)\<rparr> in
   (\<exists>r L' h'. startListening K linux_config True NC_NONTHREADED NC_JOINED
      \<lparr>th_retVal = 0, ncthread = 0\<rparr> (\<lambda>h. replicate 512 0) (ncSocketListener_init 53 SOCKTYPE_UDP) [] =
      Some (Inr r, L', h') \<and> rounds h' \<le> max 3 (rounds [])) \<and>
   (\<exists>r L' h'. startListening tcp_os linux_config True NC_THREADED NC_DETACHED
      \<lparr>th_retVal = 0, ncthread = 0\<rparr> (\<lambda>h. []) (ncSocketListener_init 80 SOCKTYPE_TCPIP) [] =
      Some (Inr r, L', h') \<and> rounds h' \<le> max 1 (rounds []))"
  unfolding Let_def
  by (intro conjI; rule listening_stops)
    (simp_all add: concrete_docs recv_works_def view_doc_def stops_after_def stop_view_def udp_os_def tcp_os_def
      ok_threads_os_def recv_doc_def recv_result_def dead_os_def ncSocketListener_init_def
      SOCKTYPE_TCPIP_def SOCKTYPE_UDP_def)

text \<open>
  C30: what becomes of the POSIX threads a TCP listener starts. With the flags exactly
  \<open>NC_DETACHED\<close> or exactly \<open>NC_JOINED\<close> every one of them is released, in order; with any other
  value, \<open>NC_REUSEADDR\<close> added to one of the two for example, none is, although the interface says
  that a thread is joined unless it is detached and that \<open>NC_REUSEADDR\<close> is a flag of its own.
\<close>

theorem threads_released:
  assumes "startListening K c fnptr NC_THREADED flags T junk L h = Some (Inr NC_OK, L', h')"
    and "ls_socktype L = SOCKTYPE_TCPIP" "view_doc K" "threads c = PThreads"
  shows "\<exists>ts. created h' = created h @ ts \<and>
    freed h' = freed h @ (if flags = NC_DETACHED \<or> flags = NC_JOINED then ts else [])"
  using startListening_tcp [OF assms(1,3,2)]
proof (elim disjE exE conjE)
  fix M U g r U' g'
  assume r: "Inr NC_OK = (Inr r :: fault + retcode)" and q: "quiet h g" "quiet g' h'"
    and run: "run_loop (accept_body K c NC_THREADED flags) (M, U, g) = Some (r, L', U', g')"
  from r have "NC_OK = r" by simp
  from accept_loop_threads [OF run [folded this] assms(4)] show ?thesis
    using quiet_threads [OF q(1)] quiet_threads [OF q(2)] by (simp add: releasing_def)
qed simp_all

theorem threads_released_witness:
  "\<exists>L' h'. startListening tcp_os linux_config True NC_THREADED (NC_DETACHED OR NC_REUSEADDR)
      \<lparr>th_retVal = 0, ncthread = 0\<rparr> (\<lambda>h. []) (ncSocketListener_init 80 SOCKTYPE_TCPIP) [] =
      Some (Inr NC_OK, L', h') \<and>
    (\<exists>ts. created h' = created [] @ ts \<and>
      freed h' = freed [] @ (if NC_DETACHED OR NC_REUSEADDR = NC_DETACHED \<or>
        NC_DETACHED OR NC_REUSEADDR = NC_JOINED then ts else []))"
proof -
  obtain L' h' where s: "startListening tcp_os linux_config True NC_THREADED (NC_DETACHED OR NC_REUSEADDR)
      \<lparr>th_retVal = 0, ncthread = 0\<rparr> (\<lambda>h. []) (ncSocketListener_init 80 SOCKTYPE_TCPIP) [] =
      Some (Inr NC_OK, L', h')"
    by (simp add: startListening_def serve_def bind_body_def accept_body_def serve_client_def
        serve_threaded_def ncThread_start_alt set_reuse_def bad_args_def ncSocketListener_init_def
        tcp_os_def ok_threads_os_def dead_os_def stop_view_def ncThread_init_def linux_config_def
        threads_def ncSetSocketNonBlocking_defs SOCKTYPE_TCPIP_def NC_THREADED_def NC_DETACHED_def
        NC_REUSEADDR_def NC_JOINED_def)
  have "ls_socktype (ncSocketListener_init 80 SOCKTYPE_TCPIP) = SOCKTYPE_TCPIP"
    by (simp add: ncSocketListener_init_def)
  from threads_released [OF s this concrete_docs(1,8)] s show ?thesis by blast
qed

text \<open>
  In a build without threads a listener asked for \<open>NC_THREADED\<close> drops its clients: starting
  a thread succeeds without doing anything, so whatever is accepted, no connection is handed over
  and no descriptor is closed.
\<close>

lemma no_threads_drops_clients:
  assumes "startListening K c fnptr NC_THREADED flags T junk L h = Some (out, L', h')"
    and "ls_socktype L = SOCKTYPE_TCPIP" "view_doc K" "threads c = NoThreads"
  shows "handed c h' = handed c h \<and> closes h' = closes h"
  using startListening_tcp [OF assms(1,3,2)]
proof (elim disjE exE conjE)
  fix M U g r U' g'
  assume q: "quiet h g" "quiet g' h'"
    and run: "run_loop (accept_body K c NC_THREADED flags) (M, U, g) = Some (r, L', U', g')"
  let ?P = "\<lambda>k. handed c k = handed c g \<and> closes k = closes g"
  have "?P g'"
  proof (rule accept_loop_keeps [OF run, where P = ?P and Q = "\<lambda>r. ?P"])
    show "case out of None \<Rightarrow> ?P k' | Some r \<Rightarrow> ?P k'"
      if "?P k" "serve_client K c NC_THREADED flags fd a U (SysAccept s fd a # k) = (out, U', k')"
      for k s fd a out U U' k'
      using that assms(4)
      by (auto simp: serve_client_def serve_threaded_def ncThread_start_alt ncThread_detach_alt
          ncThread_join_alt Let_def split: if_splits option.split)
  qed simp_all
  then show ?thesis using quiet_frame [OF q(1)] quiet_frame [OF q(2)] by simp
qed (use quiet_frame [of h h'] in simp_all)

text \<open>
  C20: every datagram a UDP listener receives is delivered to the callback, once and in order, in
  an object with its bytes, its length and its sender's address, but with 0 in place of the
  descriptor. The service ends with \<open>NC_OK\<close> when it is stopped; the other end is a \<open>recvfrom\<close>
  that fails.
\<close>

theorem datagrams_delivered:
  assumes "startListening K c fnptr option flags T junk L h = Some (out, L', h')"
    and "ls_socktype L = SOCKTYPE_UDP" "view_doc K" "recv_doc K"
  shows "all_delivered h h' \<and> closes h' = closes h \<and>
    (out \<in> {Inr NC_OK, Inr NC_FAILED, Inr NC_BADARGS} \<or>
     (\<exists>n s bs a g. out = Inl (Memcpy_overrun n) \<and> 2 ^ 31 \<le> n \<and>
        quiet (SysRecvfrom s 512 (-1) bs a # g) h'))"
  using startListening_udp [OF assms(1,3,2)]
proof (elim disjE exE conjE)
  fix M g g'
  assume q: "quiet h g" "quiet g' h'"
    and run: "run_loop (udp_body K c junk 0) (M, zero_sockaddr, g) = Some (out, L', g')"
  from udp_loop_delivers [OF run assms(4)] show ?thesis
    using quiet_frame [OF q(1)] quiet_frame [OF q(2)] q(2)
    by (auto simp: udp_post_def all_delivered_def)
qed (use quiet_frame [of h h'] in \<open>auto simp: all_delivered_def\<close>)

theorem datagrams_delivered_witness:
  "\<exists>out L' h'. startListening (udp_os 2) linux_config True NC_THREADED NC_DETACHED
      \<lparr>th_retVal = 0, ncthread = 0\<rparr> (\<lambda>h. replicate 512 0) (ncSocketListener_init 53 SOCKTYPE_UDP) [] =
      Some (out, L', h') \<and> all_delivered [] h' \<and> closes h' = closes [] \<and>
    (out \<in> {Inr NC_OK, Inr NC_FAILED, Inr NC_BADARGS} \<or>
     (\<exists>n s bs a g. out = Inl (Memcpy_overrun n) \<and> 2 ^ 31 \<le> n \<and>
        quiet (SysRecvfrom s 512 (-1) bs a # g) h'))"
proof -
  obtain out L' h' where s: "startListening (udp_os 2) linux_config True NC_THREADED NC_DETACHED
      \<lparr>th_retVal = 0, ncthread = 0\<rparr> (\<lambda>h. replicate 512 0) (ncSocketListener_init 53 SOCKTYPE_UDP) [] =
      Some (out, L', h')" using startListening_returns concrete_docs(2,6,4) by blast
  have "ls_socktype (ncSocketListener_init 53 SOCKTYPE_UDP) = SOCKTYPE_UDP"
    by (simp add: ncSocketListener_init_def)
  from datagrams_delivered [OF s this concrete_docs(2,6)] s show ?thesis by blast
qed

text \<open>
  A failing \<open>recvfrom\<close> is not noticed: its result -1 becomes the length of the datagram, and
  the copy into the datagram object runs over by gigabytes. Any failure at the first call of a
  datagram listener is enough.
\<close>

lemma udp_error_faults:
  assumes "ls_socktype L = SOCKTYPE_UDP" "os_socket K h SOCK_DGRAM \<noteq> 0"
    and "\<not> bad_args fnptr option flags" "flags AND NC_REUSEADDR = 0"
    and "\<forall>g fd a. os_bind K g fd a = 0" "\<forall>g fd. fst (os_recvfrom K g fd 512) = -1"
    and view: "\<forall>g M. os_view K g M = M"
  shows "\<exists>n L' h'. startListening K c fnptr option flags T junk L h =
    Some (Inl (Memcpy_overrun n), L', h') \<and> 2 ^ 31 \<le> n"
proof -
  define h1 where "h1 = SysSocket SOCK_DGRAM (os_socket K h SOCK_DGRAM) # h"
  obtain U h2 where T: "ncThread_init c T h1 = (U, h2)" by fastforce
  define M where "M = L\<lparr>ls_sockfd := os_socket K h SOCK_DGRAM, ls_listening := 1\<rparr>"
  define h3 where "h3 = SysBind (ls_sockfd M) (listen_address c (ls_port L)) 0 # h2"
  have b: "run_loop (bind_body K c (listen_address c (ls_port L))) (M, 0, h2) = Some (None, M, h3)"
    using assms(5) view by (simp add: bind_body_def h3_def Let_def)
  obtain bs a where r: "os_recvfrom K h3 (ls_sockfd M) 512 = (-1, bs, a)"
    using assms(6) by (metis prod.collapse)
  let ?h = "SysRecvfrom (ls_sockfd M) 512 (-1) bs a # h3"
  obtain n where n: "2 ^ 31 \<le> n"
    "udpData_make c (junk ?h) 0 zero_sockaddr (udp_buffer bs) (-1) = Inl (Memcpy_overrun n)"
    using udpData_make_negative [of "-1" c "junk ?h" 0 zero_sockaddr "udp_buffer bs"] by auto
  have "udp_body K c junk 0 (M, zero_sockaddr, h3) = Inr (Inl (Memcpy_overrun n), M, ?h)"
    using r n(2) view
    by (simp add: udp_body_def k_recvfrom_def MAX_DGRAM_BUF_LEN_def M_def Let_def)
  then have "serve K c option flags junk M U h3 = Some (Inl (Memcpy_overrun n), M, U, ?h)"
    using assms(1) by (simp add: serve_def SOCKTYPE_TCPIP_def SOCKTYPE_UDP_def M_def)
  then have "startListening K c fnptr option flags T junk L h =
      Some (leave_scope c (Inl (Memcpy_overrun n), M, U, ?h))"
    using assms(1-4) view b T
    by (simp add: startListening_def set_reuse_def SOCKTYPE_TCPIP_def SOCKTYPE_UDP_def Let_def
        flip: h1_def M_def)
  with n(1) show ?thesis by auto
qed

end
