(* ===== verification/Nc_Session.thy ===== *)
theory Nc_Session
  imports Nc_Listener_Serve Nc_Sock_Life "HOL-Library.Multiset"
begin

text \<open>
  A server and its clients together: \<open>startListening\<close> hands each connection to the callback, and
  the callback, which belongs to the program that uses the library, calls methods of the object it
  was given and deletes it, as the interface asks. \<open>run_callbacks\<close> runs the callbacks of a list of
  objects; \<open>work\<close> says what the callback does with an object. Each callback touches its own object
  only, so the order in which the callbacks of different threads close their descriptors does not
  matter: the property counts closes as a multiset.
\<close>

fun run_callbacks ::
    "os \<Rightarrow> config \<Rightarrow> (ncSocket \<Rightarrow> sock_method list) \<Rightarrow> ncSocket list \<Rightarrow> hist \<Rightarrow> hist option" where
  "run_callbacks K c work [] h = Some h"
| "run_callbacks K c work (S # Ss) h =
     (case run_methods K c (work S) (S, h) of
        None \<Rightarrow> None
      | Some (S', h) \<Rightarrow> run_callbacks K c work Ss (snd (ncSocket_destroy c S' h)))"

text \<open>The objects handed over between two histories.\<close>

definition handed_since :: "config \<Rightarrow> hist \<Rightarrow> hist \<Rightarrow> ncSocket list" where
  "handed_since c h h' = drop (length (handed c h)) (handed c h')"

lemma one_callback:
  assumes "list_all plain_method ms" "run_methods K c ms (S, h) = Some (S', h')"
    and "m_stdiofd S = None" "0 < m_sockfd S"
  shows "closes (snd (ncSocket_destroy c S' h')) = closes h @ [m_sockfd S]"
proof -
  have "fd_once (m_sockfd S) h (S, h)" using assms(3) by (simp add: fd_once_def)
  from run_methods_once [OF assms(1) this assms(2)] assms(4) show ?thesis
    by (auto simp: fd_once_def ncSocket_destroy_def)
qed

lemma callbacks_close:
  assumes "\<And>S. list_all plain_method (work S)"
  shows "list_all (\<lambda>S. m_stdiofd S = None \<and> 0 < m_sockfd S) Ss \<Longrightarrow>
    run_callbacks K c work Ss h = Some h' \<Longrightarrow> closes h' = closes h @ map m_sockfd Ss"
proof (induction Ss arbitrary: h)
  case (Cons S Ss)
  then obtain S' g where r: "run_methods K c (work S) (S, h) = Some (S', g)"
    and rest: "run_callbacks K c work Ss (snd (ncSocket_destroy c S' g)) = Some h'"
    by (auto split: option.splits)
  from Cons.IH [OF _ rest] one_callback [OF assms r] Cons.prems(1) show ?case by simp
qed simp

lemma client_socket_fields [simp]:
  "m_sockfd (client_socket c x) = fst x" "m_stdiofd (client_socket c x) = None"
  by (simp_all add: client_socket_def setIpAddr_def ncSocket_of_fd_def)

section \<open>Property\<close>

text \<open>
  C5: over a whole session of a TCP server every connection that was accepted is closed exactly
  once, and nothing else is: by its callback, if that uses the object it is given through any plain
  methods and deletes it, or by the listener, if the thread for it could not be started. (On Windows
  the destructor of an object that the callback has closed calls \<^verbatim>\<open>closesocket(INVALID_SOCKET)\<close>; the
  call fails and closes nothing.)
\<close>

theorem clients_closed_once:
  assumes "startListening K c fnptr option flags T junk L h = Some (out, L', h')"
    and "ls_socktype L = SOCKTYPE_TCPIP" "view_doc K" "\<forall>g. os_new K g"
    and "option \<noteq> NC_THREADED \<or> threads c \<noteq> NoThreads"
    and "accepted h' = accepted h @ new" "list_all (\<lambda>(fd, a). 0 < fd) new"
    and "\<And>S. list_all plain_method (work S)"
    and "run_callbacks K' c work (handed_since c h h') h' = Some h''"
  shows "mset (closes h'') = mset (closes h) + mset (map fst new)"
proof -
  obtain r where "clients_post c h r h'" using startListening_hands_over [OF assms(1-5)] by blast
  then obtain served rest where new: "new = served @ rest"
    and hd: "handed_since c h h' = map (client_socket c) served"
    and rest: "rest = [] \<and> closes h' = closes h \<or>
      (\<exists>fd a. rest = [(fd, a)] \<and> closes h' = closes h @ (if fd_positive c fd then [fd] else []))"
    using assms(6) by (auto simp: clients_post_def handed_since_def)
  have "closes h'' = closes h' @ map m_sockfd (map (client_socket c) served)"
    by (rule callbacks_close [OF assms(8) _ assms(9) [unfolded hd]])
      (use assms(7) in \<open>auto simp: new list_all_iff\<close>)
  then have "closes h'' = closes h' @ map fst served" by (simp add: comp_def)
  with rest assms(7) show ?thesis by (auto simp: new list_all_iff)
qed

text \<open>One client on descriptor 9, whose callback closes its object before it deletes it.\<close>

theorem clients_closed_once_witness:
  "\<exists>out L' h' h''. startListening tcp_os linux_config True NC_NONTHREADED NC_JOINED
      \<lparr>th_retVal = 0, ncthread = 0\<rparr> (\<lambda>h. []) (ncSocketListener_init 80 SOCKTYPE_TCPIP) [] =
      Some (out, L', h') \<and> accepted h' = [(9, zero_sockaddr)] \<and>
    run_callbacks dead_os linux_config (\<lambda>S. [MSetTimeout 5, MClose]) (handed_since linux_config [] h') h' =
      Some h'' \<and>
    mset (closes h'') = mset (closes []) + mset (map fst [(9::int, zero_sockaddr)])"
proof -
  let ?start = "startListening tcp_os linux_config True NC_NONTHREADED NC_JOINED
    \<lparr>th_retVal = 0, ncthread = 0\<rparr> (\<lambda>h. []) (ncSocketListener_init 80 SOCKTYPE_TCPIP) []"
  let ?calls = "\<lambda>h'. run_callbacks dead_os linux_config (\<lambda>S. [MSetTimeout 5, MClose])
    (handed_since linux_config [] h') h'"
  obtain L' h' where s: "?start = Some (Inr NC_OK, L', h')" "accepted h' = [(9, zero_sockaddr)]"
    by (simp add: startListening_def serve_def bind_body_def accept_body_def serve_client_def
        set_reuse_def bad_args_def ncSocketListener_init_def tcp_os_def ok_threads_os_def dead_os_def
        stop_view_def ncThread_init_def ncThread_destroy_def linux_config_def threads_def
        ncSetSocketNonBlocking_defs SOCKTYPE_TCPIP_def NC_NONTHREADED_def NC_THREADED_def
        NC_REUSEADDR_def NC_JOINED_def NC_DETACHED_def)
  have "run_callbacks dead_os linux_config (\<lambda>S. [MSetTimeout 5, MClose]) Ss g \<noteq> None" for Ss g
    by (induction Ss arbitrary: g) (simp_all add: nc_defs)
  then obtain h'' where c: "?calls h' = Some h''" by blast
  have "mset (closes h'') = mset (closes []) + mset (map fst [(9::int, zero_sockaddr)])"
    by (rule clients_closed_once [OF s(1) _ concrete_docs(1) _ _ _ _ _ c])
      (simp_all add: s(2) concrete_docs ncSocketListener_init_def NC_NONTHREADED_def NC_THREADED_def)
  with s c show ?thesis by blast
qed

end
