(* ===== verification/Nc_Listener_Race.thy ===== *)
theory Nc_Listener_Race
  imports Nc_Listener_Serve
begin

text \<open>
  \<open>startListening\<close> and \<open>stopListening\<close> of one TCP listener in two threads. The accept loop reads
  \<open>m_listening\<close> and \<open>m_sockfd\<close>, \<open>stopListening\<close> writes them, without a lock; between the two
  stands only its sleep of 250 ms. A step is what one thread does between two accesses of the
  shared object. The steps of each thread alone are those of the sequential model
  (\<open>race_refines_code\<close>).

  \<open>patient\<close> says that the sleep is long enough: it does not end while the server is between its
  test of \<open>m_listening\<close> and its call of \<open>accept\<close>. \<open>r_mark\<close> is a ghost: the number of rounds
  made when \<open>m_listening\<close> was cleared.
\<close>

section \<open>The step relation\<close>

datatype server_pc = AtLoop | AtAccept | AtCheck | Left retcode
datatype stopper_pc = Before | Cleared | Slept | Closed | After

record rstate =
  r_obj :: ncSocketListener
  r_srv :: server_pc
  r_stp :: stopper_pc
  r_thr :: ncThread
  r_hist :: hist
  r_mark :: nat

text \<open>The server has tried to accept a client: what comes next.\<close>

definition after_client :: "retcode option \<Rightarrow> ncThread \<Rightarrow> hist \<Rightarrow> rstate \<Rightarrow> rstate" where
  "after_client out T h s =
     s\<lparr>r_srv := (case out of Some r \<Rightarrow> Left r | None \<Rightarrow> AtCheck), r_thr := T, r_hist := h\<rparr>"

inductive rstep :: "os \<Rightarrow> config \<Rightarrow> int \<Rightarrow> 32 word \<Rightarrow> bool \<Rightarrow> rstate \<Rightarrow> rstate \<Rightarrow> bool"
  for K c option flags patient where
  LoopOn: "r_srv s = AtLoop \<Longrightarrow> ls_listening (r_obj s) \<noteq> 0 \<Longrightarrow>
     rstep K c option flags patient s (s\<lparr>r_srv := AtAccept\<rparr>)"
| LoopOff: "r_srv s = AtLoop \<Longrightarrow> ls_listening (r_obj s) = 0 \<Longrightarrow>
     rstep K c option flags patient s (s\<lparr>r_srv := Left NC_OK\<rparr>)"
| Accept: "r_srv s = AtAccept \<Longrightarrow> os_accept K (r_hist s) (ls_sockfd (r_obj s)) = (fd, a) \<Longrightarrow> fd \<noteq> -1 \<Longrightarrow>
     serve_client K c option flags fd a (r_thr s) (SysAccept (ls_sockfd (r_obj s)) fd a # r_hist s) = (out, T, h) \<Longrightarrow>
     rstep K c option flags patient s (after_client out T h s)"
| AcceptNone: "r_srv s = AtAccept \<Longrightarrow> os_accept K (r_hist s) (ls_sockfd (r_obj s)) = (-1, a) \<Longrightarrow>
     rstep K c option flags patient s
       (after_client None (r_thr s) (SysSleep 100 # SysAccept (ls_sockfd (r_obj s)) (-1) a # r_hist s) s)"
| CheckOn: "r_srv s = AtCheck \<Longrightarrow> ls_listening (r_obj s) \<noteq> 0 \<Longrightarrow>
     rstep K c option flags patient s (s\<lparr>r_srv := AtLoop\<rparr>)"
| CheckOff: "r_srv s = AtCheck \<Longrightarrow> ls_listening (r_obj s) = 0 \<Longrightarrow>
     rstep K c option flags patient s (s\<lparr>r_srv := Left NC_OK\<rparr>)"
| Clear: "r_stp s = Before \<Longrightarrow>
     rstep K c option flags patient s
       (s\<lparr>r_obj := (r_obj s)\<lparr>ls_listening := 0\<rparr>, r_stp := Cleared, r_mark := rounds (r_hist s)\<rparr>)"
| Sleep: "r_stp s = Cleared \<Longrightarrow> \<not> (patient \<and> r_srv s = AtAccept) \<Longrightarrow>
     rstep K c option flags patient s (s\<lparr>r_stp := Slept, r_hist := SysSleep 250 # r_hist s\<rparr>)"
| Close: "r_stp s = Slept \<Longrightarrow> ls_sockfd (r_obj s) \<noteq> 0 \<Longrightarrow>
     rstep K c option flags patient s (s\<lparr>r_stp := Closed,
       r_hist := SysClose (ls_sockfd (r_obj s)) # SysShutdown (ls_sockfd (r_obj s)) 0 # r_hist s\<rparr>)"
| NoSocket: "r_stp s = Slept \<Longrightarrow> ls_sockfd (r_obj s) = 0 \<Longrightarrow>
     rstep K c option flags patient s (s\<lparr>r_stp := After\<rparr>)"
| Zero: "r_stp s = Closed \<Longrightarrow>
     rstep K c option flags patient s (s\<lparr>r_obj := (r_obj s)\<lparr>ls_sockfd := 0\<rparr>, r_stp := After\<rparr>)"

definition race_start :: "ncSocketListener \<Rightarrow> ncThread \<Rightarrow> hist \<Rightarrow> rstate" where
  "race_start L T h = \<lparr>r_obj = L, r_srv = AtLoop, r_stp = Before, r_thr = T, r_hist = h, r_mark = 0\<rparr>"

inductive rreach :: "os \<Rightarrow> config \<Rightarrow> int \<Rightarrow> 32 word \<Rightarrow> bool \<Rightarrow> rstate \<Rightarrow> rstate \<Rightarrow> bool"
  for K c option flags patient s0 where
  Refl: "rreach K c option flags patient s0 s0"
| Step: "rreach K c option flags patient s0 s \<Longrightarrow> rstep K c option flags patient s s' \<Longrightarrow>
     rreach K c option flags patient s0 s'"

inductive_cases rstep_cases: "rstep K c option flags patient s s'"
inductive_simps rreach_simps: "rreach K c option flags patient s0 s"

section \<open>Each thread alone\<close>

lemma stop_alone:
  assumes "r_stp s = Before" "r_srv s \<noteq> AtAccept"
  shows "\<exists>s'. rreach K c option flags patient s s' \<and> r_stp s' = After \<and> r_srv s' = r_srv s \<and>
    stopListening (r_obj s) (r_hist s) = (r_obj s', r_hist s')"
proof -
  let ?r = "rreach K c option flags patient s"
  let ?s1 = "s\<lparr>r_obj := (r_obj s)\<lparr>ls_listening := 0\<rparr>, r_stp := Cleared, r_mark := rounds (r_hist s)\<rparr>"
  let ?s2 = "?s1\<lparr>r_stp := Slept, r_hist := SysSleep 250 # r_hist s\<rparr>"
  have "?r ?s1" by (rule rreach.Step [OF rreach.Refl rstep.Clear]) (fact assms(1))
  then have 2: "?r ?s2" using rstep.Sleep [of ?s1 patient K c option flags] assms(2)
    by (auto intro: rreach.Step)
  show ?thesis
  proof (cases "ls_sockfd (r_obj s) = 0")
    case True
    have "?r (?s2\<lparr>r_stp := After\<rparr>)"
      by (rule rreach.Step [OF 2 rstep.NoSocket]) (simp_all add: True)
    then show ?thesis
      using True by (intro exI [of _ "?s2\<lparr>r_stp := After\<rparr>"]) (simp add: stopListening_def Let_def)
  next
    case False
    let ?s3 = "?s2\<lparr>r_stp := Closed, r_hist := SysClose (ls_sockfd (r_obj ?s2)) #
      SysShutdown (ls_sockfd (r_obj ?s2)) 0 # r_hist ?s2\<rparr>"
    have 3: "?r ?s3" by (rule rreach.Step [OF 2 rstep.Close]) (simp_all add: False)
    let ?s4 = "?s3\<lparr>r_obj := (r_obj ?s3)\<lparr>ls_sockfd := 0\<rparr>, r_stp := After\<rparr>"
    have "?r ?s4" by (rule rreach.Step [OF 3 rstep.Zero]) simp
    then show ?thesis
      using False by (intro exI [of _ ?s4]) (simp add: stopListening_def Let_def)
  qed
qed

text \<open>One trip round the accept loop while nobody touches the object.\<close>

definition server_at :: "server_pc \<Rightarrow> ncSocketListener \<Rightarrow> ncThread \<Rightarrow> hist \<Rightarrow> rstate \<Rightarrow> bool" where
  "server_at p L T h s \<longleftrightarrow> r_srv s = p \<and> r_obj s = L \<and> r_thr s = T \<and> r_hist s = h"

lemma server_alone:
  assumes at: "r_srv s = AtLoop" and view: "\<forall>h L. os_view K h L = L"
  shows "\<exists>s'. rreach K c option flags patient s s' \<and>
    (case accept_body K c option flags (r_obj s, r_thr s, r_hist s) of
       Inl (L, T, h) \<Rightarrow> server_at AtLoop L T h s' | Inr (r, L, T, h) \<Rightarrow> server_at (Left r) L T h s')"
proof -
  let ?r = "rreach K c option flags patient s" and ?L = "r_obj s"
  show ?thesis
  proof (cases "ls_listening ?L = 0")
    case True
    have "?r (s\<lparr>r_srv := Left NC_OK\<rparr>)"
      by (rule rreach.Step [OF rreach.Refl rstep.LoopOff [OF at True]])
    then show ?thesis
      using True view
      by (intro exI [of _ "s\<lparr>r_srv := Left NC_OK\<rparr>"]) (simp add: accept_body_def server_at_def Let_def)
  next
    case on: False
    let ?s1 = "s\<lparr>r_srv := AtAccept\<rparr>"
    have 1: "?r ?s1" by (rule rreach.Step [OF rreach.Refl rstep.LoopOn [OF at on]])
    obtain fd a where acc: "os_accept K (r_hist s) (ls_sockfd ?L) = (fd, a)" by fastforce
    let ?h = "SysAccept (ls_sockfd ?L) fd a # r_hist s"
    obtain out T h where out: "(if fd \<noteq> -1 then serve_client K c option flags fd a (r_thr s) ?h
        else (None, r_thr s, SysSleep 100 # ?h)) = (out, T, h)" by (metis prod_cases3)
    let ?s2 = "after_client out T h ?s1"
    have "rstep K c option flags patient ?s1 ?s2"
    proof (cases "fd = -1")
      case True
      then show ?thesis using rstep.AcceptNone [of ?s1 K a c option flags patient] acc out by simp
    next
      case False
      then show ?thesis using rstep.Accept [of ?s1 K fd a c option flags out T h patient] acc out by simp
    qed
    with 1 have 2: "?r ?s2" by (rule rreach.Step)
    have body: "accept_body K c option flags (?L, r_thr s, r_hist s) =
        (case out of Some r \<Rightarrow> Inr (r, ?L, T, h) | None \<Rightarrow> Inl (?L, T, h))"
      using on view acc out by (simp add: accept_body_def Let_def split: option.split)
    show ?thesis
    proof (cases out)
      case (Some r)
      with 2 body show ?thesis
        by (intro exI [of _ ?s2]) (simp add: server_at_def after_client_def)
    next
      case None
      have "?r (?s2\<lparr>r_srv := AtLoop\<rparr>)"
        by (rule rreach.Step [OF 2 rstep.CheckOn]) (simp_all add: None on after_client_def)
      with None body show ?thesis
        by (intro exI [of _ "?s2\<lparr>r_srv := AtLoop\<rparr>"]) (simp add: server_at_def after_client_def)
    qed
  qed
qed

section \<open>Invariants\<close>

text \<open>Every accept in the history was made on descriptor \<open>l\<close>, which was not closed at the time.\<close>

primrec good_accepts :: "fd \<Rightarrow> hist \<Rightarrow> bool" where
  "good_accepts l [] = True"
| "good_accepts l (e # h) = (good_accepts l h \<and>
     (case e of SysAccept s fd a \<Rightarrow> s = l \<and> l \<notin> set (closes h) | _ \<Rightarrow> True))"

lemma serve_client_accepts:
  assumes "serve_client K c option flags fd a T g = (out, T', h')"
  shows "good_accepts l h' = good_accepts l g \<and> rounds h' = rounds g \<and>
    (out = None \<longrightarrow> closes h' = closes g)"
  using assms
  by (auto simp: serve_client_def serve_threaded_def ncThread_start_alt ncThread_detach_alt
      ncThread_join_alt ncSocket_destroy_def setIpAddr_def ncSocket_of_fd_def Let_def
      split: if_splits prod.splits)

text \<open>After the flag has been cleared there is at most one more round.\<close>

definition rounds_inv :: "rstate \<Rightarrow> bool" where
  "rounds_inv s \<longleftrightarrow> (r_stp s \<noteq> Before \<longrightarrow> ls_listening (r_obj s) = 0 \<and>
     rounds (r_hist s) \<le> r_mark s + (if r_srv s = AtAccept then 0 else 1))"

lemma rounds_inv_step:
  assumes "rstep K c option flags patient s s'" "rounds_inv s"
  shows "rounds_inv s'"
  using assms(1)
proof (cases rule: rstep.cases)
  case (Accept fd a out T h)
  with assms(2) serve_client_accepts [OF Accept(5), of 0] show ?thesis
    by (auto simp: rounds_inv_def after_client_def split: option.splits)
qed (use assms(2) in \<open>auto simp: rounds_inv_def after_client_def\<close>)

lemma rounds_inv_reach:
  assumes "rreach K c option flags patient (race_start L T h) s"
  shows "rounds_inv s"
  using assms
proof (induction rule: rreach.induct)
  case Refl show ?case by (simp add: rounds_inv_def race_start_def)
next
  case (Step s s') then show ?case using rounds_inv_step by blast
qed

text \<open>
  With a sleep that is long enough, the descriptor is given up only when the server is past its
  last accept.
\<close>

definition running :: "server_pc \<Rightarrow> bool" where
  "running p \<longleftrightarrow> (case p of Left r \<Rightarrow> False | _ \<Rightarrow> True)"

definition race_inv :: "fd \<Rightarrow> rstate \<Rightarrow> bool" where
  "race_inv l s \<longleftrightarrow> good_accepts l (r_hist s) \<and>
     (r_stp s \<noteq> Before \<longrightarrow> ls_listening (r_obj s) = 0) \<and>
     (if r_stp s \<in> {Before, Cleared, Slept}
      then ls_sockfd (r_obj s) = l \<and> (running (r_srv s) \<longrightarrow> l \<notin> set (closes (r_hist s)))
      else True) \<and>
     (r_stp s \<notin> {Before, Cleared} \<longrightarrow> r_srv s \<noteq> AtAccept)"

lemma running_simps [simp]:
  "running AtLoop" "running AtAccept" "running AtCheck" "\<not> running (Left r)"
  by (simp_all add: running_def)

lemma race_inv_step:
  assumes "rstep K c option flags True s s'" "race_inv l s"
  shows "race_inv l s'"
  using assms(1)
proof (cases rule: rstep.cases)
  case (Accept fd a out T h)
  with assms(2) serve_client_accepts [OF Accept(5), of l] show ?thesis
    by (auto simp: race_inv_def after_client_def split: option.splits if_splits)
qed (use assms(2) in \<open>auto simp: race_inv_def after_client_def split: if_splits\<close>)

lemma race_inv_reach:
  assumes "rreach K c option flags True (race_start L T h) s"
    and "good_accepts (ls_sockfd L) h" "ls_sockfd L \<notin> set (closes h)"
  shows "race_inv (ls_sockfd L) s"
  using assms(1)
proof (induction rule: rreach.induct)
  case Refl show ?case using assms(2,3) by (simp add: race_inv_def race_start_def)
next
  case (Step s s') then show ?case using race_inv_step by blast
qed

section \<open>Properties\<close>

text \<open>
  The interleaved steps are the code: a \<open>stopListening\<close> that runs alone does what the
  sequential \<open>stopListening\<close> does, and a trip of the server alone does what \<open>accept_body\<close> does
  when nobody changes the object.
\<close>

lemma race_refines_code:
  assumes "\<forall>h L. os_view K h L = L"
  shows "(r_stp s = Before \<longrightarrow> r_srv s \<noteq> AtAccept \<longrightarrow>
      (\<exists>s'. rreach K c option flags patient s s' \<and> r_stp s' = After \<and> r_srv s' = r_srv s \<and>
         stopListening (r_obj s) (r_hist s) = (r_obj s', r_hist s'))) \<and>
    (r_srv s = AtLoop \<longrightarrow>
      (\<exists>s'. rreach K c option flags patient s s' \<and>
         (case accept_body K c option flags (r_obj s, r_thr s, r_hist s) of
            Inl (L, T, h) \<Rightarrow> server_at AtLoop L T h s'
          | Inr (r, L, T, h) \<Rightarrow> server_at (Left r) L T h s')))"
  using stop_alone server_alone [OF _ assms] by blast

text \<open>
  C28: \<open>stopListening\<close> ``stops the listener after next accept call'': in any interleaving, from
  the moment the flag is cleared the server makes at most one more call of \<open>accept\<close>.
\<close>

lemma stop_one_more_accept:
  assumes "rreach K c option flags patient (race_start L T h) s" "r_stp s \<noteq> Before"
  shows "rounds (r_hist s) \<le> Suc (r_mark s) \<and>
    (r_srv s \<noteq> AtAccept \<longrightarrow> rstep K c option flags patient s s' \<longrightarrow> r_srv s' \<noteq> AtAccept)"
proof -
  from rounds_inv_reach [OF assms(1)] have inv: "rounds_inv s" .
  then have "rounds (r_hist s) \<le> Suc (r_mark s)" "ls_listening (r_obj s) = 0"
    using assms(2) by (auto simp: rounds_inv_def split: if_splits)
  moreover have "r_srv s' \<noteq> AtAccept"
    if "r_srv s \<noteq> AtAccept" "rstep K c option flags patient s s'" "ls_listening (r_obj s) = 0"
    using that(2) by (cases rule: rstep.cases) (use that in \<open>auto simp: after_client_def split: option.splits\<close>)
  ultimately show ?thesis by blast
qed

text \<open>A run for the witnesses: nobody connects, and the listener on descriptor 3 is stopped.\<close>

definition listening_obj :: ncSocketListener where
  "listening_obj = \<lparr>ls_sockfd = 3, ls_listening = 1, ls_socktype = 0, ls_backlog = 16, ls_port = 80\<rparr>"

lemma lonely_run:
  "\<exists>s. rreach dead_os linux_config NC_THREADED NC_DETACHED True
      (race_start listening_obj \<lparr>th_retVal = 0, ncthread = 0\<rparr> []) s \<and> r_stp s = After"
proof -
  have "\<exists>s'. rreach dead_os linux_config NC_THREADED NC_DETACHED True
      (race_start listening_obj \<lparr>th_retVal = 0, ncthread = 0\<rparr> []) s' \<and> r_stp s' = After \<and>
      r_srv s' = r_srv (race_start listening_obj \<lparr>th_retVal = 0, ncthread = 0\<rparr> []) \<and>
      stopListening (r_obj (race_start listening_obj \<lparr>th_retVal = 0, ncthread = 0\<rparr> []))
        (r_hist (race_start listening_obj \<lparr>th_retVal = 0, ncthread = 0\<rparr> [])) = (r_obj s', r_hist s')"
    by (rule stop_alone) (simp_all add: race_start_def)
  then show ?thesis by blast
qed

text \<open>
  As long as the sleep of \<open>stopListening\<close> outlasts the server's way from its test of
  \<open>m_listening\<close> to its call of \<open>accept\<close>, every \<open>accept\<close> in every interleaving is made on the
  listening socket while it is open, and the socket is closed only when no \<open>accept\<close> can follow.
\<close>

lemma stop_race_safe:
  assumes "rreach K c option flags True (race_start L T h) s"
    and "good_accepts (ls_sockfd L) h" "ls_sockfd L \<notin> set (closes h)"
  shows "good_accepts (ls_sockfd L) (r_hist s) \<and>
    (r_stp s = Closed \<or> r_stp s = After \<longrightarrow> ls_listening (r_obj s) = 0 \<and> r_srv s \<noteq> AtAccept)"
  using race_inv_reach [OF assms] by (auto simp: race_inv_def)

text \<open>
  Nothing but the sleep keeps the threads apart. If it ends too early, the server calls
  \<open>accept\<close> on the socket that has been closed, whose number another thread may have got in the
  meantime, or on descriptor 0.
\<close>

lemma stop_race_unsafe:
  assumes "ls_listening L \<noteq> 0" "ls_sockfd L \<noteq> 0" and none: "\<forall>g fd. fst (os_accept K g fd) = -1"
  shows "(\<exists>s a g. rreach K c option flags False (race_start L T h) s \<and>
      r_hist s = SysSleep 100 # SysAccept (ls_sockfd L) (-1) a # g \<and> SysClose (ls_sockfd L) \<in> set g) \<and>
    (\<exists>s a g. rreach K c option flags False (race_start L T h) s \<and>
      r_hist s = SysSleep 100 # SysAccept 0 (-1) a # g)"
proof -
  let ?s0 = "race_start L T h" and ?st = "rstep K c option flags False"
  let ?r = "rreach K c option flags False ?s0"
  let ?s1 = "?s0\<lparr>r_srv := AtAccept\<rparr>"
  let ?s2 = "?s1\<lparr>r_obj := L\<lparr>ls_listening := 0\<rparr>, r_stp := Cleared, r_mark := rounds h\<rparr>"
  let ?s3 = "?s2\<lparr>r_stp := Slept, r_hist := SysSleep 250 # h\<rparr>"
  let ?g = "SysClose (ls_sockfd L) # SysShutdown (ls_sockfd L) 0 # SysSleep 250 # h"
  let ?s4 = "?s3\<lparr>r_stp := Closed, r_hist := ?g\<rparr>"
  let ?s5 = "?s4\<lparr>r_obj := L\<lparr>ls_listening := 0, ls_sockfd := 0\<rparr>, r_stp := After\<rparr>"
  have "?st ?s0 ?s1" by (rule rstep.LoopOn) (use assms in \<open>simp_all add: race_start_def\<close>)
  then have 1: "?r ?s1" by (rule rreach.Step [OF rreach.Refl])
  have "?st ?s1 ?s2" using rstep.Clear [of ?s1 K c option flags False] by (simp add: race_start_def)
  with 1 have 2: "?r ?s2" by (rule rreach.Step)
  have "?st ?s2 ?s3" using rstep.Sleep [of ?s2 False K c option flags] by (simp add: race_start_def)
  with 2 have 3: "?r ?s3" by (rule rreach.Step)
  have "?st ?s3 ?s4" using rstep.Close [of ?s3 K c option flags False] assms(2) by simp
  with 3 have 4: "?r ?s4" by (rule rreach.Step)
  have "?st ?s4 ?s5" using rstep.Zero [of ?s4 K c option flags False] by simp
  with 4 have 5: "?r ?s5" by (rule rreach.Step)
  have acc: "?st s (after_client None (r_thr s)
      (SysSleep 100 # SysAccept (ls_sockfd (r_obj s)) (-1) (snd (os_accept K (r_hist s) (ls_sockfd (r_obj s)))) # r_hist s) s)"
    if "r_srv s = AtAccept" for s
    by (rule rstep.AcceptNone [OF that]) (use none in \<open>simp add: prod_eq_iff\<close>)
  have "\<exists>s a g. ?r s \<and> r_hist s = SysSleep 100 # SysAccept (ls_sockfd L) (-1) a # g \<and> SysClose (ls_sockfd L) \<in> set g"
    by (intro exI conjI, rule rreach.Step [OF 4 acc], simp, simp add: after_client_def, simp)
  moreover have "\<exists>s a g. ?r s \<and> r_hist s = SysSleep 100 # SysAccept 0 (-1) a # g"
    by (intro exI conjI, rule rreach.Step [OF 5 acc]) (simp_all add: after_client_def)
  ultimately show ?thesis by blast
qed

end
