(* ===== verification/Nc_Net.thy ===== *)
theory Nc_Net
  imports Nc_Client Nc_Session Nc_Listener_Race
begin

text \<open>
  The whole process: a TCP listener, the thread that stops it, the threads that serve its
  connections (\<open>NC_THREADED\<close> and \<open>NC_DETACHED\<close>, where nobody waits for them) and threads that use
  sockets of their own. The server and the stopper make the steps of \<open>rstep\<close>; a connection that
  the server hands over becomes a thread that runs some callback on its object; each thread makes
  the steps of \<open>client_step\<close>. Steps of different threads alternate in any order, and all share the
  history and thereby the descriptor table.
\<close>

section \<open>The step relation\<close>

record net =
  n_srv :: rstate
  n_cls :: "client list"

definition n_hist :: "net \<Rightarrow> hist" where
  "n_hist s = r_hist (n_srv s)"

text \<open>\<open>callback\<close>: what the callbacks of the program may do with their object.\<close>

definition new_threads ::
    "config \<Rightarrow> (sock_method list \<Rightarrow> bool) \<Rightarrow> hist \<Rightarrow> hist \<Rightarrow> client list \<Rightarrow> bool" where
  "new_threads c callback h h' new \<longleftrightarrow>
     map cl_sock new = handed_since c h h' \<and> list_all (\<lambda>C. cl_now C = Idle \<and> callback (cl_work C)) new"

inductive nstep ::
    "os \<Rightarrow> config \<Rightarrow> bool \<Rightarrow> (sock_method list \<Rightarrow> bool) \<Rightarrow> net \<Rightarrow> net \<Rightarrow> bool"
  for K c patient callback where
  Server: "rstep K c NC_THREADED NC_DETACHED patient r r' \<Longrightarrow>
     new_threads c callback (r_hist r) (r_hist r') new \<Longrightarrow>
     nstep K c patient callback \<lparr>n_srv = r, n_cls = cs\<rparr> \<lparr>n_srv = r', n_cls = cs @ new\<rparr>"
| Thread: "i < length cs \<Longrightarrow> cl_now (cs ! i) \<noteq> Gone \<Longrightarrow> client_step K c (cs ! i, r_hist r) = (C', h') \<Longrightarrow>
     nstep K c patient callback \<lparr>n_srv = r, n_cls = cs\<rparr> \<lparr>n_srv = r\<lparr>r_hist := h'\<rparr>, n_cls = cs[i := C']\<rparr>"

inductive nreach ::
    "os \<Rightarrow> config \<Rightarrow> bool \<Rightarrow> (sock_method list \<Rightarrow> bool) \<Rightarrow> net \<Rightarrow> net \<Rightarrow> bool"
  for K c patient callback s0 where
  Refl: "nreach K c patient callback s0 s0"
| Step: "nreach K c patient callback s0 s \<Longrightarrow> nstep K c patient callback s s' \<Longrightarrow>
     nreach K c patient callback s0 s'"

section \<open>Who owns which descriptor\<close>

definition client_fds :: "client list \<Rightarrow> fd list" where
  "client_fds cs = concat (map (\<lambda>C. held (m_sockfd (cl_sock C))) cs)"

text \<open>\<open>l\<close> is the listener's descriptor; \<open>stopListening\<close> gives it up when it closes it.\<close>

definition listener_fd :: "fd \<Rightarrow> stopper_pc \<Rightarrow> fd list" where
  "listener_fd l p = (if p \<in> {Before, Cleared, Slept} then [l] else [])"

definition owned :: "fd \<Rightarrow> net \<Rightarrow> fd list" where
  "owned l s = listener_fd l (r_stp (n_srv s)) @ client_fds (n_cls s)"

lemma client_fds_simps [simp]:
  "client_fds [] = []" "client_fds (C # cs) = held (m_sockfd (cl_sock C)) @ client_fds cs"
  "client_fds (cs @ ds) = client_fds cs @ client_fds ds"
  by (simp_all add: client_fds_def)

primrec accepts_on :: "fd \<Rightarrow> hist \<Rightarrow> bool" where
  "accepts_on l [] = True"
| "accepts_on l (e # h) = (accepts_on l h \<and> (case e of SysAccept s fd a \<Rightarrow> s = l | _ \<Rightarrow> True))"

lemma talks_accepts: "talks fd h h' \<Longrightarrow> accepts_on l h' = accepts_on l h"
  by (induction rule: talks_induct) (auto split: call.splits)

text \<open>The part of the server: where its object and its program counter are.\<close>

definition server_inv :: "fd \<Rightarrow> rstate \<Rightarrow> bool" where
  "server_inv l r \<longleftrightarrow> (r_stp r \<noteq> Before \<longrightarrow> ls_listening (r_obj r) = 0) \<and>
     (r_stp r \<in> {Before, Cleared, Slept} \<longrightarrow> ls_sockfd (r_obj r) = l) \<and>
     (r_stp r \<notin> {Before, Cleared} \<longrightarrow> r_srv r \<noteq> AtAccept)"

text \<open>The table: every owner's descriptor is open and no two owners share one.\<close>

definition table_inv :: "config \<Rightarrow> fd \<Rightarrow> fd list \<Rightarrow> hist \<Rightarrow> bool" where
  "table_inv c l fds h \<longleftrightarrow> orderly c h \<and> accepts_on l h \<and> 0 \<in> open_fds h \<and>
     distinct fds \<and> set fds \<subseteq> open_fds h \<and> mset (closes h) + mset fds = mset (births h)"

definition net_inv :: "config \<Rightarrow> fd \<Rightarrow> net \<Rightarrow> bool" where
  "net_inv c l s \<longleftrightarrow> 0 < l \<and> server_inv l (n_srv s) \<and> list_all client_ok (n_cls s) \<and>
     table_inv c l (owned l s) (n_hist s)"

section \<open>A step of a client thread\<close>

lemma deed_accepts:
  assumes "deed K c (fd, h) (fd', h')"
  shows "accepts_on l h' = accepts_on l h"
  using assms by (cases rule: deed_cases) (auto simp: talks_accepts)

lemma deed_table:
  assumes "table_inv c l (A @ held fd @ B) h" "deed K c (fd, h) (fd', h')" "fresh_doc K" "-1 \<le> fd"
  shows "table_inv c l (A @ held fd' @ B) h'"
proof -
  from assms(1) have t: "orderly c h" "accepts_on l h" "0 \<in> open_fds h" "distinct (A @ held fd @ B)"
    "set (A @ held fd @ B) \<subseteq> open_fds h" "mset (closes h) + mset (A @ held fd @ B) = mset (births h)"
    by (simp_all add: table_inv_def)
  have own: "set (held fd) \<subseteq> open_fds h" using t(5) by simp
  note k = deed_keeps [OF assms(2,3) t(3) own assms(4)]
  have others: "set A \<union> set B \<subseteq> open_fds h - set (held fd)" using t(4,5) by auto
  have "set (held fd') \<subseteq> set (held fd) \<union> - open_fds h" using k(5) by auto
  then have "set (held fd') \<inter> (set A \<union> set B) = {}" using others by blast
  moreover have "distinct (held fd')" by (simp add: held_def)
  ultimately have d: "distinct (A @ held fd' @ B)" using t(4) by auto
  have "0 \<in> open_fds h'" using k(4) t(3) by auto
  moreover have "set (A @ held fd' @ B) \<subseteq> open_fds h'" using others k(3,4) by auto
  moreover have "mset (closes h') + mset (A @ held fd' @ B) = mset (births h')"
  proof -
    have "(mset (closes h') + mset (held fd') + mset A + mset B) + mset (births h) =
        (mset (closes h) + mset (held fd) + mset A + mset B) + mset (births h')"
      using k(6) by (simp add: ac_simps)
    with t(6) show ?thesis by (simp add: ac_simps)
  qed
  ultimately show ?thesis using t k(2) d deed_accepts [OF assms(2)] by (simp add: table_inv_def)
qed

lemma thread_net_inv:
  assumes "net_inv c l \<lparr>n_srv = r, n_cls = cs\<rparr>" "i < length cs" "fresh_doc K"
    and "client_step K c (cs ! i, r_hist r) = (C', h')"
  shows "net_inv c l \<lparr>n_srv = r\<lparr>r_hist := h'\<rparr>, n_cls = cs[i := C']\<rparr>"
proof -
  let ?fd = "\<lambda>C. m_sockfd (cl_sock C)"
  let ?A = "listener_fd l (r_stp r) @ client_fds (take i cs)" and ?B = "client_fds (drop (Suc i) cs)"
  have cs: "cs = take i cs @ cs ! i # drop (Suc i) cs" by (rule id_take_nth_drop [OF assms(2)])
  have "client_fds cs = client_fds (take i cs) @ held (?fd (cs ! i)) @ ?B"
    by (subst cs) simp
  with assms(1) have t: "table_inv c l (?A @ held (?fd (cs ! i)) @ ?B) (r_hist r)"
    and ok: "list_all client_ok cs" and rest: "0 < l" "server_inv l r"
    by (simp_all add: net_inv_def owned_def n_hist_def)
  have Ci: "client_ok (cs ! i)" using ok assms(2) by (simp add: list_all_length)
  have zero: "0 \<in> open_fds (r_hist r)" using t by (simp add: table_inv_def)
  have p: "client_ok C'" "deed K c (?fd (cs ! i), r_hist r) (?fd C', h')"
    using client_step_proper [OF Ci assms(3) zero, of c] by (simp_all add: proper_step_def assms(4))
  have "-1 \<le> ?fd (cs ! i)" using Ci by (simp add: client_ok_def)
  from deed_table [OF t p(2) assms(3) this] have "table_inv c l (?A @ held (?fd C') @ ?B) h'" .
  moreover have "list_all client_ok (cs[i := C'])"
    using ok p(1) set_update_subset_insert [of cs i C'] by (auto simp: list_all_iff)
  moreover have "client_fds (cs[i := C']) = client_fds (take i cs) @ held (?fd C') @ ?B"
    using assms(2) by (simp add: upd_conv_take_nth_drop)
  ultimately show ?thesis
    using rest by (simp add: net_inv_def owned_def n_hist_def server_inv_def)
qed

section \<open>A step of the server or of the stopper\<close>

text \<open>One connection: its thread gets the descriptor, or the server closes it.\<close>

lemma serve_client_table:
  assumes "serve_client K c NC_THREADED NC_DETACHED fd a T h = (out, T', h')"
    and "os_new K h" "threads c \<noteq> NoThreads" "0 < fd" "fd \<in> open_fds h"
  shows "births h' = births h \<and> accepts_on l h' = accepts_on l h \<and> (orderly c h \<longrightarrow> orderly c h') \<and>
    (handed c h' = handed c h @ [client_socket c (fd, a)] \<and> closes h' = closes h \<and> open_fds h' = open_fds h \<or>
     handed c h' = handed c h \<and> closes h' = closes h @ [fd] \<and> open_fds h' = open_fds h - {fd})"
  using assms
  by (auto simp: serve_client_def serve_threaded_def ncThread_start_alt ncThread_detach_alt
      client_socket_def thread_ran_def ncSocket_destroy_def setIpAddr_def
      ncSocket_of_fd_def Let_def split: if_splits prod.splits)

definition served :: "config \<Rightarrow> fd \<Rightarrow> fd list \<Rightarrow> rstate \<Rightarrow> rstate \<Rightarrow> bool" where
  "served c l rest r r' \<longleftrightarrow> server_inv l r' \<and>
     (\<exists>new. handed_since c (r_hist r) (r_hist r') = map (client_socket c) new \<and>
        list_all (\<lambda>(fd, a). 0 < fd) new \<and>
        table_inv c l (listener_fd l (r_stp r') @ rest @ map fst new) (r_hist r'))"

lemma served_quiet:
  assumes "server_inv l r'" "handed c (r_hist r') = handed c (r_hist r)"
    and "table_inv c l (listener_fd l (r_stp r') @ rest) (r_hist r')"
  shows "served c l rest r r'"
  using assms by (auto simp: served_def handed_since_def intro!: exI [of _ "[]"])

lemma accept_served:
  assumes t: "table_inv c l (own @ rest) h" and l: "l \<in> open_fds h"
    and acc: "os_accept K h l = (fd, a)" "fd \<noteq> -1" and K: "fresh_doc K" "\<forall>g. os_new K g" "threads c \<noteq> NoThreads"
    and s: "serve_client K c NC_THREADED NC_DETACHED fd a T (SysAccept l fd a # h) = (out, T', h')"
  shows "\<exists>new. handed_since c h h' = map (client_socket c) new \<and> list_all (\<lambda>(fd, a). 0 < fd) new \<and>
    table_inv c l (own @ rest @ map fst new) h'"
proof -
  let ?h = "SysAccept l fd a # h"
  have "0 \<le> fd \<and> fd \<notin> open_fds h" using K(1) acc unfolding fresh_doc_def by (metis fst_conv)
  moreover have "0 \<in> open_fds h" using t by (simp add: table_inv_def)
  ultimately have fd: "0 < fd" "fd \<notin> open_fds h" by (auto simp: order_less_le)
  have new: "fd \<notin> set own \<union> set rest" using t fd(2) by (auto simp: table_inv_def)
  have "fd \<in> open_fds ?h" using acc(2) by simp
  note c = serve_client_table [OF s _ K(3) fd(1) this]
  have ot: "orderly c ?h" "accepts_on l ?h" using t l by (simp_all add: table_inv_def)
  from c K(2) consider (thread) "handed c h' = handed c h @ [client_socket c (fd, a)]" "closes h' = closes h"
      "open_fds h' = insert fd (open_fds h)"
    | (none) "handed c h' = handed c h" "closes h' = closes h @ [fd]" "open_fds h' = insert fd (open_fds h) - {fd}"
    using acc(2) by auto
  then show ?thesis
  proof cases
    case thread
    have "table_inv c l (own @ rest @ map fst [(fd, a)]) h'"
      using t c K(2) ot new fd acc(2) thread by (auto simp: table_inv_def)
    with thread(1) fd(1) show ?thesis by (intro exI [of _ "[(fd, a)]"]) (simp add: handed_since_def)
  next
    case none
    have "table_inv c l (own @ rest) h'"
      using t c K(2) ot new fd acc(2) none by (auto simp: table_inv_def)
    with none(1) show ?thesis by (intro exI [of _ "[]"]) (simp add: handed_since_def)
  qed
qed

lemma rstep_served:
  assumes st: "rstep K c NC_THREADED NC_DETACHED True r r'" and inv: "server_inv l r"
    and t: "table_inv c l (listener_fd l (r_stp r) @ rest) (r_hist r)"
    and K: "fresh_doc K" "\<forall>g. os_new K g" "threads c \<noteq> NoThreads" and l: "0 < l"
  shows "served c l rest r r'"
  using st
proof (cases rule: rstep.cases)
  case (Accept fd a out T h)
  have stp: "r_stp r \<in> {Before, Cleared}" "ls_sockfd (r_obj r) = l"
    using inv Accept(2) by (auto simp: server_inv_def)
  then have "l \<in> open_fds (r_hist r)" using t by (auto simp: table_inv_def listener_fd_def)
  from accept_served [OF t this _ Accept(4) K] Accept(3,5) stp(2) show ?thesis
    using inv stp Accept(1) by (auto simp: served_def after_client_def server_inv_def split: option.splits)
next
  case (AcceptNone a)
  have stp: "r_stp r \<in> {Before, Cleared}" "ls_sockfd (r_obj r) = l"
    using inv AcceptNone(2) by (auto simp: server_inv_def)
  then have "l \<in> open_fds (r_hist r)" using t by (auto simp: table_inv_def listener_fd_def)
  then show ?thesis
    using inv t stp AcceptNone(1)
    by (intro served_quiet) (auto simp: server_inv_def after_client_def table_inv_def)
next
  case Close
  then have "ls_sockfd (r_obj r) = l" "l \<in> open_fds (r_hist r)"
    using inv t by (auto simp: server_inv_def table_inv_def listener_fd_def)
  then show ?thesis
    using inv t l Close
    by (intro served_quiet) (auto simp: server_inv_def table_inv_def listener_fd_def)
next
  case NoSocket
  then have "ls_sockfd (r_obj r) = l" using inv by (simp add: server_inv_def)
  with NoSocket l show ?thesis by simp
qed (use inv t in \<open>auto intro!: served_quiet simp: server_inv_def table_inv_def listener_fd_def\<close>)

lemma new_clients_ok:
  assumes "map cl_sock cs = map (client_socket c) new" "list_all (\<lambda>(fd, a). 0 < fd) new"
    and "list_all (\<lambda>C. cl_now C = Idle \<and> callback (cl_work C)) cs" "\<And>ms. callback ms \<Longrightarrow> tidy True ms"
  shows "list_all client_ok cs \<and> client_fds cs = map fst new"
  using assms(1-3)
proof (induction cs arbitrary: new)
  case (Cons C cs)
  then obtain x new' where "new = x # new'" by (cases new) auto
  with Cons assms(4) show ?case by (cases x) (auto simp: client_ok_def held_def)
qed simp

lemma net_step_inv:
  assumes "nstep K c True callback s s'" "net_inv c l s"
    and K: "fresh_doc K" "\<forall>g. os_new K g" "threads c \<noteq> NoThreads"
    and "\<And>ms. callback ms \<Longrightarrow> tidy True ms"
  shows "net_inv c l s'"
  using assms(1)
proof (cases rule: nstep.cases)
  case (Server r r' new cs)
  have inv: "server_inv l r" "table_inv c l (listener_fd l (r_stp r) @ client_fds cs) (r_hist r)" "0 < l"
    "list_all client_ok cs"
    using assms(2) Server(1) by (simp_all add: net_inv_def owned_def n_hist_def)
  from rstep_served [OF Server(3) inv(1,2) K inv(3)] obtain xs where
    "server_inv l r'" "handed_since c (r_hist r) (r_hist r') = map (client_socket c) xs"
    "list_all (\<lambda>(fd, a). 0 < fd) xs"
    "table_inv c l (listener_fd l (r_stp r') @ client_fds cs @ map fst xs) (r_hist r')"
    by (auto simp: served_def)
  with new_clients_ok [of new c xs callback] Server(4) assms(6) inv show ?thesis
    by (simp add: Server(2) new_threads_def net_inv_def owned_def n_hist_def)
next
  case (Thread i cs r C' h')
  with thread_net_inv [of c l r cs i K C' h'] assms(2) K(1) show ?thesis by simp
qed

lemma net_reach_inv:
  assumes "nreach K c True callback s0 s" "net_inv c l s0"
    and "fresh_doc K" "\<forall>g. os_new K g" "threads c \<noteq> NoThreads"
    and "\<And>ms. callback ms \<Longrightarrow> tidy True ms"
  shows "net_inv c l s"
  using assms(1)
proof (induction rule: nreach.induct)
  case Refl show ?case by (rule assms(2))
next
  case (Step s s') from net_step_inv [OF Step(2,3) assms(3-6)] show ?case by blast
qed

section \<open>Properties\<close>

text \<open>
  The start: the listener has its socket \<open>l\<close> and enters the accept loop; the other threads, if any,
  have objects that are not connected yet.
\<close>

definition net_start :: "ncSocketListener \<Rightarrow> ncThread \<Rightarrow> hist \<Rightarrow> client list \<Rightarrow> net" where
  "net_start L T h cs = \<lparr>n_srv = race_start L T h, n_cls = cs\<rparr>"

definition good_start :: "config \<Rightarrow> fd \<Rightarrow> hist \<Rightarrow> client list \<Rightarrow> bool" where
  "good_start c l h cs \<longleftrightarrow> 0 < l \<and> {0, l} \<subseteq> open_fds h \<and> orderly c h \<and> accepts_on l h \<and>
     mset (closes h) + {#l#} = mset (births h) \<and>
     list_all client_ok cs \<and> list_all (\<lambda>C. m_sockfd (cl_sock C) \<le> 0) cs"

text \<open>
  What is assumed of the rest of the process: the kernel gives out fresh descriptors, memory does
  not run out, there are threads, and callbacks are tidy.
\<close>

definition good_process :: "os \<Rightarrow> config \<Rightarrow> (sock_method list \<Rightarrow> bool) \<Rightarrow> bool" where
  "good_process K c callback \<longleftrightarrow> fresh_doc K \<and> (\<forall>g. os_new K g) \<and> threads c \<noteq> NoThreads \<and>
     (\<forall>ms. callback ms \<longrightarrow> tidy True ms)"

lemma start_inv:
  assumes "good_start c (ls_sockfd L) h cs"
  shows "net_inv c (ls_sockfd L) (net_start L T h cs)"
proof -
  have "list_all (\<lambda>C. m_sockfd (cl_sock C) \<le> 0) cs \<Longrightarrow> client_fds cs = []" for cs
    by (induction cs) (auto simp: held_def)
  then have "client_fds cs = []" using assms by (simp add: good_start_def)
  with assms show ?thesis
    by (simp add: good_start_def net_inv_def net_start_def race_start_def server_inv_def owned_def
        listener_fd_def n_hist_def table_inv_def)
qed

lemma net_always:
  assumes "nreach K c True callback (net_start L T h cs) s"
    and "good_process K c callback" "good_start c (ls_sockfd L) h cs"
  shows "net_inv c (ls_sockfd L) s"
  by (rule net_reach_inv [OF assms(1) start_inv [OF assms(3)]])
    (use assms(2) in \<open>auto simp: good_process_def\<close>)

lemma all_closed:
  assumes "net_inv c l s" "r_stp (n_srv s) = After" "list_all (\<lambda>C. cl_now C = Gone) (n_cls s)"
  shows "mset (closes (n_hist s)) = mset (births (n_hist s))"
proof -
  have "client_fds cs = []" if "list_all client_ok cs" "list_all (\<lambda>C. cl_now C = Gone) cs" for cs
    using that by (induction cs) (auto simp: client_ok_def held_def)
  with assms show ?thesis by (auto simp: net_inv_def table_inv_def owned_def listener_fd_def)
qed

text \<open>
  C6: in any interleaving of the server, \<open>stopListening\<close> and any number of client threads, as long
  as the sleep of \<open>stopListening\<close> is long enough: no call is ever made on a descriptor that is not
  open, in particular none is closed twice; the server accepts on its own socket only; no two
  objects hold the same descriptor, even though the kernel hands closed ones out again; and each
  thread works on, closes or replaces its own descriptor only. An object that holds no descriptor
  may pass -1 to a call; to \<open>close\<close> it does so on Windows only, from its destructor, where the call
  fails.
\<close>

theorem net_descriptors_safe:
  assumes "nreach K c True callback (net_start L T h cs) s"
    and "good_process K c callback" "good_start c (ls_sockfd L) h cs"
  shows "orderly c (n_hist s) \<and> accepts_on (ls_sockfd L) (n_hist s) \<and>
    distinct (owned (ls_sockfd L) s) \<and> set (owned (ls_sockfd L) s) \<subseteq> open_fds (n_hist s) \<and>
    (\<forall>C \<in> set (n_cls s). proper_step K c (C, n_hist s) (client_step K c (C, n_hist s)))"
proof -
  have inv: "net_inv c (ls_sockfd L) s" by (rule net_always [OF assms])
  then have "list_all client_ok (n_cls s)" "0 \<in> open_fds (n_hist s)"
    by (simp_all add: net_inv_def table_inv_def)
  then have "\<forall>C \<in> set (n_cls s). proper_step K c (C, n_hist s) (client_step K c (C, n_hist s))"
    using client_step_proper assms(2) by (auto simp: good_process_def list_all_iff)
  with inv show ?thesis by (simp add: net_inv_def table_inv_def)
qed

text \<open>
  C14: when \<open>stopListening\<close> has returned and the client threads are gone, every descriptor the
  process ever got, the listener's, the accepted ones and those of \<open>connect\<close>, has been closed exactly
  as often as the kernel gave it out; before that, those not closed are the ones still owned. (A
  close of -1, which the destructor of a closed object makes on Windows, closes nothing and is not
  counted.)
\<close>

theorem net_closes_once:
  assumes "nreach K c True callback (net_start L T h cs) s"
    and "good_process K c callback" "good_start c (ls_sockfd L) h cs"
  shows "mset (closes (n_hist s)) + mset (owned (ls_sockfd L) s) = mset (births (n_hist s)) \<and>
    (r_stp (n_srv s) = After \<longrightarrow> list_all (\<lambda>C. cl_now C = Gone) (n_cls s) \<longrightarrow>
       mset (closes (n_hist s)) = mset (births (n_hist s)))"
proof -
  have inv: "net_inv c (ls_sockfd L) s" by (rule net_always [OF assms])
  with all_closed [OF inv] show ?thesis by (auto simp: net_inv_def table_inv_def)
qed

section \<open>Runs\<close>

definition serving_os :: os where
  "serving_os = lowest_os
     \<lparr>os_accept := \<lambda>h fd. (if accepted h = [] then lowest_fd h else -1, zero_sockaddr),
      os_thread_create := \<lambda>h a. (0, 7), os_thread_detach := \<lambda>h t. 0\<rparr>"

lemma linux_platform: "cfg_platform linux_config = Linux"
  by (simp add: linux_config_def)

lemma serving_os_good: "good_process serving_os linux_config (tidy True)"
  using lowest_fd
  by (simp add: good_process_def fresh_doc_def serving_os_def lowest_os_def ready_os_def dead_os_def
      threads_def linux_config_def)

definition on_socket_3 :: hist where
  "on_socket_3 = [SysSocket SOCK_STREAM 3]"

lemma start_on_socket_3:
  "good_start linux_config (ls_sockfd listening_obj) on_socket_3 []"
  "good_start linux_config (ls_sockfd listening_obj) on_socket_3
     [\<lparr>cl_sock = ncSocket_default linux_config, cl_work = [MConnectTo zero_sockaddr (Some [49]) 80 SOCKTYPE_TCPIP],
       cl_now = Idle\<rparr>]"
  by (simp_all add: good_start_def on_socket_3_def listening_obj_def client_ok_def ncSocket_default_def)

lemma server_moves:
  assumes "nreach K c patient callback s0 \<lparr>n_srv = r, n_cls = cs\<rparr>"
    and "rstep K c NC_THREADED NC_DETACHED patient r r'" "handed c (r_hist r') = handed c (r_hist r)"
  shows "nreach K c patient callback s0 \<lparr>n_srv = r', n_cls = cs\<rparr>"
proof -
  have "new_threads c callback (r_hist r) (r_hist r') []"
    by (simp add: new_threads_def handed_since_def assms(3))
  from nreach.Step [OF assms(1) nstep.Server [OF assms(2) this]] show ?thesis by simp
qed

lemma thread_moves:
  assumes "nreach K c patient callback s0 \<lparr>n_srv = r, n_cls = [C]\<rparr>" "cl_now C \<noteq> Gone"
    and "client_step K c (C, r_hist r) = (C', h')"
  shows "nreach K c patient callback s0 \<lparr>n_srv = r\<lparr>r_hist := h'\<rparr>, n_cls = [C']\<rparr>"
  using nreach.Step [OF assms(1) nstep.Thread [of 0 "[C]" K c r C' h']] assms(2,3) by simp

definition served_hist :: hist where
  "served_hist = ThreadDetach 7 0 # ThreadCreate (CbSocket (client_socket linux_config (4, zero_sockaddr))) 0 7 #
     SysNew True # SysAccept 3 4 zero_sockaddr # on_socket_3"

lemma first_client:
  "os_accept serving_os on_socket_3 3 = (4, zero_sockaddr)"
  "serve_client serving_os linux_config NC_THREADED NC_DETACHED 4 zero_sockaddr
     \<lparr>th_retVal = 0, ncthread = 0\<rparr> (SysAccept 3 4 zero_sockaddr # on_socket_3) =
   (None, \<lparr>th_retVal = 0, ncthread = 7\<rparr>, served_hist)"
proof -
  have "lowest_fd on_socket_3 = 4" by (simp add: lowest_fd_def on_socket_3_def upt_rec)
  then show "os_accept serving_os on_socket_3 3 = (4, zero_sockaddr)"
    by (simp add: serving_os_def on_socket_3_def)
  show "serve_client serving_os linux_config NC_THREADED NC_DETACHED 4 zero_sockaddr
     \<lparr>th_retVal = 0, ncthread = 0\<rparr> (SysAccept 3 4 zero_sockaddr # on_socket_3) =
   (None, \<lparr>th_retVal = 0, ncthread = 7\<rparr>, served_hist)"
    by (simp add: serve_client_def serve_threaded_def ncThread_start_alt ncThread_detach_alt threads_def
        linux_config_def serving_os_def lowest_os_def ready_os_def dead_os_def served_hist_def
        client_socket_def NC_DETACHED_def NC_THREADED_def)
qed

text \<open>One client is served on descriptor 4 while the listener on descriptor 3 is stopped.\<close>

lemma one_client_run:
  "\<exists>s. nreach serving_os linux_config True (tidy True)
      (net_start listening_obj \<lparr>th_retVal = 0, ncthread = 0\<rparr> on_socket_3 []) s \<and>
    r_stp (n_srv s) = After \<and> list_all (\<lambda>C. cl_now C = Gone) (n_cls s) \<and> births (n_hist s) = [3, 4] \<and>
    n_cls s \<noteq> []"
proof -
  let ?T = "\<lparr>th_retVal = 0, ncthread = 0\<rparr>" and ?T1 = "\<lparr>th_retVal = 0, ncthread = 7\<rparr>"
  let ?reach = "\<lambda>r cs. nreach serving_os linux_config True (tidy True)
    (net_start listening_obj ?T on_socket_3 []) \<lparr>n_srv = r, n_cls = cs\<rparr>"
  let ?st = "rstep serving_os linux_config NC_THREADED NC_DETACHED True"
  let ?S = "client_socket linux_config (4, zero_sockaddr)"
  let ?L = "listening_obj\<lparr>ls_listening := 0\<rparr>"
  let ?C = "\<lparr>cl_sock = ?S, cl_work = [MClose], cl_now = Idle\<rparr>"
  let ?C1 = "\<lparr>cl_sock = ?S\<lparr>m_sockfd := -1\<rparr>, cl_work = [], cl_now = Idle\<rparr>"
  let ?C2 = "\<lparr>cl_sock = ?S\<lparr>m_sockfd := -1\<rparr>, cl_work = [], cl_now = Gone\<rparr>"
  let ?r0 = "race_start listening_obj ?T on_socket_3"
  let ?r1 = "?r0\<lparr>r_srv := AtAccept\<rparr>"
  let ?r2 = "?r0\<lparr>r_srv := AtCheck, r_thr := ?T1, r_hist := served_hist\<rparr>"
  let ?r3 = "?r2\<lparr>r_obj := ?L, r_stp := Cleared, r_mark := rounds served_hist\<rparr>"
  let ?h4 = "SysClose 4 # served_hist"
  let ?r4 = "?r3\<lparr>r_hist := ?h4\<rparr>"
  let ?r5 = "?r4\<lparr>r_stp := Slept, r_hist := SysSleep 250 # ?h4\<rparr>"
  let ?r6 = "?r5\<lparr>r_stp := Closed, r_hist := SysClose 3 # SysShutdown 3 0 # SysSleep 250 # ?h4\<rparr>"
  let ?r7 = "?r6\<lparr>r_obj := ?L\<lparr>ls_sockfd := 0\<rparr>, r_stp := After\<rparr>"
  have "?reach ?r0 []" using nreach.Refl [of serving_os linux_config True "tidy True" "net_start listening_obj ?T on_socket_3 []"]
    by (simp add: net_start_def)
  moreover have "?st ?r0 ?r1" by (rule rstep.LoopOn) (simp_all add: race_start_def listening_obj_def)
  ultimately have 1: "?reach ?r1 []" by (rule server_moves) simp
  have "?st ?r1 (after_client None ?T1 served_hist ?r1)"
    by (rule rstep.Accept) (use first_client in \<open>simp_all add: race_start_def listening_obj_def\<close>)
  moreover have "after_client None ?T1 served_hist ?r1 = ?r2" by (simp add: after_client_def race_start_def)
  moreover have "new_threads linux_config (tidy True) (r_hist ?r1) served_hist [?C]"
    by (simp add: new_threads_def handed_since_def race_start_def on_socket_3_def thread_ran_def threads_def
        linux_config_def served_hist_def)
  ultimately have 2: "?reach ?r2 [?C]"
    using nreach.Step [OF 1 nstep.Server [of serving_os linux_config True ?r1 ?r2 "tidy True" "[?C]" "[]"]] by simp
  have "?st ?r2 ?r3" using rstep.Clear [of ?r2] by (simp add: race_start_def)
  from server_moves [OF 2 this] have "?reach ?r3 [?C]" by simp
  then have "?reach ?r4 [?C1]"
    using thread_moves [of serving_os linux_config True "tidy True" _ ?r3 ?C ?C1 ?h4]
    by (simp add: client_step_def ncSocket_close_def)
  then have 4: "?reach ?r4 [?C2]"
    using thread_moves [of serving_os linux_config True "tidy True" _ ?r4 ?C1 ?C2 ?h4]
    by (simp add: client_step_def ncSocket_destroy_def linux_platform)
  have "?st ?r4 ?r5" using rstep.Sleep [of ?r4 True] by (simp add: race_start_def)
  from server_moves [OF 4 this] have 5: "?reach ?r5 [?C2]" by simp
  have "?st ?r5 ?r6" using rstep.Close [of ?r5] by (simp add: listening_obj_def)
  from server_moves [OF 5 this] have 6: "?reach ?r6 [?C2]" by simp
  have "?st ?r6 ?r7" using rstep.Zero [of ?r6] by simp
  from server_moves [OF 6 this] have "?reach ?r7 [?C2]" by simp
  then show ?thesis
    by (intro exI [of _ "\<lparr>n_srv = ?r7, n_cls = [?C2]\<rparr>"]) (simp add: n_hist_def on_socket_3_def served_hist_def)
qed

theorem net_descriptors_safe_witness:
  "\<exists>s. births (n_hist s) = [3, 4] \<and> (let l = ls_sockfd listening_obj in
    orderly linux_config (n_hist s) \<and> accepts_on l (n_hist s) \<and>
    distinct (owned l s) \<and> set (owned l s) \<subseteq> open_fds (n_hist s) \<and>
    (\<forall>C \<in> set (n_cls s). proper_step serving_os linux_config (C, n_hist s) (client_step serving_os linux_config (C, n_hist s))))"
proof -
  obtain s where s: "nreach serving_os linux_config True (tidy True)
      (net_start listening_obj \<lparr>th_retVal = 0, ncthread = 0\<rparr> on_socket_3 []) s" "births (n_hist s) = [3, 4]"
    using one_client_run by blast
  from net_descriptors_safe [OF s(1) serving_os_good start_on_socket_3(1)] s(2) show ?thesis
    unfolding Let_def by blast
qed

theorem net_closes_once_witness:
  "\<exists>s. births (n_hist s) = [3, 4] \<and> mset (closes (n_hist s)) = mset (births (n_hist s)) \<and>
    owned (ls_sockfd listening_obj) s = []"
proof -
  obtain s where s: "nreach serving_os linux_config True (tidy True)
      (net_start listening_obj \<lparr>th_retVal = 0, ncthread = 0\<rparr> on_socket_3 []) s" "births (n_hist s) = [3, 4]"
    "r_stp (n_srv s) = After" "list_all (\<lambda>C. cl_now C = Gone) (n_cls s)"
    using one_client_run by blast
  from net_closes_once [OF s(1) serving_os_good start_on_socket_3(1)] s(2-) show ?thesis by auto
qed

text \<open>
  Without that sleep the threads get in each other's way: \<open>stopListening\<close> closes the listener's
  descriptor, another thread connects and is given its number, and the server, which has not seen
  the stop, calls \<open>accept\<close> on the connection of that thread.
\<close>

lemma net_interference:
  "\<exists>s s' C addr g a. nreach lowest_os linux_config False (tidy True)
      (net_start listening_obj \<lparr>th_retVal = 0, ncthread = 0\<rparr> on_socket_3
        [\<lparr>cl_sock = ncSocket_default linux_config,
          cl_work = [MConnectTo zero_sockaddr (Some [49]) 80 SOCKTYPE_TCPIP], cl_now = Idle\<rparr>]) s \<and>
    n_cls s = [C] \<and> m_sockfd (cl_sock C) = 3 \<and> n_hist s = SysConnect 3 addr 0 # g \<and>
    nstep lowest_os linux_config False (tidy True) s s' \<and>
    n_hist s' = SysSleep 100 # SysAccept 3 (-1) a # n_hist s"
proof -
  let ?T = "\<lparr>th_retVal = 0, ncthread = 0\<rparr>"
  let ?C = "\<lparr>cl_sock = ncSocket_default linux_config,
    cl_work = [MConnectTo zero_sockaddr (Some [49]) 80 SOCKTYPE_TCPIP], cl_now = Idle\<rparr>"
  let ?reach = "\<lambda>r cs. nreach lowest_os linux_config False (tidy True)
    (net_start listening_obj ?T on_socket_3 [?C]) \<lparr>n_srv = r, n_cls = cs\<rparr>"
  let ?st = "rstep lowest_os linux_config NC_THREADED NC_DETACHED False"
  let ?L = "listening_obj\<lparr>ls_listening := 0\<rparr>"
  let ?r0 = "race_start listening_obj ?T on_socket_3"
  let ?r1 = "?r0\<lparr>r_srv := AtAccept\<rparr>"
  let ?r2 = "?r1\<lparr>r_obj := ?L, r_stp := Cleared, r_mark := 0\<rparr>"
  let ?r3 = "?r2\<lparr>r_stp := Slept, r_hist := SysSleep 250 # on_socket_3\<rparr>"
  let ?h4 = "SysClose 3 # SysShutdown 3 0 # SysSleep 250 # on_socket_3"
  let ?r4 = "?r3\<lparr>r_stp := Closed, r_hist := ?h4\<rparr>"
  have "?reach ?r0 [?C]" using nreach.Refl [of lowest_os linux_config False "tidy True"
      "net_start listening_obj ?T on_socket_3 [?C]"] by (simp add: net_start_def)
  moreover have "?st ?r0 ?r1" by (rule rstep.LoopOn) (simp_all add: race_start_def listening_obj_def)
  ultimately have 1: "?reach ?r1 [?C]" by (rule server_moves) simp
  have "?st ?r1 ?r2" using rstep.Clear [of ?r1] by (simp add: race_start_def on_socket_3_def)
  from server_moves [OF 1 this] have 2: "?reach ?r2 [?C]" by simp
  have "?st ?r2 ?r3" using rstep.Sleep [of ?r2 False] by (simp add: race_start_def)
  from server_moves [OF 2 this] have 3: "?reach ?r3 [?C]" by (simp add: race_start_def)
  have "?st ?r3 ?r4" using rstep.Close [of ?r3] by (simp add: listening_obj_def)
  from server_moves [OF 3 this] have 4: "?reach ?r4 [?C]" by simp
  obtain C' h5 where c: "client_step lowest_os linux_config (?C, ?h4) = (C', h5)" by fastforce
  then have dialled: "\<exists>addr. cl_now C' = Dialling addr 0" "m_sockfd (cl_sock C') = 3" "handed linux_config h5 = []"
    by (auto simp: client_step_def dial_def connect_front_def ncGetInetAddr_defs ncSetSocketNonBlocking_defs
        lowest_os_def ready_os_def dead_os_def linux_config_def on_socket_3_def lowest_fd_def upt_rec nc_defs Let_def)
  from c have 5: "?reach (?r4\<lparr>r_hist := h5\<rparr>) [C']" using thread_moves [OF 4, of C' h5] by simp
  from dialled obtain addr where addr: "cl_now C' = Dialling addr 0" by blast
  let ?C6 = "C'\<lparr>cl_now := Idle\<rparr>" and ?h6 = "SysConnect 3 addr 0 # h5"
  have "client_step lowest_os linux_config (C', h5) = (?C6, ?h6)"
    by (simp add: client_step_def addr dialled connect_body_def lowest_os_def)
  with thread_moves [OF 5, of ?C6 ?h6] addr have 6: "?reach (?r4\<lparr>r_hist := ?h6\<rparr>) [?C6]" by simp
  let ?s = "\<lparr>n_srv = ?r4\<lparr>r_hist := ?h6\<rparr>, n_cls = [?C6]\<rparr>"
  let ?r7 = "after_client None ?T (SysSleep 100 # SysAccept 3 (-1) zero_sockaddr # ?h6) (?r4\<lparr>r_hist := ?h6\<rparr>)"
  have "?st (?r4\<lparr>r_hist := ?h6\<rparr>) ?r7"
    using rstep.AcceptNone [of "?r4\<lparr>r_hist := ?h6\<rparr>" lowest_os zero_sockaddr]
    by (simp add: lowest_os_def race_start_def listening_obj_def)
  moreover have "new_threads linux_config (tidy True) ?h6 (r_hist ?r7) []"
    by (simp add: new_threads_def handed_since_def after_client_def)
  ultimately have "nstep lowest_os linux_config False (tidy True) ?s \<lparr>n_srv = ?r7, n_cls = [?C6]\<rparr>"
    using nstep.Server [of lowest_os linux_config False "?r4\<lparr>r_hist := ?h6\<rparr>" ?r7 "tidy True" "[]" "[?C6]"] by simp
  with 6 show ?thesis
    by (intro exI [of _ ?s] exI [of _ "\<lparr>n_srv = ?r7, n_cls = [?C6]\<rparr>"] exI [of _ ?C6] exI [of _ addr]
        exI [of _ h5] exI [of _ zero_sockaddr]) (simp add: dialled n_hist_def after_client_def)
qed

end
