(* ===== verification/Nc_Listener_Live.thy ===== *)
theory Nc_Listener_Live
  imports Nc_Listener_Race
begin

text \<open>
  That \<open>startListening\<close> and \<open>stopListening\<close> come to an end when they run in two threads. A run is
  an infinite sequence of the steps of \<open>Nc_Listener_Race\<close>, where a position may also repeat (other
  threads run). It is fair if each thread that can go on does so after a while; in particular the
  calls of \<open>accept\<close> and of the callback return. Progress is measured by the rank of each thread's
  position.
\<close>

section \<open>Fair runs\<close>

definition race_run :: "os \<Rightarrow> config \<Rightarrow> int \<Rightarrow> 32 word \<Rightarrow> bool \<Rightarrow> (nat \<Rightarrow> rstate) \<Rightarrow> bool" where
  "race_run K c option flags patient \<sigma> \<longleftrightarrow>
     (\<forall>i. rstep K c option flags patient (\<sigma> i) (\<sigma> (Suc i)) \<or> \<sigma> (Suc i) = \<sigma> i)"

definition server_fair :: "(nat \<Rightarrow> rstate) \<Rightarrow> bool" where
  "server_fair \<sigma> \<longleftrightarrow> (\<forall>i. running (r_srv (\<sigma> i)) \<longrightarrow> (\<exists>j\<ge>i. r_srv (\<sigma> (Suc j)) \<noteq> r_srv (\<sigma> j)))"

text \<open>The stopper can go on: it is not done and, when its sleep is to be long, not held up by it.\<close>

definition stop_ready :: "bool \<Rightarrow> rstate \<Rightarrow> bool" where
  "stop_ready patient s \<longleftrightarrow> r_stp s \<notin> {Before, After} \<and>
     \<not> (patient \<and> r_stp s = Cleared \<and> r_srv s = AtAccept)"

definition stopper_fair :: "bool \<Rightarrow> (nat \<Rightarrow> rstate) \<Rightarrow> bool" where
  "stopper_fair patient \<sigma> \<longleftrightarrow>
     (\<forall>i. (\<forall>j\<ge>i. stop_ready patient (\<sigma> j)) \<longrightarrow> (\<exists>j\<ge>i. r_stp (\<sigma> (Suc j)) \<noteq> r_stp (\<sigma> j)))"

lemma stop_ready_enabled:
  "stop_ready patient s \<Longrightarrow> \<exists>s'. rstep K c option flags patient s s' \<and> r_stp s' \<noteq> r_stp s"
proof (cases "r_stp s")
  case Cleared
  moreover assume "stop_ready patient s"
  ultimately show ?thesis
    using rstep.Sleep [of s patient K c option flags]
    by (intro exI [of _ "s\<lparr>r_stp := Slept, r_hist := SysSleep 250 # r_hist s\<rparr>"]) (simp add: stop_ready_def)
next
  case Slept
  show ?thesis
  proof (cases "ls_sockfd (r_obj s) = 0")
    case True
    then show ?thesis
      using Slept rstep.NoSocket [of s K c option flags patient]
      by (intro exI [of _ "s\<lparr>r_stp := After\<rparr>"]) simp
  next
    case False
    show ?thesis
      by (rule exI, rule conjI, rule rstep.Close [OF Slept False]) (simp add: Slept)
  qed
next
  case Closed
  show ?thesis
    by (rule exI, rule conjI, rule rstep.Zero [OF Closed]) (simp add: Closed)
qed (simp_all add: stop_ready_def)

text \<open>The server can go on at every position but the last, so its fairness asks for nothing impossible.\<close>

lemma server_enabled:
  assumes "running (r_srv s)"
  shows "\<exists>s'. rstep K c option flags patient s s' \<and> r_srv s' \<noteq> r_srv s"
proof (cases "r_srv s")
  case AtLoop
  then show ?thesis
    using rstep.LoopOn [OF AtLoop, of K c option flags patient]
      rstep.LoopOff [OF AtLoop, of K c option flags patient]
    by (cases "ls_listening (r_obj s) = 0")
      (auto intro: exI [of _ "s\<lparr>r_srv := Left NC_OK\<rparr>"] exI [of _ "s\<lparr>r_srv := AtAccept\<rparr>"])
next
  case AtAccept
  obtain fd a where acc: "os_accept K (r_hist s) (ls_sockfd (r_obj s)) = (fd, a)" by fastforce
  have moved: "r_srv (after_client out T h s) \<noteq> r_srv s" for out T h
    using AtAccept by (simp add: after_client_def split: option.split)
  show ?thesis
  proof (cases "fd = -1")
    case True
    with acc rstep.AcceptNone [OF AtAccept, of K a c option flags patient] moved show ?thesis by blast
  next
    case False
    obtain out T h where "serve_client K c option flags fd a (r_thr s)
        (SysAccept (ls_sockfd (r_obj s)) fd a # r_hist s) = (out, T, h)" by (metis prod_cases3)
    from rstep.Accept [OF AtAccept acc False this] moved show ?thesis by blast
  qed
next
  case AtCheck
  then show ?thesis
    using rstep.CheckOn [OF AtCheck, of K c option flags patient]
      rstep.CheckOff [OF AtCheck, of K c option flags patient]
    by (cases "ls_listening (r_obj s) = 0")
      (auto intro: exI [of _ "s\<lparr>r_srv := Left NC_OK\<rparr>"] exI [of _ "s\<lparr>r_srv := AtLoop\<rparr>"])
qed (use assms in simp)

section \<open>Ranks\<close>

fun server_rank :: "server_pc \<Rightarrow> nat" where
  "server_rank AtAccept = 2"
| "server_rank AtLoop = 1"
| "server_rank AtCheck = 1"
| "server_rank (Left r) = 0"

fun stopper_rank :: "stopper_pc \<Rightarrow> nat" where
  "stopper_rank Before = 4"
| "stopper_rank Cleared = 3"
| "stopper_rank Slept = 2"
| "stopper_rank Closed = 1"
| "stopper_rank After = 0"

lemma server_rank_zero: "server_rank p = 0 \<longleftrightarrow> \<not> running p"
  by (cases p) simp_all

lemma stopper_rank_zero: "stopper_rank p = 0 \<longleftrightarrow> p = After"
  by (cases p) simp_all

lemma step_ranks:
  assumes "rstep K c option flags patient s s'"
  shows "ls_listening (r_obj s) = 0 \<Longrightarrow> r_srv s' = r_srv s \<or> server_rank (r_srv s') < server_rank (r_srv s)"
    and "r_stp s' = r_stp s \<or> stopper_rank (r_stp s') < stopper_rank (r_stp s)"
    and "r_stp s \<noteq> Before \<Longrightarrow> r_stp s' \<noteq> Before"
  using assms by (auto simp: after_client_def elim!: rstep_cases split: option.splits)

section \<open>Runs\<close>

text \<open>
  The same with the other threads of the process in view: at any position they may have extended
  the history. Once \<open>stopListening\<close> has been called, the flag stays cleared and neither rank grows.
\<close>

definition shared_run :: "os \<Rightarrow> config \<Rightarrow> int \<Rightarrow> 32 word \<Rightarrow> bool \<Rightarrow> (nat \<Rightarrow> rstate) \<Rightarrow> bool" where
  "shared_run K c option flags patient \<sigma> \<longleftrightarrow>
     (\<forall>i. rstep K c option flags patient (\<sigma> i) (\<sigma> (Suc i)) \<or> (\<exists>h. \<sigma> (Suc i) = (\<sigma> i)\<lparr>r_hist := h\<rparr>))"

lemma race_run_shared: "race_run K c option flags patient \<sigma> \<Longrightarrow> shared_run K c option flags patient \<sigma>"
  unfolding race_run_def shared_run_def by (metis rstate.surjective rstate.update_convs(5))

definition flag_clear :: "rstate \<Rightarrow> bool" where
  "flag_clear s \<longleftrightarrow> (r_stp s \<noteq> Before \<longrightarrow> ls_listening (r_obj s) = 0)"

lemma flag_clear_step: "rstep K c option flags patient s s' \<Longrightarrow> flag_clear s \<Longrightarrow> flag_clear s'"
  by (auto simp: flag_clear_def after_client_def elim!: rstep_cases)

lemma flag_clear_run:
  assumes "shared_run K c option flags patient \<sigma>" "flag_clear (\<sigma> 0)"
  shows "flag_clear (\<sigma> i)"
proof (induction i)
  case (Suc i)
  from assms(1) have "rstep K c option flags patient (\<sigma> i) (\<sigma> (Suc i)) \<or> (\<exists>h. \<sigma> (Suc i) = (\<sigma> i)\<lparr>r_hist := h\<rparr>)"
    by (simp add: shared_run_def)
  with Suc flag_clear_step show ?case by (auto simp: flag_clear_def)
qed (rule assms(2))

lemma after_call:
  assumes run: "shared_run K c option flags patient \<sigma>" and start: "flag_clear (\<sigma> 0)"
    and stop: "r_stp (\<sigma> i) \<noteq> Before" and "i \<le> j"
  shows "r_stp (\<sigma> j) \<noteq> Before"
    and "r_srv (\<sigma> (Suc j)) = r_srv (\<sigma> j) \<or> server_rank (r_srv (\<sigma> (Suc j))) < server_rank (r_srv (\<sigma> j))"
    and "r_stp (\<sigma> (Suc j)) = r_stp (\<sigma> j) \<or> stopper_rank (r_stp (\<sigma> (Suc j))) < stopper_rank (r_stp (\<sigma> j))"
proof -
  have step: "rstep K c option flags patient (\<sigma> k) (\<sigma> (Suc k)) \<or> (\<exists>h. \<sigma> (Suc k) = (\<sigma> k)\<lparr>r_hist := h\<rparr>)" for k
    using run by (simp add: shared_run_def)
  show before: "r_stp (\<sigma> j) \<noteq> Before"
    using \<open>i \<le> j\<close>
  proof (induction j rule: dec_induct)
    case base
    show ?case by (rule stop)
  next
    case later: (step k)
    from step [of k] show ?case
    proof
      assume "rstep K c option flags patient (\<sigma> k) (\<sigma> (Suc k))"
      from step_ranks(3) [OF this later(3)] show ?thesis .
    qed (use later(3) in auto)
  qed
  have "ls_listening (r_obj (\<sigma> j)) = 0" using flag_clear_run [OF run start] before by (simp add: flag_clear_def)
  note ranks = step_ranks(1) [OF _ this] step_ranks(2)
  show "r_srv (\<sigma> (Suc j)) = r_srv (\<sigma> j) \<or> server_rank (r_srv (\<sigma> (Suc j))) < server_rank (r_srv (\<sigma> j))"
    using step [of j]
  proof
    assume "rstep K c option flags patient (\<sigma> j) (\<sigma> (Suc j))"
    then show ?thesis by (rule ranks(1))
  qed auto
  show "r_stp (\<sigma> (Suc j)) = r_stp (\<sigma> j) \<or> stopper_rank (r_stp (\<sigma> (Suc j))) < stopper_rank (r_stp (\<sigma> j))"
    using step [of j]
  proof
    assume "rstep K c option flags patient (\<sigma> j) (\<sigma> (Suc j))"
    then show ?thesis by (rule ranks(2))
  qed auto
qed

lemma server_leaves:
  assumes run: "shared_run K c option flags patient \<sigma>" and start: "flag_clear (\<sigma> 0)"
    and fair: "server_fair \<sigma>" and stop: "r_stp (\<sigma> i) \<noteq> Before"
  shows "\<exists>j\<ge>i. \<forall>k\<ge>j. \<not> running (r_srv (\<sigma> k))"
proof -
  note after = after_call [OF run start stop]
  have falls: "server_rank (r_srv (\<sigma> (Suc j))) \<le> server_rank (r_srv (\<sigma> j))" if "i \<le> j" for j
    using after(2) [OF that] by auto
  have "\<exists>j\<ge>i. server_rank (r_srv (\<sigma> j)) = 0"
  proof (rule eventually_zero)
    show "server_rank (r_srv (\<sigma> (Suc j))) \<le> server_rank (r_srv (\<sigma> j))" if "i \<le> j" for j
      using falls [OF that] .
  next
    fix j
    assume j: "i \<le> j" "0 < server_rank (r_srv (\<sigma> j))"
    then have "running (r_srv (\<sigma> j))" using server_rank_zero [of "r_srv (\<sigma> j)"] by simp
    then obtain k where k: "j \<le> k" "r_srv (\<sigma> (Suc k)) \<noteq> r_srv (\<sigma> k)"
      using fair by (auto simp: server_fair_def)
    with after(2) [of k] j(1) show "\<exists>k\<ge>j. server_rank (r_srv (\<sigma> (Suc k))) < server_rank (r_srv (\<sigma> k))"
      by auto
  qed
  then obtain j where j: "i \<le> j" "server_rank (r_srv (\<sigma> j)) = 0" by blast
  have "server_rank (r_srv (\<sigma> k)) = 0" if "j \<le> k" for k
    using that
  proof (induction k rule: dec_induct)
    case base
    show ?case by (rule j(2))
  next
    case (step k)
    with falls [of k] j(1) show ?case by simp
  qed
  with j(1) show ?thesis by (auto simp: server_rank_zero)
qed

lemma stopper_finishes:
  assumes run: "shared_run K c option flags patient \<sigma>" and start: "flag_clear (\<sigma> 0)"
    and fair: "stopper_fair patient \<sigma>" and stop: "r_stp (\<sigma> i) \<noteq> Before"
    and left: "\<forall>k\<ge>i. \<not> running (r_srv (\<sigma> k))"
  shows "\<exists>j\<ge>i. r_stp (\<sigma> j) = After"
proof -
  note after = after_call [OF run start stop]
  have "\<exists>j\<ge>i. stopper_rank (r_stp (\<sigma> j)) = 0"
  proof (rule eventually_zero)
    show "stopper_rank (r_stp (\<sigma> (Suc j))) \<le> stopper_rank (r_stp (\<sigma> j))" if "i \<le> j" for j
      using after(3) [OF that] by auto
  next
    fix j
    assume j: "i \<le> j" "0 < stopper_rank (r_stp (\<sigma> j))"
    show "\<exists>k\<ge>j. stopper_rank (r_stp (\<sigma> (Suc k))) < stopper_rank (r_stp (\<sigma> k))"
    proof (rule ccontr)
      assume "\<not> ?thesis"
      then have same: "r_stp (\<sigma> (Suc k)) = r_stp (\<sigma> k)" if "j \<le> k" for k
        using after(3) [of k] that j(1) by auto
      have still: "r_stp (\<sigma> k) = r_stp (\<sigma> j)" if "j \<le> k" for k
        using that by (induction k rule: dec_induct) (simp_all add: same)
      have busy: "r_stp (\<sigma> j) \<notin> {Before, After}"
        using after(1) [OF j(1)] j(2) stopper_rank_zero [of "r_stp (\<sigma> j)"] by simp
      have gone: "r_srv (\<sigma> k) \<noteq> AtAccept" if "j \<le> k" for k
      proof -
        have "\<not> running (r_srv (\<sigma> k))" using left that j(1) by simp
        then show ?thesis by auto
      qed
      have "stop_ready patient (\<sigma> k)" if "j \<le> k" for k
        unfolding stop_ready_def still [OF that] using busy gone [OF that] by simp
      then obtain k where "j \<le> k" "r_stp (\<sigma> (Suc k)) \<noteq> r_stp (\<sigma> k)"
        using fair unfolding stopper_fair_def by blast
      with same show False by simp
    qed
  qed
  then show ?thesis by (simp add: stopper_rank_zero)
qed

lemma threads_return:
  assumes "shared_run K c option flags patient \<sigma>" "flag_clear (\<sigma> 0)"
    and "server_fair \<sigma>" "stopper_fair patient \<sigma>" "r_stp (\<sigma> i) \<noteq> Before"
  shows "\<exists>j\<ge>i. \<forall>k\<ge>j. (\<exists>r. r_srv (\<sigma> k) = Left r) \<and> r_stp (\<sigma> k) = After"
proof -
  obtain j where j: "i \<le> j" "\<forall>k\<ge>j. \<not> running (r_srv (\<sigma> k))"
    using server_leaves [OF assms(1,2,3,5)] by blast
  note after = after_call [OF assms(1,2,5)]
  obtain k where k: "j \<le> k" "r_stp (\<sigma> k) = After"
    using stopper_finishes [OF assms(1,2,4) after(1) [OF j(1)] j(2)] by blast
  have "r_stp (\<sigma> m) = After" if "k \<le> m" for m
    using that
  proof (induction m rule: dec_induct)
    case (step m)
    with after(3) [of m] j(1) k(1) show ?case by auto
  qed (rule k(2))
  moreover have "\<exists>r. r_srv (\<sigma> m) = Left r" if "k \<le> m" for m
  proof -
    have "\<not> running (r_srv (\<sigma> m))" using j(2) k(1) that by simp
    then show ?thesis by (cases "r_srv (\<sigma> m)") simp_all
  qed
  ultimately show ?thesis using j(1) k(1) by (meson le_trans)
qed

section \<open>Property\<close>

text \<open>
  On every fair run in which \<open>stopListening\<close> has been called, both threads are done after a
  while and stay so: the server has left \<open>startListening\<close> and \<open>stopListening\<close> has returned,
  however the steps are interleaved and whatever clients connect.
\<close>

lemma both_threads_return:
  assumes "race_run K c option flags patient \<sigma>" "\<sigma> 0 = race_start L T h"
    and "server_fair \<sigma>" "stopper_fair patient \<sigma>" "r_stp (\<sigma> i) \<noteq> Before"
  shows "\<exists>j. (\<exists>r. r_srv (\<sigma> j) = Left r) \<and> r_stp (\<sigma> j) = After"
proof -
  have "flag_clear (\<sigma> 0)" by (simp add: assms(2) flag_clear_def race_start_def)
  from threads_return [OF race_run_shared [OF assms(1)] this assms(3-5)] show ?thesis by blast
qed

text \<open>A run for the witness: \<open>stopListening\<close> is called at once, on a listener without clients.\<close>

definition short_run :: "hist \<Rightarrow> nat \<Rightarrow> rstate" where
  "short_run h i =
     (let s0 = race_start listening_obj \<lparr>th_retVal = 0, ncthread = 0\<rparr> h;
          s1 = s0\<lparr>r_obj := listening_obj\<lparr>ls_listening := 0\<rparr>, r_stp := Cleared, r_mark := rounds h\<rparr>;
          s2 = s1\<lparr>r_srv := Left NC_OK\<rparr>;
          s3 = s2\<lparr>r_stp := Slept, r_hist := SysSleep 250 # h\<rparr>;
          s4 = s3\<lparr>r_stp := Closed, r_hist := SysClose 3 # SysShutdown 3 0 # SysSleep 250 # h\<rparr>;
          s5 = s4\<lparr>r_obj := listening_obj\<lparr>ls_listening := 0, ls_sockfd := 0\<rparr>, r_stp := After\<rparr>
      in if i = 0 then s0 else if i = 1 then s1 else if i = 2 then s2 else if i = 3 then s3
         else if i = 4 then s4 else s5)"

lemma short_run_step:
  "rstep K c option flags True (short_run h i) (short_run h (Suc i)) \<or> 5 \<le> i"
proof -
  let ?st = "rstep K c option flags True"
  have "?st (short_run h 0) (short_run h 1)"
    using rstep.Clear [of "short_run h 0" K c option flags True]
    by (simp add: short_run_def race_start_def Let_def)
  moreover have "?st (short_run h 1) (short_run h 2)"
    using rstep.LoopOff [of "short_run h 1" K c option flags True]
    by (simp add: short_run_def race_start_def Let_def)
  moreover have "?st (short_run h 2) (short_run h 3)"
    using rstep.Sleep [of "short_run h 2" True K c option flags]
    by (simp add: short_run_def race_start_def Let_def)
  moreover have "?st (short_run h 3) (short_run h 4)"
    using rstep.Close [of "short_run h 3" K c option flags True]
    by (simp add: short_run_def race_start_def listening_obj_def Let_def)
  moreover have "?st (short_run h 4) (short_run h 5)"
    using rstep.Zero [of "short_run h 4" K c option flags True]
    by (simp add: short_run_def race_start_def Let_def)
  ultimately show ?thesis
    by (cases "i = 0"; cases "i = 1"; cases "i = 2"; cases "i = 3"; cases "i = 4") (simp_all add: eval_nat_numeral)
qed

lemma short_run_end: "5 \<le> i \<Longrightarrow> short_run h i = short_run h 5"
  by (simp add: short_run_def Let_def)

lemma short_run_steps: "race_run K c option flags True (short_run h)"
  using short_run_step [of K c option flags h] short_run_end [of _ h] unfolding race_run_def
  by (metis le_SucI)

lemma short_run_fair: "server_fair (short_run h)" "stopper_fair True (short_run h)"
proof -
  have s: "running (r_srv (short_run h i)) \<Longrightarrow> i \<le> 1" for i
    by (rule ccontr) (simp add: short_run_def Let_def split: if_splits)
  have "r_srv (short_run h (Suc 1)) \<noteq> r_srv (short_run h 1)"
    by (simp add: short_run_def race_start_def Let_def)
  with s show "server_fair (short_run h)" unfolding server_fair_def by blast
  have "\<not> stop_ready True (short_run h (i + 5))" for i
    by (simp add: stop_ready_def short_run_def Let_def)
  then show "stopper_fair True (short_run h)" unfolding stopper_fair_def by (meson le_add1)
qed

end
