(* ===== verification/Nc_Net_Live.thy ===== *)
theory Nc_Net_Live
  imports Nc_Net Nc_Listener_Live
begin

text \<open>
  Liveness of the client threads: a thread that is given a turn again and again finishes its methods
  and deletes its object, whatever the kernel and the other threads do, provided the settings of its
  object let the clocks of its loops reach their time outs.
\<close>

section \<open>Settings\<close>

text \<open>The methods of a thread, with the two settings as they are when each is called.\<close>

fun settings_fit :: "config \<Rightarrow> 32 word \<Rightarrow> 32 word \<Rightarrow> sock_method list \<Rightarrow> bool" where
  "settings_fit c t p [] = True"
| "settings_fit c t p (MSetTimeout n # ms) = settings_fit c (word_of_int n) p ms"
| "settings_fit c t p (MSetPollTime n # ms) = settings_fit c t (word_of_int n) ms"
| "settings_fit c t p (MWrite n b w # ms) =
     (0 < p \<and> uint t + uint p \<le> 2 ^ 32 \<and> settings_fit c t p ms)"
| "settings_fit c t p (MRead n b w # ms) =
     (0 < p \<and> uint t + uint p \<le> 2 ^ 32 \<and> settings_fit c t p ms)"
| "settings_fit c t p (MConnect a # ms) = (connect_clock_fits c t \<and> settings_fit c t p ms)"
| "settings_fit c t p (MConnectTo a h q ty # ms) = (connect_clock_fits c t \<and> settings_fit c t p ms)"
| "settings_fit c t p (m # ms) = settings_fit c t p ms"

definition polls :: "os \<Rightarrow> config \<Rightarrow> bool" where
  "polls K c \<longleftrightarrow> uses_select c \<or> poll_doc K"

text \<open>The loop a thread is in has time left.\<close>

fun loop_on_time :: "os \<Rightarrow> config \<Rightarrow> activity \<Rightarrow> ncSocket \<Rightarrow> bool" where
  "loop_on_time K c (Writing e x) S = (e_os e = K \<and> e_cfg e = c \<and> on_time x \<and> x_sock x = S)"
| "loop_on_time K c (Reading e x) S = (e_os e = K \<and> e_cfg e = c \<and> on_time x \<and> x_sock x = S)"
| "loop_on_time K c (Dialling a t) S = (connect_clock_fits c (m_timeout S) \<and> t \<le> ucast (m_timeout S))"
| "loop_on_time K c a S = True"

definition calm :: "os \<Rightarrow> config \<Rightarrow> client \<Rightarrow> bool" where
  "calm K c C \<longleftrightarrow> settings_fit c (m_timeout (cl_sock C)) (m_polltime (cl_sock C)) (cl_work C) \<and>
     loop_on_time K c (cl_now C) (cl_sock C)"

section \<open>A measure\<close>

fun loop_rank :: "activity \<Rightarrow> ncSocket \<Rightarrow> nat" where
  "loop_rank (Writing e x) S = Suc (time_left x)"
| "loop_rank (Reading e x) S = Suc (time_left x)"
| "loop_rank (Dialling a t) S = Suc (unat (m_timeout S) - unat t)"
| "loop_rank a S = 0"

definition thread_rank :: "client \<Rightarrow> nat" where
  "thread_rank C =
     (if cl_now C = Gone then 0
      else Suc (length (cl_work C) * 2 ^ 33 + loop_rank (cl_now C) (cl_sock C)))"

lemma thread_rank_zero: "thread_rank C = 0 \<longleftrightarrow> cl_now C = Gone"
  by (simp add: thread_rank_def)

lemma loop_rank_small: "loop_rank a S < 2 ^ 33"
proof -
  have small: "unat t - n \<le> 2 ^ 32" for t :: "32 word" and n
    using unsigned_less [where 'a = nat, of t] by simp
  have "time_left x \<le> Suc (2 ^ 32)" for x
    using small [of "m_timeout (x_sock x)" "unat (x_timeout x)"] by (simp add: time_left_def)
  then have "Suc (time_left x) < 2 ^ 33" for x
    by (rule le_less_trans [OF Suc_le_mono [THEN iffD2]]) simp
  moreover have "Suc (unat (m_timeout S) - n) < 2 ^ 33" for n
    by (rule le_less_trans [OF Suc_le_mono [THEN iffD2, OF small]]) simp
  ultimately show ?thesis by (cases a) simp_all
qed

lemma body_falls:
  assumes "polls (e_os e) (e_cfg e)" "on_time x"
  shows "write_body e x = Inl x' \<Longrightarrow> on_time x' \<and> time_left x' < time_left x"
    and "read_body e x = Inl x' \<Longrightarrow> on_time x' \<and> time_left x' < time_left x"
  using assms wpoll_clock.time_falls [where e = e and s = x and s' = x'] wselect_clock.time_falls [where e = e and s = x and s' = x']
    rpoll_clock.time_falls [where e = e and s = x and s' = x'] rselect_clock.time_falls [where e = e and s = x and s' = x']
  by (auto simp: write_body_def read_body_def polls_def poll_clock_ok_def split: if_splits)

lemma on_time_hist [simp]: "on_time (x\<lparr>x_hist := h\<rparr>) = on_time x" "time_left (x\<lparr>x_hist := h\<rparr>) = time_left x"
  by (simp_all add: on_time_def time_left_def xguard_def)

text \<open>A step of the thread uses up some of its measure, whatever the history is.\<close>

lemma dial_settings:
  assumes "dial K c tmp S h = (a, S', h')"
  shows "m_timeout S' = m_timeout S \<and> m_polltime S' = m_polltime S \<and> (a = Idle \<or> (\<exists>addr. a = Dialling addr 0))"
proof -
  obtain out T g where f: "connect_front K c tmp S h = (out, T, g)" by (metis prod_cases3)
  from connect_front_talks [OF f] have "m_timeout T = m_timeout S \<and> m_polltime T = m_polltime S"
    by (auto simp: Let_def)
  with assms f show ?thesis by (auto simp: dial_def split: option.splits)
qed

lemma start_calm:
  assumes "start_method K c m S h = (a, S', h')" "settings_fit c (m_timeout S) (m_polltime S) (m # ms)"
  shows "loop_on_time K c a S' \<and> settings_fit c (m_timeout S') (m_polltime S') ms \<and> a \<noteq> Gone"
proof (cases m)
  case (MConnect tmp)
  with assms dial_settings [of K c tmp S h a S' h'] show ?thesis by auto
next
  case (MConnectTo tmp host port ty)
  let ?S = "S\<lparr>m_port := port, m_socktype := ty, m_hostname := copy_hostname (the host)\<rparr>"
  from MConnectTo assms dial_settings [of K c tmp ?S h a S' h'] show ?thesis
    by (auto split: option.splits if_splits)
next
  case MFlush
  with assms show ?thesis by (auto simp: nc_defs Let_def split: option.splits)
qed (use assms in \<open>auto simp: nc_defs xfer_init_def on_time_def clock_fits_def Let_def split: if_splits\<close>)

lemma go_on_calm:
  assumes "go_on K c a S h = (a', S', h')" "loop_on_time K c a S" "polls K c" "a \<noteq> Idle" "a \<noteq> Gone"
  shows "loop_on_time K c a' S' \<and> m_timeout S' = m_timeout S \<and> m_polltime S' = m_polltime S \<and>
    loop_rank a' S' < loop_rank a S \<and> a' \<noteq> Gone"
proof (cases a)
  case (Writing e x)
  let ?x = "x\<lparr>x_hist := h\<rparr>"
  from Writing assms show ?thesis
    using body_falls(1) [of e ?x] body_frame(1,2) [of e ?x, THEN frame_fields(1)]
      body_frame(1,2) [of e ?x, THEN frame_fields(2)]
    by (auto split: sum.splits)
next
  case (Reading e x)
  let ?x = "x\<lparr>x_hist := h\<rparr>"
  from Reading assms show ?thesis
    using body_falls(2) [of e ?x] body_frame(3,4) [of e ?x, THEN frame_fields(1)]
      body_frame(3,4) [of e ?x, THEN frame_fields(2)]
    by (auto split: sum.splits)
next
  case (Dialling addr t)
  then have fits: "connect_clock_fits c (m_timeout S)" and t: "t \<le> ucast (m_timeout S)"
    using assms(2) by simp_all
  show ?thesis
  proof (cases "connect_body K c (m_sockfd S) addr (m_timeout S) (t, h)")
    case (Inl q)
    obtain t' g where q: "q = (t', g)" by force
    note a = connect_again [OF fits t Inl [unfolded q]]
    have "unat t' \<le> unat (m_timeout S)"
      using a(1) unat_ucast_32_64 [of "m_timeout S"] by (simp add: word_le_nat_alt)
    with assms(1) Dialling Inl q a fits show ?thesis by auto
  next
    case (Inr q)
    with assms(1) Dialling show ?thesis by (auto split: prod.splits)
  qed
qed (use assms in simp_all)

lemma client_falls:
  assumes "calm K c C" "cl_now C \<noteq> Gone" "polls K c" and s: "client_step K c (C, h) = (C', h')"
  shows "calm K c C' \<and> thread_rank C' < thread_rank C"
proof -
  obtain S ms a where C: "C = \<lparr>cl_sock = S, cl_work = ms, cl_now = a\<rparr>" by (cases C)
  consider (idle) "a = Idle" "ms = []" | (start) m ms' where "a = Idle" "ms = m # ms'"
    | (busy) "a \<noteq> Gone" "a \<noteq> Idle" using assms(2) C by (cases ms) auto
  then show ?thesis
  proof cases
    case idle
    with s assms(1) show ?thesis
      by (auto simp: client_step_def C calm_def thread_rank_def split: prod.splits)
  next
    case (start m ms')
    obtain a' S' g where m: "start_method K c m S h = (a', S', g)" by (metis prod_cases3)
    with s start have C': "C' = \<lparr>cl_sock = S', cl_work = ms', cl_now = a'\<rparr>" by (simp add: client_step_def C)
    from start_calm [OF m] assms(1) start loop_rank_small [of a' S'] show ?thesis
      by (simp add: calm_def C C' thread_rank_def)
  next
    case busy
    obtain a' S' g where g: "go_on K c a S h = (a', S', g)" by (metis prod_cases3)
    with s busy have C': "C' = \<lparr>cl_sock = S', cl_work = ms, cl_now = a'\<rparr>"
      by (cases a) (simp_all add: client_step_def C)
    from go_on_calm [OF g _ assms(3)] assms(1) busy show ?thesis
      by (simp add: calm_def C C' thread_rank_def)
  qed
qed

section \<open>Fair runs\<close>

definition net_run ::
    "os \<Rightarrow> config \<Rightarrow> bool \<Rightarrow> (sock_method list \<Rightarrow> bool) \<Rightarrow> (nat \<Rightarrow> net) \<Rightarrow> bool" where
  "net_run K c patient callback run \<longleftrightarrow>
     (\<forall>i. run (Suc i) = run i \<or> nstep K c patient callback (run i) (run (Suc i)))"

text \<open>The step is one of thread \<open>k\<close>.\<close>

definition its_turn :: "os \<Rightarrow> config \<Rightarrow> nat \<Rightarrow> net \<Rightarrow> net \<Rightarrow> bool" where
  "its_turn K c k s s' \<longleftrightarrow> k < length (n_cls s) \<and> cl_now (n_cls s ! k) \<noteq> Gone \<and>
     n_cls s' = (n_cls s)[k := fst (client_step K c (n_cls s ! k, n_hist s))]"

definition thread_fair :: "os \<Rightarrow> config \<Rightarrow> nat \<Rightarrow> (nat \<Rightarrow> net) \<Rightarrow> bool" where
  "thread_fair K c k run \<longleftrightarrow>
     (\<forall>j. k < length (n_cls (run j)) \<longrightarrow> cl_now (n_cls (run j) ! k) \<noteq> Gone \<longrightarrow>
        (\<exists>i\<ge>j. its_turn K c k (run i) (run (Suc i))))"

text \<open>To thread \<open>k\<close> every step is its own or leaves it alone.\<close>

lemma nstep_thread:
  assumes "nstep K c patient callback s s'" "k < length (n_cls s)"
  shows "k < length (n_cls s') \<and> (n_cls s' ! k = n_cls s ! k \<or> its_turn K c k s s')"
  using assms
proof (cases rule: nstep.cases)
  case (Server r r' new cs)
  with assms(2) show ?thesis by (simp add: nth_append)
next
  case (Thread i cs r C' h')
  with assms(2) show ?thesis by (cases "i = k") (simp_all add: its_turn_def n_hist_def)
qed

lemma its_turn_falls:
  assumes "its_turn K c k s s'" "calm K c (n_cls s ! k)" "polls K c"
  shows "calm K c (n_cls s' ! k) \<and> thread_rank (n_cls s' ! k) < thread_rank (n_cls s ! k)"
  using client_falls [of K c "n_cls s ! k" "n_hist s" "fst (client_step K c (n_cls s ! k, n_hist s))"
      "snd (client_step K c (n_cls s ! k, n_hist s))"] assms
  by (simp add: its_turn_def)

lemma run_thread:
  assumes run: "net_run K c patient callback run" and k: "k < length (n_cls (run i))"
    and calm: "calm K c (n_cls (run i) ! k)" and "polls K c" "i \<le> j"
  shows "k < length (n_cls (run j)) \<and> calm K c (n_cls (run j) ! k)"
  using \<open>i \<le> j\<close>
proof (induction j rule: dec_induct)
  case base show ?case using k calm by simp
next
  case (step j)
  from run have "run (Suc j) = run j \<or> nstep K c patient callback (run j) (run (Suc j))"
    by (simp add: net_run_def)
  with step.IH nstep_thread [of K c patient callback "run j" "run (Suc j)" k]
    its_turn_falls [of K c k "run j" "run (Suc j)"] assms(4) show ?case by auto
qed

text \<open>It comes to an end, and stays there.\<close>

lemma thread_ends:
  assumes "net_run K c patient callback run" "thread_fair K c k run"
    and "k < length (n_cls (run i))" "calm K c (n_cls (run i) ! k)" "polls K c"
  shows "\<exists>j\<ge>i. \<forall>m\<ge>j. cl_now (n_cls (run m) ! k) = Gone"
proof -
  let ?f = "\<lambda>j. thread_rank (n_cls (run j) ! k)"
  note inv = run_thread [OF assms(1,3-5)]
  have falls: "?f (Suc j) \<le> ?f j" if "i \<le> j" for j
  proof -
    from assms(1) have "run (Suc j) = run j \<or> nstep K c patient callback (run j) (run (Suc j))"
      by (simp add: net_run_def)
    with inv [OF that] nstep_thread [of K c patient callback "run j" "run (Suc j)" k]
      its_turn_falls [of K c k "run j" "run (Suc j)"] assms(5) show ?thesis
      by (auto dest: less_imp_le)
  qed
  have "\<exists>j\<ge>i. ?f j = 0"
  proof (rule eventually_zero)
    fix j assume "i \<le> j" then show "?f (Suc j) \<le> ?f j" by (rule falls)
  next
    fix j assume j: "i \<le> j" and "0 < ?f j"
    then have "cl_now (n_cls (run j) ! k) \<noteq> Gone"
      using thread_rank_zero [of "n_cls (run j) ! k"] by simp
    with assms(2) inv [OF j] obtain m where m: "j \<le> m" "its_turn K c k (run m) (run (Suc m))"
      by (auto simp: thread_fair_def)
    have "i \<le> m" using j m(1) by simp
    with its_turn_falls [OF m(2)] inv [of m] assms(5) m(1) show "\<exists>m\<ge>j. ?f (Suc m) < ?f m" by auto
  qed
  then obtain j where j: "i \<le> j" "?f j = 0" by blast
  have "?f m = 0" if "j \<le> m" for m
    using that
  proof (induction m rule: dec_induct)
    case (step m)
    with falls [of m] j(1) show ?case by simp
  qed (rule j(2))
  with j(1) show ?thesis by (auto simp: thread_rank_zero)
qed

text \<open>
  C17: whatever the kernel answers and the other threads do, a client thread that gets its turn
  again and again comes to the end of its methods and deletes its object: no transfer and no
  \<open>connect\<close> of it goes on for ever.
\<close>

theorem client_finishes:
  assumes "net_run K c patient callback run" "thread_fair K c k run"
    and "k < length (n_cls (run i))" "calm K c (n_cls (run i) ! k)" "polls K c"
  shows "\<exists>j\<ge>i. cl_now (n_cls (run j) ! k) = Gone"
  using thread_ends [OF assms] by blast

text \<open>A thread alone: the listener does nothing.\<close>

definition lone_thread :: "os \<Rightarrow> config \<Rightarrow> rstate \<Rightarrow> client \<Rightarrow> nat \<Rightarrow> net" where
  "lone_thread K c r C n =
     (let s = (client_step K c ^^ n) (C, r_hist r) in \<lparr>n_srv = r\<lparr>r_hist := snd s\<rparr>, n_cls = [fst s]\<rparr>)"

lemma gone_stays: "cl_now C = Gone \<Longrightarrow> client_step K c (C, h) = (C, h)"
  by (simp add: client_step_def)

lemma lone_thread_step:
  "lone_thread K c r C (Suc n) = lone_thread K c r C n \<or>
    nstep K c patient callback (lone_thread K c r C n) (lone_thread K c r C (Suc n))"
proof -
  obtain D h where s: "(client_step K c ^^ n) (C, r_hist r) = (D, h)" by fastforce
  show ?thesis
  proof (cases "cl_now D = Gone")
    case True
    with gone_stays show ?thesis by (simp add: lone_thread_def s)
  next
    case False
    obtain D' h' where "client_step K c (D, h) = (D', h')" by fastforce
    with False nstep.Thread [of 0 "[D]" K c "r\<lparr>r_hist := h\<rparr>" D' h' patient callback]
    show ?thesis by (simp add: lone_thread_def s)
  qed
qed

lemma lone_thread_turn:
  "cl_now (n_cls (lone_thread K c r C n) ! 0) \<noteq> Gone \<Longrightarrow>
    its_turn K c 0 (lone_thread K c r C n) (lone_thread K c r C (Suc n))"
  by (auto simp: its_turn_def lone_thread_def n_hist_def Let_def)

text \<open>The kernel of this witness fails every call: the transfer gives up at once.\<close>

theorem client_finishes_witness:
  "\<exists>j\<ge>0. cl_now (n_cls (lone_thread dead_os linux_config
      (race_start listening_obj \<lparr>th_retVal = 0, ncthread = 0\<rparr> [])
      \<lparr>cl_sock = ncSocket_of_fd linux_config 9, cl_work = [MWrite 3 (\<lambda>a. 0) True, MClose], cl_now = Idle\<rparr> j) ! 0)
    = Gone"
proof -
  let ?run = "lone_thread dead_os linux_config (race_start listening_obj \<lparr>th_retVal = 0, ncthread = 0\<rparr> [])
    \<lparr>cl_sock = ncSocket_of_fd linux_config 9, cl_work = [MWrite 3 (\<lambda>a. 0) True, MClose], cl_now = Idle\<rparr>"
  have "net_run dead_os linux_config True (tidy True) ?run"
    unfolding net_run_def using lone_thread_step by blast
  moreover have "thread_fair dead_os linux_config 0 ?run"
    unfolding thread_fair_def using lone_thread_turn by blast
  ultimately show ?thesis
    by (rule client_finishes)
      (simp_all add: lone_thread_def calm_def polls_def poll_doc_def dead_os_def ncSocket_of_fd_def)
qed

section \<open>The process winds down\<close>

text \<open>All that happens to every thread for ever happens to all of them at once.\<close>

lemma all_in_the_end:
  fixes P :: "nat \<Rightarrow> nat \<Rightarrow> bool"
  assumes "\<And>k. k < n \<Longrightarrow> \<exists>j. \<forall>m\<ge>j. P k m"
  shows "\<exists>j\<ge>i. \<forall>k<n. P k j"
proof -
  have "\<exists>j\<ge>i. \<forall>m\<ge>j. \<forall>k<n. P k m"
    using assms
  proof (induction n)
    case (Suc n)
    then obtain j where j: "i \<le> j" "\<forall>m\<ge>j. \<forall>k<n. P k m" by auto
    obtain j' where j': "\<forall>m\<ge>j'. P n m" using Suc.prems [of n] by auto
    have "\<forall>m\<ge>max j j'. \<forall>k<Suc n. P k m" using j(2) j' by (auto simp: less_Suc_eq)
    with j(1) show ?case by (meson le_max_iff_disj)
  qed auto
  then show ?thesis by blast
qed

lemma server_done_hands_nothing:
  assumes "rstep K c option flags patient r r'" "r_srv r = Left x"
  shows "handed c (r_hist r') = handed c (r_hist r)"
  using assms by (cases rule: rstep.cases) auto

lemma done_keeps_threads:
  assumes "nstep K c patient callback s s'" "r_srv (n_srv s) = Left x"
  shows "length (n_cls s') = length (n_cls s)"
  using assms(1)
proof (cases rule: nstep.cases)
  case (Server r r' new cs)
  have "handed c (r_hist r') = handed c (r_hist r)"
    by (rule server_done_hands_nothing [OF Server(3)]) (use assms(2) Server(1) in simp)
  with Server(1,2,4) show ?thesis by (simp add: new_threads_def handed_since_def)
qed simp

text \<open>Callbacks that use the object they get with settings that fit.\<close>

definition calm_callback :: "config \<Rightarrow> (sock_method list \<Rightarrow> bool) \<Rightarrow> bool" where
  "calm_callback c callback \<longleftrightarrow> (\<forall>ms. callback ms \<longrightarrow> settings_fit c 10000 100 ms)"

lemma new_threads_calm:
  assumes "map cl_sock cs = map (client_socket c) new" "calm_callback c callback"
    and "list_all (\<lambda>C. cl_now C = Idle \<and> callback (cl_work C)) cs"
  shows "list_all (calm K c) cs"
  using assms(1,3)
proof (induction cs arbitrary: new)
  case (Cons C cs)
  then obtain x new' where "new = x # new'" by (cases new) auto
  with Cons assms(2) show ?case
    by (auto simp: calm_def calm_callback_def client_socket_def setIpAddr_def ncSocket_of_fd_def)
qed simp

lemma net_step_calm:
  assumes "nstep K c True callback s s'" "net_inv c l s" "list_all (calm K c) (n_cls s)" "polls K c"
    and "good_process K c callback" "calm_callback c callback"
  shows "list_all (calm K c) (n_cls s')"
  using assms(1)
proof (cases rule: nstep.cases)
  case (Server r r' new cs)
  have inv: "server_inv l r" "table_inv c l (listener_fd l (r_stp r) @ client_fds cs) (r_hist r)" "0 < l"
    using assms(2) Server(1) by (simp_all add: net_inv_def owned_def n_hist_def)
  have K: "fresh_doc K" "\<forall>g. os_new K g" "threads c \<noteq> NoThreads"
    using assms(5) by (simp_all add: good_process_def)
  from rstep_served [OF Server(3) inv(1,2) K inv(3)] obtain xs where
    "handed_since c (r_hist r) (r_hist r') = map (client_socket c) xs" by (auto simp: served_def)
  with new_threads_calm [of new c xs callback K] Server assms(3,6) show ?thesis
    by (simp add: new_threads_def)
next
  case (Thread i cs r C' h')
  then have "calm K c C'"
    using client_falls [OF _ Thread(4) assms(4) Thread(5)] assms(3) by (simp add: list_all_length)
  then show ?thesis
    using Thread(1,2) assms(3) set_update_subset_insert [of cs i C'] by (auto simp: list_all_iff)
qed

lemma net_run_shared: "net_run K c patient callback run \<Longrightarrow> shared_run K c NC_THREADED NC_DETACHED patient (\<lambda>i. n_srv (run i))"
proof -
  assume run: "net_run K c patient callback run"
  show ?thesis
    unfolding shared_run_def
  proof
    fix i
    from run have "run (Suc i) = run i \<or> nstep K c patient callback (run i) (run (Suc i))"
      by (simp add: net_run_def)
    then show "rstep K c NC_THREADED NC_DETACHED patient (n_srv (run i)) (n_srv (run (Suc i))) \<or>
        (\<exists>h. n_srv (run (Suc i)) = (n_srv (run i))\<lparr>r_hist := h\<rparr>)"
    proof
      assume "run (Suc i) = run i"
      then have "n_srv (run (Suc i)) = (n_srv (run i))\<lparr>r_hist := r_hist (n_srv (run i))\<rparr>" by simp
      then show ?thesis by blast
    qed (auto elim!: nstep.cases)
  qed
qed

lemma net_run_reach:
  assumes "net_run K c patient callback run"
  shows "nreach K c patient callback (run 0) (run i)"
proof (induction i)
  case 0 show ?case by (rule nreach.Refl)
next
  case (Suc i)
  from assms have "run (Suc i) = run i \<or> nstep K c patient callback (run i) (run (Suc i))"
    by (simp add: net_run_def)
  with Suc show ?case by (auto intro: nreach.Step)
qed

lemma net_run_calm:
  assumes "net_run K c True callback run" "run 0 = net_start L T h cs"
    and "good_process K c callback" "good_start c (ls_sockfd L) h cs" "polls K c" "calm_callback c callback"
    and "list_all (calm K c) cs"
  shows "list_all (calm K c) (n_cls (run i))"
proof (induction i)
  case 0 show ?case using assms(2,7) by (simp add: net_start_def)
next
  case (Suc i)
  have "net_inv c (ls_sockfd L) (run i)"
    using net_always [OF net_run_reach [OF assms(1), of i, unfolded assms(2)] assms(3,4)] .
  from net_step_calm [OF _ this Suc assms(5,3,6)] assms(1) show ?case
    by (metis Suc net_run_def)
qed

text \<open>
  C7: the whole process winds down: on every fair run in which \<open>stopListening\<close> is called, there is a
  moment when \<open>startListening\<close> and \<open>stopListening\<close> have returned, every client thread has finished
  and deleted its object, and every descriptor the process ever got has been closed, each exactly
  as often as it was given out. (A close of -1, as the destructors make on Windows, closes nothing
  and is not counted.)
\<close>

theorem process_winds_down:
  assumes "net_run K c True callback run" "run 0 = net_start L T h cs"
    and "good_process K c callback" "good_start c (ls_sockfd L) h cs"
    and "polls K c" "calm_callback c callback" "list_all (calm K c) cs"
    and "server_fair (\<lambda>i. n_srv (run i))" "stopper_fair True (\<lambda>i. n_srv (run i))" "\<And>k. thread_fair K c k run"
    and "r_stp (n_srv (run i)) \<noteq> Before"
  shows "\<exists>j\<ge>i. (\<exists>r. r_srv (n_srv (run j)) = Left r) \<and> r_stp (n_srv (run j)) = After \<and>
    list_all (\<lambda>C. cl_now C = Gone) (n_cls (run j)) \<and>
    mset (closes (n_hist (run j))) = mset (births (n_hist (run j)))"
proof -
  have "flag_clear (n_srv (run 0))" by (simp add: assms(2) net_start_def flag_clear_def race_start_def)
  from threads_return [OF net_run_shared [OF assms(1)] this assms(8,9,11)] obtain j where
    j: "i \<le> j" "\<forall>k\<ge>j. (\<exists>r. r_srv (n_srv (run k)) = Left r) \<and> r_stp (n_srv (run k)) = After" by blast
  let ?n = "length (n_cls (run j))"
  have len: "length (n_cls (run m)) = ?n" if "j \<le> m" for m
    using that
  proof (induction m rule: dec_induct)
    case (step m)
    with j(2) obtain r where "r_srv (n_srv (run m)) = Left r" by blast
    with done_keeps_threads assms(1) step.IH show ?case by (metis net_run_def)
  qed simp
  note calm = net_run_calm [OF assms(1-7)]
  have ends: "\<exists>m. \<forall>q\<ge>m. cl_now (n_cls (run q) ! k) = Gone" if "k < ?n" for k
  proof -
    have "calm K c (n_cls (run j) ! k)" using calm [of j] that by (simp add: list_all_length)
    from thread_ends [OF assms(1) assms(10) that this assms(5)] show ?thesis by blast
  qed
  have "\<exists>m\<ge>j. \<forall>k<?n. cl_now (n_cls (run m) ! k) = Gone"
  proof (rule all_in_the_end [where n = ?n and i = j and P = "\<lambda>k q. cl_now (n_cls (run q) ! k) = Gone"])
    fix k assume "k < ?n" then show "\<exists>m. \<forall>q\<ge>m. cl_now (n_cls (run q) ! k) = Gone" by (rule ends)
  qed
  then obtain m where m: "j \<le> m" "\<forall>k<?n. cl_now (n_cls (run m) ! k) = Gone" by blast
  then have gone: "list_all (\<lambda>C. cl_now C = Gone) (n_cls (run m))"
    using len [OF m(1)] by (simp add: list_all_length)
  have inv: "net_inv c (ls_sockfd L) (run m)"
    using net_always [OF net_run_reach [OF assms(1), of m, unfolded assms(2)] assms(3,4)] .
  have after: "r_stp (n_srv (run m)) = After" "\<exists>r. r_srv (n_srv (run m)) = Left r" using j(2) m(1) by blast+
  have "i \<le> m" using j(1) m(1) by simp
  moreover note all_closed [OF inv after(1) gone]
  ultimately show ?thesis using after gone by (intro exI [of _ m] conjI)
qed

text \<open>The listener is stopped while a thread waits with its object; then the thread connects.\<close>

definition caller :: client where
  "caller = \<lparr>cl_sock = ncSocket_default linux_config,
     cl_work = [MConnectTo zero_sockaddr (Some [49]) 80 SOCKTYPE_TCPIP], cl_now = Idle\<rparr>"

definition closing_run :: "nat \<Rightarrow> net" where
  "closing_run i =
     (if i < 5 then \<lparr>n_srv = short_run on_socket_3 i, n_cls = [caller]\<rparr>
      else lone_thread serving_os linux_config (short_run on_socket_3 5) caller (i - 5))"

lemma closing_run_srv: "\<exists>h. n_srv (closing_run i) = (short_run on_socket_3 i)\<lparr>r_hist := h\<rparr>"
proof (cases "i < 5")
  case True
  then have "n_srv (closing_run i) = (short_run on_socket_3 i)\<lparr>r_hist := r_hist (short_run on_socket_3 i)\<rparr>"
    by (simp add: closing_run_def)
  then show ?thesis by blast
next
  case False
  then show ?thesis
    using short_run_end [of i on_socket_3] by (auto simp: closing_run_def lone_thread_def Let_def)
qed

lemma closing_run_at_5: "closing_run 5 = \<lparr>n_srv = short_run on_socket_3 5, n_cls = [caller]\<rparr>"
  by (simp add: closing_run_def lone_thread_def)

lemma closing_run_later:
  assumes "5 \<le> i"
  shows "closing_run i = lone_thread serving_os linux_config (short_run on_socket_3 5) caller (i - 5)"
    and "closing_run (Suc i) = lone_thread serving_os linux_config (short_run on_socket_3 5) caller (Suc (i - 5))"
  using assms by (simp_all add: closing_run_def flip: Suc_diff_le)

lemma closing_run_steps: "net_run serving_os linux_config True callback closing_run"
  unfolding net_run_def
proof
  fix i
  show "closing_run (Suc i) = closing_run i \<or>
      nstep serving_os linux_config True callback (closing_run i) (closing_run (Suc i))"
  proof (cases "5 \<le> i")
    case True
    show ?thesis unfolding closing_run_later [OF True] by (rule lone_thread_step)
  next
    case False
    then have st: "rstep serving_os linux_config NC_THREADED NC_DETACHED True (short_run on_socket_3 i)
        (short_run on_socket_3 (Suc i))" using short_run_step [of _ _ _ _ on_socket_3 i] by blast
    have after: "closing_run (Suc i) = \<lparr>n_srv = short_run on_socket_3 (Suc i), n_cls = [caller]\<rparr>"
      using False closing_run_at_5 by (cases "i = 4") (simp_all add: closing_run_def)
    have "handed linux_config (r_hist (short_run on_socket_3 k)) = []" for k
      by (simp add: short_run_def race_start_def on_socket_3_def Let_def)
    then have "new_threads linux_config callback (r_hist (short_run on_socket_3 i))
        (r_hist (short_run on_socket_3 (Suc i))) []" by (simp add: new_threads_def handed_since_def)
    from nstep.Server [OF st this, of "[caller]"] False after show ?thesis by (simp add: closing_run_def)
  qed
qed

lemma closing_run_fair:
  "server_fair (\<lambda>i. n_srv (closing_run i))" "stopper_fair True (\<lambda>i. n_srv (closing_run i))"
  "thread_fair serving_os linux_config k closing_run"
proof -
  have same: "r_srv (n_srv (closing_run i)) = r_srv (short_run on_socket_3 i)"
    "r_stp (n_srv (closing_run i)) = r_stp (short_run on_socket_3 i)" for i
    using closing_run_srv [of i] by auto
  show "server_fair (\<lambda>i. n_srv (closing_run i))" "stopper_fair True (\<lambda>i. n_srv (closing_run i))"
    using short_run_fair [of on_socket_3] by (simp_all add: server_fair_def stopper_fair_def stop_ready_def same)
  have one: "length (n_cls (closing_run i)) = 1" for i
    by (simp add: closing_run_def lone_thread_def Let_def)
  have turn: "its_turn serving_os linux_config 0 (closing_run i) (closing_run (Suc i))"
    if "5 \<le> i" "cl_now (n_cls (closing_run i) ! 0) \<noteq> Gone" for i
    unfolding closing_run_later [OF that(1)]
    by (rule lone_thread_turn) (use that(2) in \<open>simp add: closing_run_later(1) [OF that(1)]\<close>)
  have "its_turn serving_os linux_config 0 (closing_run 5) (closing_run (Suc 5))"
    by (rule turn) (simp_all add: closing_run_at_5 caller_def)
  moreover have "j \<le> 5 \<or> 5 \<le> j" for j :: nat by arith
  ultimately show "thread_fair serving_os linux_config k closing_run"
    using turn unfolding thread_fair_def one by (metis le_refl less_one)
qed

theorem process_winds_down_witness:
  "\<exists>j\<ge>1. (\<exists>r. r_srv (n_srv (closing_run j)) = Left r) \<and> r_stp (n_srv (closing_run j)) = After \<and>
    list_all (\<lambda>C. cl_now C = Gone) (n_cls (closing_run j)) \<and>
    mset (closes (n_hist (closing_run j))) = mset (births (n_hist (closing_run j)))"
proof -
  have start: "closing_run 0 = net_start listening_obj \<lparr>th_retVal = 0, ncthread = 0\<rparr> on_socket_3 [caller]"
    by (simp add: closing_run_def short_run_def net_start_def Let_def)
  have good: "good_start linux_config (ls_sockfd listening_obj) on_socket_3 [caller]"
    using start_on_socket_3(2) by (simp add: caller_def)
  let ?callback = "\<lambda>ms. tidy True ms \<and> settings_fit linux_config 10000 100 ms"
  have proc: "good_process serving_os linux_config ?callback"
    using serving_os_good by (simp add: good_process_def)
  show ?thesis
  proof (rule process_winds_down [OF closing_run_steps start proc good _ _ _ closing_run_fair])
    show "polls serving_os linux_config" using ready_os_docs(1)
      by (simp add: polls_def poll_doc_def serving_os_def lowest_os_def)
    show "calm_callback linux_config ?callback" by (simp add: calm_callback_def)
    show "list_all (calm serving_os linux_config) [caller]"
      by (simp add: caller_def calm_def connect_clock_fits_def linux_config_def)
    show "r_stp (n_srv (closing_run 1)) \<noteq> Before"
      by (simp add: closing_run_def short_run_def Let_def)
  qed
qed

end
