(* ===== verification/Nc_Thread_Life.thy ===== *)
theory Nc_Thread_Life
  imports Nc_Thread
begin

text \<open>
  The life of an \<^verbatim>\<open>ncThread\<close> object: the constructor, any sequence of public methods, the
  destructor. The object holds one handle, and each \<open>start\<close> overwrites it: on POSIX a thread has
  to be joined, detached or stopped before the next start, on Windows only the handle of the last
  start is ever closed.
\<close>

datatype thread_method = TStart cbarg | TJoin | TDetach | TStop int | TTestCancel | TExit

fun thread_step :: "os \<Rightarrow> config \<Rightarrow> thread_method \<Rightarrow> ncThread \<times> hist \<Rightarrow> ncThread \<times> hist" where
  "thread_step K c (TStart arg) (T, h) = snd (ncThread_start K c arg T h)"
| "thread_step K c TJoin (T, h) = snd (ncThread_join K c T h)"
| "thread_step K c TDetach (T, h) = (T, snd (ncThread_detach K c T h))"
| "thread_step K c (TStop status) (T, h) = ncThread_stop K c T h"
| "thread_step K c TTestCancel (T, h) = (T, ncThread_testCancel c h)"
| "thread_step K c TExit (T, h) = (T, ncThread_exit c T h)"

definition run_thread :: "os \<Rightarrow> config \<Rightarrow> thread_method list \<Rightarrow> ncThread \<times> hist \<Rightarrow> ncThread \<times> hist" where
  "run_thread K c ms s = foldl (\<lambda>s m. thread_step K c m s) s ms"

text \<open>
  The use POSIX asks for: each start is followed by one \<open>join\<close>, \<open>detach\<close> or \<open>stop\<close>. The result
  says whether a thread is still to be released, \<open>None\<close> that the use is another.
\<close>

fun posix_use :: "bool \<Rightarrow> thread_method list \<Rightarrow> bool option" where
  "posix_use held [] = Some held"
| "posix_use held (TStart a # ms) = (if held then None else posix_use True ms)"
| "posix_use held (TTestCancel # ms) = posix_use held ms"
| "posix_use held (TExit # ms) = posix_use held ms"
| "posix_use held (m # ms) = (if held then posix_use False ms else None)"

definition threads_work :: "os \<Rightarrow> bool" where
  "threads_work K \<longleftrightarrow> (\<forall>h a. fst (os_thread_create K h a) = 0) \<and>
     (\<forall>h t. fst (os_thread_join K h t) = 0) \<and> (\<forall>h t. os_thread_detach K h t = 0)"

definition pending :: "bool \<Rightarrow> ncThread \<Rightarrow> nat list" where
  "pending held T = (if held then [ncthread T] else [])"

lemma thread_step_posix:
  assumes "threads c = PThreads" "threads_work K" "created h = freed h @ pending held T"
    and "posix_use held (m # ms) = Some b" "thread_step K c m (T, h) = (T', h')"
  shows "\<exists>held'. created h' = freed h' @ pending held' T' \<and> posix_use held' ms = Some b"
proof -
  have ok: "fst (os_thread_create K g a) = 0" "fst (os_thread_join K g t) = 0" "os_thread_detach K g t = 0"
    for g a t using assms(2) by (simp_all add: threads_work_def)
  have win: "cfg_platform c \<noteq> Win32" using assms(1) by (auto simp: threads_def)
  show ?thesis
  proof (cases m)
    case (TStart a)
    with assms ok(1) [of h a] show ?thesis
      by (intro exI [of _ True])
        (auto simp: ncThread_start_alt pending_def Let_def split: if_splits prod.splits)
  next
    case TJoin
    with assms ok(2) [of h "ncthread T"] show ?thesis
      by (intro exI [of _ False])
        (auto simp: ncThread_join_alt pending_def Let_def split: if_splits prod.splits)
  next
    case TDetach
    with assms ok(3) [of h "ncthread T"] show ?thesis
      by (intro exI [of _ False])
        (auto simp: ncThread_detach_alt pending_def Let_def split: if_splits)
  next
    case (TStop n)
    with assms ok(2) [of "ThreadCancel (ncthread T) # h" "ncthread T"] show ?thesis
      by (intro exI [of _ False])
        (auto simp: ncThread_stop_alt pending_def Let_def split: if_splits prod.splits)
  next
    case TTestCancel
    with assms show ?thesis
      by (intro exI [of _ held])
        (auto simp: ncThread_testCancel_def ncThread_testCancel_win_def ncThread_testCancel_posix_def
          split: if_splits)
  next
    case TExit
    with assms show ?thesis
      by (intro exI [of _ held])
        (auto simp: ncThread_exit_def ncThread_exit_win_def ncThread_exit_posix_def split: if_splits)
  qed
qed

lemma run_thread_posix:
  assumes "threads c = PThreads" "threads_work K"
  shows "created h = freed h @ pending held T \<Longrightarrow> posix_use held ms = Some b \<Longrightarrow>
    run_thread K c ms (T, h) = (T', h') \<Longrightarrow> created h' = freed h' @ pending b T'"
proof (induction ms arbitrary: held T h)
  case Nil
  then show ?case by (simp add: run_thread_def)
next
  case (Cons m ms)
  obtain U g where s: "thread_step K c m (T, h) = (U, g)" by fastforce
  from thread_step_posix [OF assms Cons.prems(1,2) s] obtain held' where
    "created g = freed g @ pending held' U" "posix_use held' ms = Some b" by blast
  from Cons.IH [OF this] Cons.prems(3) s show ?case by (simp add: run_thread_def)
qed

section \<open>Handles on Windows\<close>

text \<open>The handles \<open>CreateThread\<close> returned, and those that were closed.\<close>

primrec win_handles :: "hist \<Rightarrow> nat list" where
  "win_handles [] = []"
| "win_handles (e # h) =
     (case e of ThreadCreate a r t \<Rightarrow> win_handles h @ [t] | _ \<Rightarrow> win_handles h)"

primrec closed_handles :: "hist \<Rightarrow> nat list" where
  "closed_handles [] = []"
| "closed_handles (e # h) =
     (case e of ThreadCloseHandle t \<Rightarrow> closed_handles h @ [t] | _ \<Rightarrow> closed_handles h)"

lemma thread_step_win:
  assumes "threads c = WinThreads" "thread_step K c m (T, h) = (T', h')"
  shows "closed_handles h' = closed_handles h \<and>
    (win_handles h' = win_handles h \<and> ncthread T' = ncthread T \<or>
     win_handles h' = win_handles h @ [ncthread T'])"
  using assms
  by (cases m)
    (auto simp: thread_alts ncThread_testCancel_def ncThread_testCancel_win_def ncThread_exit_def
      ncThread_exit_win_def threads_def Let_def split: if_splits prod.splits)

lemma run_thread_win:
  assumes "threads c = WinThreads"
  shows "run_thread K c ms (T, h) = (T', h') \<Longrightarrow> closed_handles h' = closed_handles h \<and>
    (\<exists>new. win_handles h' = win_handles h @ new \<and> ncthread T' = last (ncthread T # new))"
proof (induction ms arbitrary: T h)
  case Nil
  then show ?case by (simp add: run_thread_def)
next
  case (Cons m ms)
  obtain U g where s: "thread_step K c m (T, h) = (U, g)" by fastforce
  with Cons.prems have "run_thread K c ms (U, g) = (T', h')" by (simp add: run_thread_def)
  from Cons.IH [OF this] obtain new where IH: "closed_handles h' = closed_handles g"
    "win_handles h' = win_handles g @ new" "ncthread T' = last (ncthread U # new)" by blast
  from thread_step_win [OF assms s] show ?case
  proof (elim conjE disjE)
    assume "closed_handles g = closed_handles h" "win_handles g = win_handles h" "ncthread U = ncthread T"
    with IH show ?thesis by auto
  next
    assume "closed_handles g = closed_handles h" "win_handles g = win_handles h @ [ncthread U]"
    with IH show ?thesis by (intro conjI exI [of _ "ncthread U # new"]) auto
  qed
qed

section \<open>Properties\<close>

text \<open>
  C31: over the whole life of a thread object on POSIX, used so that each start is followed by one
  \<open>join\<close>, \<open>detach\<close> or \<open>stop\<close>: the threads created are released once each, in order, all but the
  one that is still running when the use leaves one, whose handle the object holds.
\<close>

theorem thread_life_posix:
  assumes "threads c = PThreads" "threads_work K" "posix_use False ms = Some held"
    and "run_thread K c ms (ncThread_init c T0 []) = (T, h)"
  shows "created h = freed h @ (if held then [getThreadHandle T] else [])"
proof -
  obtain T1 h1 where i: "ncThread_init c T0 [] = (T1, h1)" by fastforce
  then have "created h1 = freed h1 @ pending False T1"
    by (auto simp: ncThread_init_def pending_def split: if_splits)
  from run_thread_posix [OF assms(1,2) this assms(3)] assms(4) i show ?thesis
    by (simp add: pending_def getThreadHandle_def)
qed

theorem thread_life_posix_witness:
  "\<exists>T h. run_thread ok_threads_os linux_config [TStart (CbUdp \<lparr>u_sockfd = 0, u_length = 0,
      u_clientaddr = zero_sockaddr, u_data = []\<rparr>), TDetach, TStart (CbSocket (ncSocket_default linux_config)), TStop 1]
      (ncThread_init linux_config \<lparr>th_retVal = 0, ncthread = 7\<rparr> []) = (T, h) \<and>
    created h = freed h @ (if False then [getThreadHandle T] else [])"
proof -
  obtain T h where r: "run_thread ok_threads_os linux_config [TStart (CbUdp \<lparr>u_sockfd = 0, u_length = 0,
      u_clientaddr = zero_sockaddr, u_data = []\<rparr>), TDetach, TStart (CbSocket (ncSocket_default linux_config)), TStop 1]
      (ncThread_init linux_config \<lparr>th_retVal = 0, ncthread = 7\<rparr> []) = (T, h)" by fastforce
  have "created h = freed h @ (if False then [getThreadHandle T] else [])"
    by (rule thread_life_posix [OF _ _ _ r])
      (simp_all add: threads_def linux_config_def threads_work_def ok_threads_os_def)
  with r show ?thesis by blast
qed

text \<open>
  C32: on Windows, whatever methods are called, the only handle that is closed over the life of the
  object is the one it holds at its end: of several starts only the last one's, so the handles of
  the others, those of all but the last client of a listener for example, are never closed; and
  without a start it is the indeterminate value the constructor left.
\<close>

theorem thread_handles_win:
  assumes "threads c = WinThreads" "run_thread K c ms (ncThread_init c T0 []) = (T, h)"
  shows "closed_handles (ncThread_destroy c T h) = [last (ncthread T0 # win_handles h)]"
proof -
  obtain T1 h1 where i: "ncThread_init c T0 [] = (T1, h1)" by fastforce
  then have "closed_handles h1 = []" "win_handles h1 = []" "ncthread T1 = ncthread T0"
    by (auto simp: ncThread_init_def split: if_splits)
  with run_thread_win [OF assms(1)] assms(2) i show ?thesis
    by (fastforce simp: ncThread_destroy_def assms(1))
qed

theorem thread_handles_win_witness:
  "\<exists>T h. run_thread ok_threads_os win32_config
      [TStart (CbSocket (ncSocket_default win32_config)), TDetach, TStart (CbSocket (ncSocket_default win32_config))]
      (ncThread_init win32_config \<lparr>th_retVal = 0, ncthread = 7\<rparr> []) = (T, h) \<and>
    win_handles h = [1, 2] \<and>
    closed_handles (ncThread_destroy win32_config T h) =
      [last (ncthread \<lparr>th_retVal = 0, ncthread = 7\<rparr> # win_handles h)]"
proof -
  have w: "threads win32_config = WinThreads" by (simp add: threads_def win32_config_def)
  let ?run = "run_thread ok_threads_os win32_config
      [TStart (CbSocket (ncSocket_default win32_config)), TDetach, TStart (CbSocket (ncSocket_default win32_config))]
      (ncThread_init win32_config \<lparr>th_retVal = 0, ncthread = 7\<rparr> [])"
  obtain T h where r: "?run = (T, h)" by fastforce
  have "win_handles (snd ?run) = [1, 2]"
    by (simp add: run_thread_def thread_alts threads_def ncThread_init_def win32_config_def ok_threads_os_def Let_def)
  with r thread_handles_win [OF w r] show ?thesis by auto
qed

end
