(* ===== verification/Nc_Sock_Type.thy ===== *)
theory Nc_Sock_Type
  imports Nc_Sock_Life
begin

text \<open>
  The type of an \<^verbatim>\<open>ncSocket\<close> object: the members keep the shape the other code relies on,
  whatever methods are called and whatever the kernel answers. \<open>m_hostname\<close> is an array of 256
  bytes whose last is zero, so the string \<open>gethostbyname\<close> and \<open>inet_addr\<close> read ends inside
  it; \<open>m_listener\<close> is the poll object of the version that was compiled.
\<close>

definition poll_object_ok :: "config \<Rightarrow> ncPollObject \<Rightarrow> bool" where
  "poll_object_ok c p = (case p of FdSet _ \<Rightarrow> uses_select c | PollFd _ _ _ \<Rightarrow> \<not> uses_select c)"

definition hostname_ok :: "byte list \<Rightarrow> bool" where
  "hostname_ok bs \<longleftrightarrow> length bs = MAX_HOSTNAME_LEN \<and> bs ! (MAX_HOSTNAME_LEN - 1) = 0"

definition ncSocket_ok :: "config \<Rightarrow> ncSocket \<Rightarrow> bool" where
  "ncSocket_ok c S \<longleftrightarrow> hostname_ok (m_hostname S) \<and> poll_object_ok c (m_listener S)"

section \<open>The constructors establish it\<close>

lemma zero_poll_object_ok: "poll_object_ok c (zero_poll_object c)"
  by (simp add: poll_object_ok_def zero_poll_object_def)

lemma zero_hostname_ok: "hostname_ok zero_hostname"
  by (simp add: hostname_ok_def zero_hostname_def MAX_HOSTNAME_LEN_def)

lemma copy_hostname_ok: "hostname_ok (copy_hostname host)"
  unfolding hostname_ok_def by (intro conjI copy_hostname_terminated) simp

lemma constructors_ok:
  "ncSocket_ok c (ncSocket_default c)" "ncSocket_ok c (ncSocket_of_fd c fd)"
  "ncSocket_ok c (ncSocket_of_host c host port ty)"
  by (simp_all add: ncSocket_ok_def ncSocket_default_def ncSocket_of_fd_def ncSocket_of_host_def
      zero_poll_object_ok zero_hostname_ok copy_hostname_ok)

text \<open>A terminated array holds a string shorter than the array.\<close>

lemma hostname_ok_string: "hostname_ok bs \<Longrightarrow> length (cstr bs) < MAX_HOSTNAME_LEN"
proof (rule ccontr)
  assume ok: "hostname_ok bs" and "\<not> length (cstr bs) < MAX_HOSTNAME_LEN"
  then have "cstr bs = bs"
    using takeWhile_eq_take [of "\<lambda>b. b \<noteq> 0" bs] by (simp add: cstr_def hostname_ok_def)
  moreover have "bs ! (MAX_HOSTNAME_LEN - 1) \<in> set bs"
    using ok by (intro nth_mem) (simp add: hostname_ok_def MAX_HOSTNAME_LEN_def)
  ultimately show False
    using ok set_takeWhileD [of "0 :: byte" "\<lambda>b. b \<noteq> 0" bs] by (simp add: cstr_def hostname_ok_def)
qed

section \<open>The transfers keep it\<close>

lemma loop_ok:
  assumes run: "run_loop (step :: xfer \<Rightarrow> xfer + (retcode \<times> xfer)) s = Some (r, s')" and fr: "frame s s'"
    and ok: "ncSocket_ok c (x_sock s)"
    and again: "\<And>u u'. poll_object_ok c (m_listener (x_sock u)) \<Longrightarrow> step u = Inl u' \<Longrightarrow>
      poll_object_ok c (m_listener (x_sock u'))"
    and last: "\<And>u q u'. poll_object_ok c (m_listener (x_sock u)) \<Longrightarrow> step u = Inr (q, u') \<Longrightarrow>
      poll_object_ok c (m_listener (x_sock u'))"
  shows "ncSocket_ok c (x_sock s')"
proof -
  let ?P = "\<lambda>u. poll_object_ok c (m_listener (x_sock u))"
  have "?P (snd (r, s'))"
  proof (rule run_loop_inv [OF run, where I = ?P and Q = "\<lambda>q. ?P (snd q)"])
    show "?P s" using ok by (simp add: ncSocket_ok_def)
    show "?P u'" if "?P u" "step u = Inl u'" for u u' using that by (rule again)
    show "?P (snd q)" if "?P u" "step u = Inr q" for u q
      using that last [of u "fst q" "snd q"] by simp
  qed
  then show ?thesis using ok frame_fields(8) [OF fr] by (simp add: ncSocket_ok_def)
qed

lemma poll_bodies_object:
  assumes "\<not> uses_select c" "poll_object_ok c (m_listener (x_sock u))"
  shows "writeData_poll_body e u = Inl u' \<Longrightarrow> poll_object_ok c (m_listener (x_sock u'))"
    and "writeData_poll_body e u = Inr (q, u') \<Longrightarrow> poll_object_ok c (m_listener (x_sock u'))"
    and "readData_poll_body e u = Inl u' \<Longrightarrow> poll_object_ok c (m_listener (x_sock u'))"
    and "readData_poll_body e u = Inr (q, u') \<Longrightarrow> poll_object_ok c (m_listener (x_sock u'))"
  using assms
  by (auto simp: writeData_poll_body_def readData_poll_body_def Let_def nc_os wait_for_def
      poll_object_ok_def split: if_splits prod.splits dest!: receive_sock)

lemma select_bodies_object:
  assumes "uses_select c" "poll_object_ok c (m_listener (x_sock u))"
  shows "writeData_select_body e u = Inl u' \<Longrightarrow> poll_object_ok c (m_listener (x_sock u'))"
    and "writeData_select_body e u = Inr (q, u') \<Longrightarrow> poll_object_ok c (m_listener (x_sock u'))"
    and "readData_select_body e u = Inl u' \<Longrightarrow> poll_object_ok c (m_listener (x_sock u'))"
    and "readData_select_body e u = Inr (q, u') \<Longrightarrow> poll_object_ok c (m_listener (x_sock u'))"
  using assms
  by (auto simp: writeData_select_body_def readData_select_body_def Let_def nc_os wait_for_def
      poll_object_ok_def split: if_splits prod.splits dest!: receive_sock)

lemma transfer_ok:
  assumes ok: "ncSocket_ok (e_cfg e) S"
  shows "writeData e S buf want h = Some (r, x) \<Longrightarrow> ncSocket_ok (e_cfg e) (x_sock x)"
    and "readData e S buf want h = Some (r, x) \<Longrightarrow> ncSocket_ok (e_cfg e) (x_sock x)"
proof -
  let ?s = "xfer_init e S buf want h"
  have s: "ncSocket_ok (e_cfg e) (x_sock ?s)" using ok by (simp add: xfer_init_def)
  show "ncSocket_ok (e_cfg e) (x_sock x)" if run: "writeData e S buf want h = Some (r, x)"
  proof (cases "uses_select (e_cfg e)")
    case True
    with run have run': "run_loop (writeData_select_body e) ?s = Some (r, x)" by (simp add: io_defs)
    show ?thesis
      by (rule loop_ok [where step = "writeData_select_body e", OF run' conjunct1 [OF wselect_clock.run_frame [OF run']] s select_bodies_object(1) select_bodies_object(2)])
        (use True in simp_all)
  next
    case False
    with run have run': "run_loop (writeData_poll_body e) ?s = Some (r, x)" by (simp add: io_defs)
    show ?thesis
      by (rule loop_ok [where step = "writeData_poll_body e", OF run' conjunct1 [OF wpoll_clock.run_frame [OF run']] s poll_bodies_object(1) poll_bodies_object(2)])
        (use False in simp_all)
  qed
  show "ncSocket_ok (e_cfg e) (x_sock x)" if run: "readData e S buf want h = Some (r, x)"
  proof (cases "uses_select (e_cfg e)")
    case True
    with run have run': "run_loop (readData_select_body e) ?s = Some (r, x)" by (simp add: io_defs)
    show ?thesis
      by (rule loop_ok [where step = "readData_select_body e", OF run' conjunct1 [OF rselect_clock.run_frame [OF run']] s select_bodies_object(3) select_bodies_object(4)])
        (use True in simp_all)
  next
    case False
    with run have run': "run_loop (readData_poll_body e) ?s = Some (r, x)" by (simp add: io_defs)
    show ?thesis
      by (rule loop_ok [where step = "readData_poll_body e", OF run' conjunct1 [OF rpoll_clock.run_frame [OF run']] s poll_bodies_object(3) poll_bodies_object(4)])
        (use False in simp_all)
  qed
qed

section \<open>Every method keeps it\<close>

lemma connect_ok:
  assumes "ncSocket_connect K c tmp S h = Some (r, S', h')" "ncSocket_ok c S"
  shows "ncSocket_ok c S'"
  using assms
  by (auto simp: ncSocket_connect_defs ncSocket_ok_def Let_def split: if_splits option.splits prod.splits)

lemma connect_to_ok:
  assumes "ncSocket_connect_to K c tmp host port ty S h = Some (r, S', h')" "ncSocket_ok c S"
  shows "ncSocket_ok c S'"
  using assms
  by (auto simp: ncSocket_connect_to_def ncSocket_ok_def copy_hostname_ok split: if_splits option.splits
      dest!: connect_ok)

section \<open>The names that are looked up\<close>

fun resolved :: "hist \<Rightarrow> cstring list" where
  "resolved [] = []"
| "resolved (SysInetPton name r a # h) = resolved h @ [name]"
| "resolved (SysInetAddr name a # h) = resolved h @ [name]"
| "resolved (SysGethostbyname name ok # h) = resolved h @ [name]"
| "resolved (c # h) = resolved h"

lemma resolved_calls:
  "transmit e S d h = (n, h') \<Longrightarrow> resolved h' = resolved h"
  "receive e S k h = (n, bs, S', h') \<Longrightarrow> resolved h' = resolved h"
  by (auto simp: transmit_def receive_def nc_os Let_def split: if_splits prod.splits)

lemma resolved_loop:
  assumes run: "run_loop (step :: xfer \<Rightarrow> xfer + (retcode \<times> xfer)) s = Some (r, s')"
    and again: "\<And>u u'. step u = Inl u' \<Longrightarrow> resolved (x_hist u') = resolved (x_hist u)"
    and last: "\<And>u q u'. step u = Inr (q, u') \<Longrightarrow> resolved (x_hist u') = resolved (x_hist u)"
  shows "resolved (x_hist s') = resolved (x_hist s)"
proof -
  let ?P = "\<lambda>u. resolved (x_hist u) = resolved (x_hist s)"
  have "?P (snd (r, s'))"
  proof (rule run_loop_inv [OF run, where I = ?P and Q = "\<lambda>q. ?P (snd q)"])
    show "?P u'" if "?P u" "step u = Inl u'" for u u' using that again by simp
    show "?P (snd q)" if "?P u" "step u = Inr q" for u q
      using that last [of u "fst q" "snd q"] by simp
  qed simp
  then show ?thesis by simp
qed

lemma resolved_bodies:
  "writeData_poll_body e u = Inl u' \<Longrightarrow> resolved (x_hist u') = resolved (x_hist u)"
  "writeData_poll_body e u = Inr (q, u') \<Longrightarrow> resolved (x_hist u') = resolved (x_hist u)"
  "readData_poll_body e u = Inl u' \<Longrightarrow> resolved (x_hist u') = resolved (x_hist u)"
  "readData_poll_body e u = Inr (q, u') \<Longrightarrow> resolved (x_hist u') = resolved (x_hist u)"
  "writeData_select_body e u = Inl u' \<Longrightarrow> resolved (x_hist u') = resolved (x_hist u)"
  "writeData_select_body e u = Inr (q, u') \<Longrightarrow> resolved (x_hist u') = resolved (x_hist u)"
  "readData_select_body e u = Inl u' \<Longrightarrow> resolved (x_hist u') = resolved (x_hist u)"
  "readData_select_body e u = Inr (q, u') \<Longrightarrow> resolved (x_hist u') = resolved (x_hist u)"
  by (auto simp: writeData_poll_body_def readData_poll_body_def writeData_select_body_def
      readData_select_body_def Let_def nc_os wait_for_def split: if_splits prod.splits
      dest!: resolved_calls)

lemma resolved_transfer:
  assumes "writeData e S buf want h = Some (r, x) \<or> readData e S buf want h = Some (r, x)"
  shows "resolved (x_hist x) = resolved h"
proof -
  have h: "x_hist (xfer_init e S buf want h) = h" by (simp add: xfer_init_def)
  from assms show ?thesis
    using resolved_loop [of "writeData_poll_body e"] resolved_loop [of "readData_poll_body e"]
      resolved_loop [of "writeData_select_body e"] resolved_loop [of "readData_select_body e"]
      resolved_bodies [of e] h
    by (auto simp: io_defs split: if_splits)
qed

text \<open>\<open>connect\<close> looks up the string in \<open>m_hostname\<close>, once or twice, and no other.\<close>

lemma resolved_connect_loop:
  assumes "run_loop (connect_body K c fd addr limit) (t, g) = Some q"
  shows "resolved (snd q) = resolved g"
  by (rule run_loop_inv [OF assms, where I = "\<lambda>(t, u). resolved u = resolved g"])
    (auto simp: connect_body_def Let_def split: if_splits)

lemma resolved_connect:
  assumes "ncSocket_connect K c tmp S h = Some (r, S', h')"
  shows "set (resolved h') \<subseteq> insert (cstr (m_hostname S)) (set (resolved h))"
    "m_hostname S' = m_hostname S"
proof -
  have res: "resolved g = resolved g0 @ [host]" if "ncGetInetAddr K c host old g0 = (v, a, g)"
    for host old g0 v a g
    using that by (auto simp: ncGetInetAddr_defs Let_def split: if_splits prod.splits)
  have nb: "resolved (ncSetSocketNonBlocking K c fd g) = resolved g" for fd g
    by (simp add: ncSetSocketNonBlocking_defs Let_def)
  show "set (resolved h') \<subseteq> insert (cstr (m_hostname S)) (set (resolved h))"
    using assms
    by (auto simp: ncSocket_connect_defs Let_def nb split: if_splits option.splits prod.splits
        dest!: res resolved_connect_loop)
  show "m_hostname S' = m_hostname S"
    using assms
    by (auto simp: ncSocket_connect_defs Let_def split: if_splits option.splits prod.splits)
qed

section \<open>All methods\<close>

definition short_names :: "hist \<Rightarrow> bool" where
  "short_names h = list_all (\<lambda>name. length name < MAX_HOSTNAME_LEN) (resolved h)"

lemma method_step_typed:
  assumes step: "method_step K c m (S, h) = Some (S', h')" and ok: "ncSocket_ok c S" "short_names h"
  shows "ncSocket_ok c S' \<and> short_names h'"
proof -
  have transfer: "ncSocket_ok c (x_sock x) \<and> short_names (x_hist x)"
    if "writeData \<lparr>e_os = K, e_cfg = c, e_len = n\<rparr> S buf want h = Some (r, x) \<or>
      readData \<lparr>e_os = K, e_cfg = c, e_len = n\<rparr> S buf want h = Some (r, x)" for n buf want r x
    using that transfer_ok [of "\<lparr>e_os = K, e_cfg = c, e_len = n\<rparr>" S buf want h r x]
      resolved_transfer [OF that] ok
    by (auto simp: short_names_def)
  have conn: "ncSocket_ok c T' \<and> short_names h'"
    if "ncSocket_connect K c tmp T h = Some (r, T', h')" "ncSocket_ok c T" for T tmp r T' h'
    using connect_ok [OF that] resolved_connect(1) [OF that(1)] ok(2)
      hostname_ok_string [of "m_hostname T"] that(2)
    by (auto simp: short_names_def list_all_iff ncSocket_ok_def)
  show ?thesis
  proof (cases m)
    case (MConnectTo tmp host port ty)
    then show ?thesis
      using step ok conn copy_hostname_ok
      by (auto simp: ncSocket_connect_to_def ncSocket_ok_def split: if_splits option.splits)
  next
    case (MConnect tmp)
    then show ?thesis using step ok conn by auto
  next
    case (MWrite n buf want)
    then obtain r x where "writeData \<lparr>e_os = K, e_cfg = c, e_len = n\<rparr> S buf want h = Some (r, x)"
      "S' = x_sock x" "h' = x_hist x" using step by auto
    with transfer show ?thesis by blast
  next
    case (MRead n buf want)
    then obtain r x where "readData \<lparr>e_os = K, e_cfg = c, e_len = n\<rparr> S buf want h = Some (r, x)"
      "S' = x_sock x" "h' = x_hist x" using step by auto
    with transfer show ?thesis by blast
  qed (use step ok in \<open>auto simp: ncSocket_close_def ncSocket_flush_def setTimeout_def
      setPollTime_def setIpAddr_def ncSocket_ok_def short_names_def Let_def
      split: if_splits option.splits\<close>)
qed

lemma run_methods_typed:
  "run_methods K c ms (S, h) = Some (S', h') \<Longrightarrow> ncSocket_ok c S \<Longrightarrow> short_names h \<Longrightarrow>
    ncSocket_ok c S' \<and> short_names h'"
proof (induction ms arbitrary: S h)
  case (Cons m ms)
  then obtain T g where "method_step K c m (S, h) = Some (T, g)" "run_methods K c ms (T, g) = Some (S', h')"
    by (auto simp: bind_eq_Some_conv)
  with Cons method_step_typed show ?case by blast
qed simp

section \<open>Property\<close>

text \<open>
  C26: whatever constructor made the object and whatever sequence of public methods ran, with any
  arguments and any kernel: the host name array has its 256 bytes and ends with a zero, so the
  string in it has at most 255; no longer name was ever given to the resolver; and the poll
  object is the one the compiled version of the transfers expects.
\<close>

theorem socket_well_typed:
  assumes "S0 \<in> {ncSocket_default c, ncSocket_of_fd c fd, ncSocket_of_host c host port ty}"
    and "run_methods K c ms (S0, []) = Some (S, h)"
  shows "length (m_hostname S) = 256 \<and> length (cstr (m_hostname S)) \<le> 255 \<and>
    list_all (\<lambda>name. length name \<le> 255) (resolved h) \<and> poll_object_ok c (m_listener S)"
proof -
  have "ncSocket_ok c S0" using assms(1) constructors_ok by auto
  with run_methods_typed [OF assms(2)] have "ncSocket_ok c S" "short_names h"
    by (simp_all add: short_names_def)
  with hostname_ok_string [of "m_hostname S"] show ?thesis
    by (auto simp: ncSocket_ok_def hostname_ok_def short_names_def MAX_HOSTNAME_LEN_def list_all_iff)
qed

theorem socket_well_typed_witness:
  "\<exists>S h. run_methods dead_os linux_config [MConnectTo zero_sockaddr (Some (replicate 300 65)) 80 0, MClose]
      (ncSocket_default linux_config, []) = Some (S, h) \<and>
    length (m_hostname S) = 256 \<and> length (cstr (m_hostname S)) \<le> 255 \<and>
    list_all (\<lambda>name. length name \<le> 255) (resolved h) \<and> poll_object_ok linux_config (m_listener S)"
proof -
  have "run_methods dead_os linux_config [MConnectTo zero_sockaddr (Some (replicate 300 65)) 80 0, MClose]
      (ncSocket_default linux_config, []) \<noteq> None"
    by (simp add: ncSocket_connect_to_def ncSocket_connect_defs ncGetInetAddr_defs dead_os_def
        linux_config_def SOCKTYPE_TCPIP_def Let_def)
  then obtain S h where r: "run_methods dead_os linux_config
      [MConnectTo zero_sockaddr (Some (replicate 300 65)) 80 0, MClose]
      (ncSocket_default linux_config, []) = Some (S, h)" by auto
  from socket_well_typed [OF _ r] r show ?thesis by blast
qed

end
