(* ===== verification/Nc_Stream.thy ===== *)
theory Nc_Stream
  imports Nc_Sock_IO "HOL-Library.Sublist"
begin

text \<open>
  Two programs at the two ends of a connection: one sends a list of messages with
  \<open>writeData\<close>, the other reads blocks of given sizes with \<open>readData\<close>, each until a call does
  not return \<open>NC_OK\<close>. The connection is taken to be first-in first-out: what one kernel delivered
  is a prefix of what the other accepted. Nothing else is assumed of it, and the ends may run on
  different platforms.
\<close>

definition mem_of :: "byte list \<Rightarrow> mem" where
  "mem_of bs = mem_write (\<lambda>_. 0) 0 bs"

fun send_all :: "os \<Rightarrow> config \<Rightarrow> ncSocket \<Rightarrow> byte list list \<Rightarrow> hist \<Rightarrow> hist option" where
  "send_all K c S [] h = Some h"
| "send_all K c S (m # ms) h =
     (case writeData \<lparr>e_os = K, e_cfg = c, e_len = int (length m)\<rparr> S (mem_of m) True h of
        Some (r, x) \<Rightarrow> if r = NC_OK then send_all K c (x_sock x) ms (x_hist x) else None
      | None \<Rightarrow> None)"

fun recv_all :: "os \<Rightarrow> config \<Rightarrow> ncSocket \<Rightarrow> nat list \<Rightarrow> hist \<Rightarrow> (byte list list \<times> hist) option" where
  "recv_all K c S [] h = Some ([], h)"
| "recv_all K c S (n # ns) h =
     (case readData \<lparr>e_os = K, e_cfg = c, e_len = int n\<rparr> S (\<lambda>_. 0) True h of
        Some (r, x) \<Rightarrow>
          if r = NC_OK
          then map_option (\<lambda>(ds, h). (mem_read (x_mem x) 0 (int n) # ds, h))
                 (recv_all K c (x_sock x) ns (x_hist x))
          else None
      | None \<Rightarrow> None)"

text \<open>What one successful call amounts to.\<close>

lemma clock_fits_frame: "frame s s' \<Longrightarrow> clock_fits (x_sock s') = clock_fits (x_sock s)"
  by (simp add: clock_fits_def frame_fields)

lemma write_ok:
  assumes "write_env_ok e" "clock_fits S" "e_len e = int (length m)"
    and "writeData e S (mem_of m) want h = Some (NC_OK, x)"
  shows "sent_bytes (x_hist x) = sent_bytes h @ m" "clock_fits (x_sock x)"
proof -
  have "0 \<le> e_len e" using assms(3) by simp
  from writeData_post [OF assms(1) this assms(2)]
  obtain r s where w: "writeData e S (mem_of m) want h = Some (r, s)"
    and p: "transfer_post (e_len e) Sending (xfer_init e S (mem_of m) want h) r s" by blast
  with assms(4) have [simp]: "r = NC_OK" "s = x" by auto
  have "x_mem x = mem_of m"
    using p by (auto simp: transfer_post_def xfer_init_def fun_eq_iff)
  with p assms(3) show "sent_bytes (x_hist x) = sent_bytes h @ m"
    by (simp add: transfer_post_def result_ok_def xfer_init_def mem_of_def)
  from p assms(2) show "clock_fits (x_sock x)"
    by (auto simp: transfer_post_def xfer_init_def dest: clock_fits_frame)
qed

lemma read_ok:
  assumes "read_env_ok e" "clock_fits S" "e_len e = int n"
    and "readData e S buf want h = Some (NC_OK, x)"
  shows "received_bytes (x_hist x) = received_bytes h @ mem_read (x_mem x) 0 (int n)"
    "clock_fits (x_sock x)"
proof -
  have "0 \<le> e_len e" using assms(3) by simp
  from readData_post [OF assms(1) this assms(2)]
  obtain r s where w: "readData e S buf want h = Some (r, s)"
    and p: "transfer_post (e_len e) Receiving (xfer_init e S buf want h) r s" by blast
  with assms(4) have [simp]: "r = NC_OK" "s = x" by auto
  with p assms(3) show "received_bytes (x_hist x) = received_bytes h @ mem_read (x_mem x) 0 (int n)"
    by (simp add: transfer_post_def result_ok_def xfer_init_def)
  from p assms(2) show "clock_fits (x_sock x)"
    by (auto simp: transfer_post_def xfer_init_def dest: clock_fits_frame)
qed

lemma send_all_sent:
  assumes "\<forall>n. write_env_ok \<lparr>e_os = K, e_cfg = c, e_len = n\<rparr>"
  shows "clock_fits S \<Longrightarrow> send_all K c S ms h = Some h' \<Longrightarrow> sent_bytes h' = sent_bytes h @ concat ms"
proof (induction ms arbitrary: S h)
  case (Cons m ms)
  from Cons.prems(2) obtain x where
    x: "writeData \<lparr>e_os = K, e_cfg = c, e_len = int (length m)\<rparr> S (mem_of m) True h = Some (NC_OK, x)"
      "send_all K c (x_sock x) ms (x_hist x) = Some h'"
    by (auto split: option.splits if_splits)
  from write_ok [OF assms [rule_format] Cons.prems(1) _ x(1)] Cons.IH [OF _ x(2)] show ?case by simp
qed simp

lemma recv_all_received:
  assumes "\<forall>n. read_env_ok \<lparr>e_os = K, e_cfg = c, e_len = n\<rparr>"
  shows "clock_fits S \<Longrightarrow> recv_all K c S ns h = Some (ds, h') \<Longrightarrow>
    received_bytes h' = received_bytes h @ concat ds \<and> map length ds = ns"
proof (induction ns arbitrary: S h ds)
  case (Cons n ns)
  from Cons.prems(2) obtain x es where
    x: "readData \<lparr>e_os = K, e_cfg = c, e_len = int n\<rparr> S (\<lambda>_. 0) True h = Some (NC_OK, x)"
      "recv_all K c (x_sock x) ns (x_hist x) = Some (es, h')"
      "ds = mem_read (x_mem x) 0 (int n) # es"
    by (auto split: option.splits if_splits)
  from read_ok [OF assms [rule_format] Cons.prems(1) _ x(1)] Cons.IH [OF _ x(2)] x(3)
  show ?case by simp
qed simp

section \<open>Properties\<close>

text \<open>
  C3: the round trip. If every write of one end and every read of the other returned \<open>NC_OK\<close>,
  the blocks that were read have the sizes asked for and, put together, are the beginning of the
  messages put together: no byte lost, doubled, reordered or invented, whatever way the kernels
  cut the stream. If as many bytes were asked for as were sent, they are all the bytes.
\<close>

theorem stream_round_trip:
  assumes "\<forall>n. write_env_ok \<lparr>e_os = K1, e_cfg = c1, e_len = n\<rparr>" "clock_fits S"
    and "\<forall>n. read_env_ok \<lparr>e_os = K2, e_cfg = c2, e_len = n\<rparr>" "clock_fits R"
    and "send_all K1 c1 S ms [] = Some hs" "recv_all K2 c2 R ns [] = Some (ds, hr)"
    and fifo: "prefix (received_bytes hr) (sent_bytes hs)"
  shows "map length ds = ns \<and> prefix (concat ds) (concat ms) \<and>
    (sum_list ns = length (concat ms) \<longrightarrow> concat ds = concat ms)"
proof -
  from recv_all_received [OF assms(3,4,6)] have r: "received_bytes hr = concat ds" "map length ds = ns"
    by simp_all
  from send_all_sent [OF assms(1,2,5)] have "sent_bytes hs = concat ms" by simp
  with r fifo have p: "prefix (concat ds) (concat ms)" by simp
  have "concat ds = concat ms" if "sum_list ns = length (concat ms)"
  proof -
    have "length (concat ds) = length (concat ms)" using that r(2) by (simp add: length_concat)
    with p show ?thesis by (auto simp: prefix_def)
  qed
  with p r(2) show ?thesis by blast
qed

text \<open>A connection for the witness: everything is taken at once, and a stream of seven-s comes.\<close>

definition bulk_os :: os where
  "bulk_os = ready_os\<lparr>os_send := \<lambda>h fd bs fl. int (length bs),
     os_recv := \<lambda>h fd n fl. (max 0 n, replicate (nat n) 7)\<rparr>"

lemma bulk_docs: "poll_doc bulk_os" "send_doc bulk_os" "recv_doc bulk_os"
  using ready_os_docs
  by (auto simp: bulk_os_def ready_os_def poll_doc_def send_doc_def recv_doc_def recv_result_def)

lemma bulk_envs:
  "\<forall>n. write_env_ok \<lparr>e_os = bulk_os, e_cfg = linux_config, e_len = n\<rparr>"
  "\<forall>n. read_env_ok \<lparr>e_os = bulk_os, e_cfg = win32_config, e_len = n\<rparr>"
  using bulk_docs
  by (simp_all add: write_env_ok_def read_env_ok_def poll_write_ok_def select_read_ok_def
      linux_config_def win32_config_def uses_select_def)

lemma bulk_send: "\<exists>hs. send_all bulk_os linux_config (ncSocket_of_fd linux_config 5) [[7, 7]] [] = Some hs"
  apply (simp add: writeData_def uses_select_def linux_config_def writeData_poll_def xfer_init_def)
  apply (subst run_loop.simps)
  apply (simp add: writeData_poll_body_def xguard_def k_poll_def bulk_os_def ready_os_def wait_for_def
    transmit_def k_send_def advance_def have_all_def clock_def checkTimeout_def ncSocket_of_fd_def
    POLLOUT_def POLLERR_def SOCKTYPE_TCPIP_def)
  done

definition plain_socket :: "ncSocket \<Rightarrow> bool" where
  "plain_socket S \<longleftrightarrow> m_socktype S = SOCKTYPE_TCPIP \<and> m_timeout S = 10000 \<and> m_polltime S = 100"

lemma bulk_read:
  assumes "plain_socket S" "0 < n"
  shows "\<exists>x. readData \<lparr>e_os = bulk_os, e_cfg = win32_config, e_len = int n\<rparr> S buf True h = Some (NC_OK, x) \<and>
    plain_socket (x_sock x) \<and> received_bytes (x_hist x) = received_bytes h @ replicate n 7"
proof -
  let ?e = "\<lparr>e_os = bulk_os, e_cfg = win32_config, e_len = int n\<rparr>"
  obtain s where s: "readData_select_body ?e (xfer_init ?e S buf True h) = Inl s"
    "x_ret s = NC_OK" "x_rem s = 0" "plain_socket (x_sock s)"
    "received_bytes (x_hist s) = received_bytes h @ replicate n 7"
    using assms
    by (simp add: readData_select_body_def xfer_init_def xguard_def k_select_def bulk_os_def
        ready_os_def wait_for_def receive_def k_recv_def advance_def have_all_def clock_def
        checkTimeout_def ncSocketError_def plain_socket_def)
  have "readData_select_body ?e s = Inr (NC_OK, s)"
    using s by (simp add: readData_select_body_def xguard_def)
  with s have "readData ?e S buf True h = Some (NC_OK, s)"
    by (simp add: readData_def uses_select_def win32_config_def readData_select_def run_loop_again)
  with s show ?thesis by blast
qed

lemma bulk_recv: "\<exists>ds hr. recv_all bulk_os win32_config (ncSocket_of_fd win32_config 5) [1, 1] [] = Some (ds, hr) \<and>
    received_bytes hr = [7, 7]"
proof -
  have p: "plain_socket (ncSocket_of_fd win32_config 5)"
    by (simp add: plain_socket_def ncSocket_of_fd_def SOCKTYPE_TCPIP_def)
  obtain x where x: "readData \<lparr>e_os = bulk_os, e_cfg = win32_config, e_len = int 1\<rparr>
      (ncSocket_of_fd win32_config 5) (\<lambda>_. 0) True [] = Some (NC_OK, x)"
    "plain_socket (x_sock x)" "received_bytes (x_hist x) = [] @ replicate 1 7"
    using bulk_read [OF p, of 1 "\<lambda>_. 0" "[]"] by auto
  obtain y where "readData \<lparr>e_os = bulk_os, e_cfg = win32_config, e_len = int 1\<rparr>
      (x_sock x) (\<lambda>_. 0) True (x_hist x) = Some (NC_OK, y)"
    "received_bytes (x_hist y) = received_bytes (x_hist x) @ replicate 1 7"
    using bulk_read [OF x(2), of 1 "\<lambda>_. 0" "x_hist x"] by auto
  with x show ?thesis by simp
qed

theorem stream_round_trip_witness:
  "\<exists>hs ds hr. send_all bulk_os linux_config (ncSocket_of_fd linux_config 5) [[7, 7]] [] = Some hs \<and>
    recv_all bulk_os win32_config (ncSocket_of_fd win32_config 5) [1, 1] [] = Some (ds, hr) \<and>
    map length ds = [1, 1] \<and> prefix (concat ds) (concat [[7, 7]]) \<and>
    (sum_list [1, 1] = length (concat [[7, 7 :: byte]]) \<longrightarrow> concat ds = concat [[7, 7]])"
proof -
  let ?S = "ncSocket_of_fd linux_config 5" and ?R = "ncSocket_of_fd win32_config 5"
  obtain hs where s: "send_all bulk_os linux_config ?S [[7, 7]] [] = Some hs" using bulk_send by blast
  obtain ds hr where r: "recv_all bulk_os win32_config ?R [1, 1] [] = Some (ds, hr)"
    and got: "received_bytes hr = [7, 7]" using bulk_recv by blast
  have "sent_bytes hs = [7, 7]"
    using send_all_sent [OF bulk_envs(1) default_clock_fits s] by simp
  with got have "prefix (received_bytes hr) (sent_bytes hs)" by simp
  from stream_round_trip [OF bulk_envs(1) default_clock_fits bulk_envs(2) default_clock_fits s r this]
  have "map length ds = [1, 1] \<and> prefix (concat ds) (concat [[7, 7]]) \<and>
      (sum_list [1, 1] = length (concat [[7, 7 :: byte]]) \<longrightarrow> concat ds = concat [[7, 7]])" .
  with s r show ?thesis by (intro exI conjI) auto
qed

end
