(* ===== verification/Nc_Script.thy ===== *)
theory Nc_Script
  imports Nc_Sock_IO
begin

text \<open>
  The four transfer loops against a reference. A list of \<open>trip\<close>s says what the kernel answers on
  each trip round the loop: nothing to do, room or data for some bytes, a would-block error, a lost
  connection, another error, a failing wait. \<open>ref_run\<close> computes from that list, the length, the
  time out and the poll time what a transfer returns and how many bytes it moves. The locale
  \<open>scripted_loop\<close> states what one trip does; the loop equals \<open>ref_run\<close> by induction on the list,
  once for the four bodies, which are the interpretations.
\<close>

section \<open>Scripts\<close>

datatype trip = Quiet | Move nat | Again | Lost | Broken | WaitFails

fun wait_answer :: "trip \<Rightarrow> int" where
  "wait_answer Quiet = 0"
| "wait_answer WaitFails = -1"
| "wait_answer t = 1"

fun io_answer :: "trip \<Rightarrow> int \<Rightarrow> int" where
  "io_answer (Move k) n = min (int k) n"
| "io_answer t n = -1"

text \<open>
  What the kernel answers on the trip that starts when \<open>w\<close> waits have been made: first the wait,
  then the transfer and the error number it leaves behind.
\<close>

definition wait_plays :: "os \<Rightarrow> nat \<Rightarrow> trip \<Rightarrow> bool" where
  "wait_plays K w t \<longleftrightarrow> (\<forall>h. waits h = w \<longrightarrow>
     (\<forall>fd ev ms. os_poll K h fd ev ms = (wait_answer t, if wait_answer t = 1 then ev else 0)) \<and>
     (\<forall>d n fds s us. os_select K h d n fds s us =
        (wait_answer t, if wait_answer t = 1 then fds else [])))"

definition io_plays :: "os \<Rightarrow> config \<Rightarrow> nat \<Rightarrow> trip \<Rightarrow> bool" where
  "io_plays K c w t \<longleftrightarrow> (\<forall>h. waits h = Suc w \<longrightarrow>
     (\<forall>fd bs fl. os_send K h fd bs fl = io_answer t (int (length bs))) \<and>
     (\<forall>fd bs a. os_sendto K h fd bs a = io_answer t (int (length bs))) \<and>
     (\<forall>fd n fl. fst (os_recv K h fd n fl) = io_answer t n) \<and>
     (\<forall>fd n. fst (os_recvfrom K h fd n) = io_answer t n) \<and>
     ncSocketReset c (os_errno K h) = (t = Lost) \<and>
     ncIsBlockingError c (os_errno K h) = (t = Again))"

fun plays :: "os \<Rightarrow> config \<Rightarrow> nat \<Rightarrow> trip list \<Rightarrow> bool" where
  "plays K c w [] = True"
| "plays K c w (t # ts) = (wait_plays K w t \<and> io_plays K c w t \<and> plays K c (Suc w) ts)"

section \<open>The reference\<close>

text \<open>What a transfer returns when its time is used up and \<open>n\<close> bytes have been moved.\<close>

definition verdict :: "bool \<Rightarrow> nat \<Rightarrow> nat \<Rightarrow> retcode" where
  "verdict want len n =
     (if \<not> want \<or> n = 0 then NC_TIMEDOUT else if n = len then NC_OK else NC_MOREDATA)"

fun ref_run :: "nat \<Rightarrow> nat \<Rightarrow> bool \<Rightarrow> nat \<Rightarrow> trip list \<Rightarrow> nat \<Rightarrow> nat \<Rightarrow> (retcode \<times> nat) option" where
  "ref_run T p want len [] clk n = (if n = len then Some (NC_OK, n) else None)"
| "ref_run T p want len (t # ts) clk n =
     (if n = len then Some (NC_OK, n)
      else case t of
        WaitFails \<Rightarrow> Some (NC_FAILED, n)
      | Broken \<Rightarrow> Some (NC_FAILED, n)
      | Lost \<Rightarrow> Some (NC_CLIENTDISCONNECT, n)
      | _ \<Rightarrow> (let n = (case t of Move k \<Rightarrow> min len (n + k) | _ \<Rightarrow> n)
             in if T \<le> clk + p then Some (verdict want len n, n)
                else ref_run T p want len ts (clk + p) n))"

text \<open>
  The two versions differ on two kinds of trip: after a would-block error, or a transfer of no
  bytes (the end of the stream), the \<open>poll\<close> version waits again and the \<open>select\<close> version fails.
\<close>

fun seen_as :: "bool \<Rightarrow> trip \<Rightarrow> trip" where
  "seen_as sel Again = (if sel then Broken else Quiet)"
| "seen_as sel (Move 0) = (if sel then Broken else Quiet)"
| "seen_as sel t = t"

text \<open>What \<open>writeData\<close> with \<open>select\<close> does after a would-block error is another matter.\<close>

fun covered :: "bool \<Rightarrow> xdir \<Rightarrow> trip \<Rightarrow> bool" where
  "covered sel d t = (\<not> (sel \<and> d = Sending \<and> t = Again))"

section \<open>One trip\<close>

text \<open>\<open>moved_on e n s s'\<close>: \<open>n\<close> bytes were moved and the poll time was charged.\<close>

definition moved_on :: "xenv \<Rightarrow> int \<Rightarrow> xfer \<Rightarrow> xfer \<Rightarrow> bool" where
  "moved_on e n s s' \<longleftrightarrow>
     x_off s' = x_off s + n \<and> x_actual s' = map_option (\<lambda>a. a + n) (x_actual s) \<and>
     x_timeout s' = x_timeout s + m_polltime (x_sock s) \<and>
     (if m_timeout (x_sock s) \<le> x_timeout s'
      then x_timedout s' = 1 \<and>
           x_ret s' = (let v = have_all (x_actual s') (e_len e) (-1)
             in if v = -1 then NC_TIMEDOUT else if v = 0 then NC_MOREDATA else NC_OK)
      else x_timedout s' = x_timedout s \<and> x_ret s' = NC_OK \<and> x_rem s' = x_rem s - n)"

text \<open>\<open>after_trip e t s q\<close>: the result \<open>q\<close> of the body is what the trip \<open>t\<close> asks for.\<close>

fun after_trip :: "xenv \<Rightarrow> trip \<Rightarrow> xfer \<Rightarrow> xfer + (retcode \<times> xfer) \<Rightarrow> bool" where
  "after_trip e WaitFails s (Inr (r, s')) = (r = NC_FAILED \<and> x_off s' = x_off s)"
| "after_trip e Lost s (Inl s') = (x_rem s' = 0 \<and> x_ret s' = NC_CLIENTDISCONNECT \<and> x_off s' = x_off s)"
| "after_trip e Broken s (Inl s') = (x_rem s' = 0 \<and> x_ret s' = NC_FAILED \<and> x_off s' = x_off s)"
| "after_trip e Quiet s (Inl s') = moved_on e 0 s s'"
| "after_trip e (Move k) s (Inl s') = moved_on e (min (int k) (x_rem s)) s s'"
| "after_trip e t s q = False"

lemma moved_on_clock:
  assumes "x_off s1 = x_off s + n" "x_rem s1 = x_rem s - n" "x_timeout s1 = x_timeout s"
    "x_timedout s1 = x_timedout s" "x_actual s1 = map_option (\<lambda>a. a + n) (x_actual s)"
    "m_timeout (x_sock s1) = m_timeout (x_sock s)" "m_polltime (x_sock s1) = m_polltime (x_sock s)"
  shows "moved_on e n s (clock (have_all (x_actual s1) (e_len e) (-1)) s1)"
    and "x_ret (clock (have_all (x_actual s1) (e_len e) (-1)) s1) \<noteq> NC_OK \<Longrightarrow>
      moved_on e n s ((clock (have_all (x_actual s1) (e_len e) (-1)) s1)\<lparr>x_rem := 0\<rparr>)"
  using assms by (auto simp: moved_on_def clock_ret)

lemma transmit_plays:
  assumes "io_plays (e_os e) c w t" "waits h = Suc w" "transmit e S bs h = (n, h')"
  shows "n = io_answer t (int (length bs))" "waits h' = Suc w"
    "ncSocketReset c (os_errno (e_os e) h') = (t = Lost)"
    "ncIsBlockingError c (os_errno (e_os e) h') = (t = Again)"
proof -
  show w: "waits h' = Suc w" using waits_transmit [OF assms(3)] assms(2) by simp
  show "n = io_answer t (int (length bs))"
    using assms by (auto simp: transmit_def nc_os io_plays_def Let_def split: if_splits)
  show "ncSocketReset c (os_errno (e_os e) h') = (t = Lost)"
    "ncIsBlockingError c (os_errno (e_os e) h') = (t = Again)"
    using assms(1) w by (simp_all add: io_plays_def)
qed

lemma receive_plays:
  assumes "io_plays (e_os e) c w t" "waits h = Suc w" "receive e S k h = (n, bs, S', h')"
  shows "n = io_answer t k" "waits h' = Suc w"
    "ncSocketReset c (os_errno (e_os e) h') = (t = Lost)"
    "ncIsBlockingError c (os_errno (e_os e) h') = (t = Again)"
    "m_timeout S' = m_timeout S" "m_polltime S' = m_polltime S"
proof -
  show w: "waits h' = Suc w" using waits_receive [OF assms(3)] assms(2) by simp
  have f: "fst (os_recv (e_os e) h fd m fl) = io_answer t m"
    "fst (os_recvfrom (e_os e) h fd m) = io_answer t m" for fd m fl
    using assms(1,2) by (simp_all add: io_plays_def)
  show "n = io_answer t k"
    using assms(3) f by (auto simp: receive_def nc_os Let_def split: if_splits prod.splits) (metis fst_conv)+
  show "ncSocketReset c (os_errno (e_os e) h') = (t = Lost)"
    "ncIsBlockingError c (os_errno (e_os e) h') = (t = Again)"
    using assms(1) w by (simp_all add: io_plays_def)
  show "m_timeout S' = m_timeout S" "m_polltime S' = m_polltime S"
    using receive_sock [OF assms(3)] by auto
qed

lemma poll_answer:
  "wait_plays K w t \<Longrightarrow> waits h = w \<Longrightarrow>
    os_poll K h fd ev ms = (wait_answer t, if wait_answer t = 1 then ev else 0)"
  "wait_plays K w t \<Longrightarrow> waits h = w \<Longrightarrow>
    os_select K h d m fds sec us = (wait_answer t, if wait_answer t = 1 then fds else [])"
  by (simp_all add: wait_plays_def)

text \<open>What follows the call, in the \<open>poll\<close> and in the \<open>select\<close> versions.\<close>

definition same_counters :: "xfer \<Rightarrow> xfer \<Rightarrow> bool" where
  "same_counters s s' \<longleftrightarrow> x_off s' = x_off s \<and> x_rem s' = x_rem s \<and> x_timeout s' = x_timeout s \<and>
     x_timedout s' = x_timedout s \<and> x_actual s' = x_actual s \<and>
     m_timeout (x_sock s') = m_timeout (x_sock s) \<and> m_polltime (x_sock s') = m_polltime (x_sock s)"

lemma quiet_trip:
  assumes "same_counters s s'"
  shows "moved_on e 0 s (clock (have_all (x_actual s') (e_len e) (-1)) s')"
    and "x_ret (clock (have_all (x_actual s') (e_len e) (-1)) s') \<noteq> NC_OK \<Longrightarrow>
      moved_on e 0 s ((clock (have_all (x_actual s') (e_len e) (-1)) s')\<lparr>x_rem := 0\<rparr>)"
  using assms moved_on_clock [of s' s 0 e] by (simp_all add: same_counters_def map_option.identity)

lemma move_trip:
  assumes "same_counters s s'"
  shows "moved_on e n s (clock (have_all (x_actual (advance n s')) (e_len e) (-1)) (advance n s'))"
  by (rule moved_on_clock(1)) (use assms in \<open>simp_all add: same_counters_def\<close>)

lemma poll_tail_trip:
  assumes c: "same_counters s s'" and n: "n = io_answer t (x_rem s)" and pos: "0 < x_rem s"
    and t: "wait_answer t = 1"
  shows "after_trip e (seen_as False t) s
    (if n < 0
     then if t = Lost then Inl (give_up w NC_CLIENTDISCONNECT s')
       else if t = Again
       then (let s = clock (have_all (x_actual s') (e_len e) (-1)) s'
             in if x_ret s = NC_OK then Inl s else Inl (s\<lparr>x_rem := 0\<rparr>))
       else Inl (give_up w NC_FAILED s')
     else (let s = advance n s' in Inl (clock (have_all (x_actual s) (e_len e) (-1)) s)))"
proof (cases t)
  case (Move k)
  show ?thesis
  proof (cases k)
    case 0
    then show ?thesis using Move n pos move_trip [OF c, of e 0] by simp
  next
    case (Suc j)
    then have "0 < n" using Move n pos by simp
    then show ?thesis using Suc Move n move_trip [OF c, of e n] by (simp add: Let_def min_less_iff_disj)
  qed
qed (use t n c quiet_trip [OF c, of e] in \<open>auto simp: Let_def same_counters_def\<close>)

lemma select_tail_trip:
  assumes c: "same_counters s s'" and n: "n = io_answer t (x_rem s)" and pos: "0 < x_rem s"
    and t: "wait_answer t = 1" and go: "go \<longleftrightarrow> 0 < n"
  shows "after_trip e (seen_as True t) s
    (if ncSocketError n \<and> t = Lost then Inl (give_up w NC_CLIENTDISCONNECT s')
     else if go
     then (let s = advance n s' in Inl (clock (have_all (x_actual s) (e_len e) (-1)) s))
     else Inl (give_up w NC_FAILED s'))"
proof (cases t)
  case (Move k)
  show ?thesis
  proof (cases k)
    case 0
    then show ?thesis using Move n pos go c by (simp add: ncSocketError_def same_counters_def)
  next
    case (Suc j)
    then have "0 < n" using Move n pos by simp
    then show ?thesis using Suc Move n go move_trip [OF c, of e n]
      by (simp add: Let_def ncSocketError_def min_less_iff_disj)
  qed
qed (use t n c go in \<open>auto simp: Let_def same_counters_def ncSocketError_def\<close>)

lemma writeData_poll_trip:
  assumes w: "wait_plays (e_os e) (waits (x_hist s)) t"
    and io: "io_plays (e_os e) (e_cfg e) (waits (x_hist s)) t" and g: "xguard s"
  shows "after_trip e (seen_as False t) s (writeData_poll_body e s)"
proof -
  let ?rv = "if wait_answer t = 1 then POLLOUT else 0"
  define s1 where "s1 = wait_for (PollFd (m_sockfd (x_sock s)) POLLOUT ?rv)
    (SysPoll (m_sockfd (x_sock s)) POLLOUT (sint (m_polltime (x_sock s))) (wait_answer t) ?rv # x_hist s) s"
  obtain n h where t: "transmit e (x_sock s) (mem_read (x_mem s1) (x_off s1) (x_rem s1)) (x_hist s1) = (n, h)"
    by fastforce
  have s1: "same_counters s s1" "waits (x_hist s1) = Suc (waits (x_hist s))" "0 < x_rem s" "x_rem s1 = x_rem s"
    using g by (simp_all add: s1_def wait_for_def same_counters_def xguard_def)
  note io = transmit_plays [OF io s1(2) t]
  note b = writeData_poll_body_def [of e s] poll_answer(1) [OF w refl]
  let ?s2 = "s1\<lparr>x_hist := h\<rparr>"
  show ?thesis
  proof (cases "wait_answer t = 1")
    case True
    have c: "same_counters s ?s2" using s1(1) by (simp add: same_counters_def)
    have n: "n = io_answer t (x_rem s)" using io(1) s1(3,4) by simp
    have "writeData_poll_body e s = (if n < 0
        then if t = Lost then Inl (give_up NCSD_SEND NC_CLIENTDISCONNECT ?s2)
          else if t = Again
          then (let s = clock (have_all (x_actual ?s2) (e_len e) (-1)) ?s2
                in if x_ret s = NC_OK then Inl s else Inl (s\<lparr>x_rem := 0\<rparr>))
          else Inl (give_up NCSD_SEND NC_FAILED ?s2)
        else (let s = advance n ?s2 in Inl (clock (have_all (x_actual s) (e_len e) (-1)) s)))"
      using g t True poll_bits io(3,4)
      by (auto simp: b nc_os Let_def s1_def wait_for_def )
    with poll_tail_trip [OF c n s1(3) True] show ?thesis by simp
  next
    case False
    then show ?thesis
      using g quiet_trip(1) [OF s1(1), of e] s1(1)
      by (cases t) (auto simp: b nc_os Let_def s1_def wait_for_def same_counters_def)
  qed
qed

lemma readData_poll_trip:
  assumes w: "wait_plays (e_os e) (waits (x_hist s)) t"
    and io: "io_plays (e_os e) (e_cfg e) (waits (x_hist s)) t" and g: "xguard s"
  shows "after_trip e (seen_as False t) s (readData_poll_body e s)"
proof -
  let ?rv = "if wait_answer t = 1 then POLLIN else 0"
  define s1 where "s1 = wait_for (PollFd (m_sockfd (x_sock s)) POLLIN ?rv)
    (SysPoll (m_sockfd (x_sock s)) POLLIN (sint (m_polltime (x_sock s))) (wait_answer t) ?rv # x_hist s) s"
  obtain n bs S h where t: "receive e (x_sock s1) (x_rem s1) (x_hist s1) = (n, bs, S, h)"
    by (metis prod_cases4)
  have s1: "same_counters s s1" "waits (x_hist s1) = Suc (waits (x_hist s))" "0 < x_rem s" "x_rem s1 = x_rem s"
    using g by (simp_all add: s1_def wait_for_def same_counters_def xguard_def)
  note io = receive_plays [OF io s1(2) t]
  note b = readData_poll_body_def [of e s] poll_answer(1) [OF w refl]
  let ?s2 = "s1\<lparr>x_sock := S, x_hist := h, x_mem := mem_write (x_mem s1) (x_off s1) bs\<rparr>"
  show ?thesis
  proof (cases "wait_answer t = 1")
    case True
    have c: "same_counters s ?s2" using s1(1) by (simp add: same_counters_def io(5,6))
    have n: "n = io_answer t (x_rem s)" using io(1) s1(4) by simp
    have "readData_poll_body e s = (if n < 0
        then if t = Lost then Inl (give_up NCSD_READ NC_CLIENTDISCONNECT ?s2)
          else if t = Again
          then (let s = clock (have_all (x_actual ?s2) (e_len e) (-1)) ?s2
                in if x_ret s = NC_OK then Inl s else Inl (s\<lparr>x_rem := 0\<rparr>))
          else Inl (give_up NCSD_READ NC_FAILED ?s2)
        else (let s = advance n ?s2 in Inl (clock (have_all (x_actual s) (e_len e) (-1)) s)))"
      using g t True poll_bits io(3,4)
      by (auto simp: b nc_os Let_def s1_def wait_for_def )
    with poll_tail_trip [OF c n s1(3) True] show ?thesis by simp
  next
    case False
    then show ?thesis
      using g quiet_trip(1) [OF s1(1), of e] s1(1)
      by (cases t) (auto simp: b nc_os Let_def s1_def wait_for_def same_counters_def)
  qed
qed

lemma writeData_select_trip:
  assumes w: "wait_plays (e_os e) (waits (x_hist s)) t"
    and io: "io_plays (e_os e) (e_cfg e) (waits (x_hist s)) t" and g: "xguard s"
    and ok: "t \<noteq> Again"
  shows "after_trip e (seen_as True t) s (writeData_select_body e s)"
proof -
  let ?rv = "if wait_answer t = 1 then [m_sockfd (x_sock s)] else []"
  define s1 where "s1 = wait_for (FdSet ?rv) (SysSelect WaitWrite [m_sockfd (x_sock s)]
    (timeoutSeconds (x_sock s)) (timeoutUSeconds (x_sock s)) (wait_answer t) ?rv # x_hist s) s"
  obtain n h where t: "transmit e (x_sock s) (mem_read (x_mem s1) (x_off s1) (x_rem s1)) (x_hist s1) = (n, h)"
    by fastforce
  have s1: "same_counters s s1" "waits (x_hist s1) = Suc (waits (x_hist s))" "0 < x_rem s" "x_rem s1 = x_rem s"
    using g by (simp_all add: s1_def wait_for_def same_counters_def xguard_def)
  note io = transmit_plays [OF io s1(2) t]
  note b = writeData_select_body_def [of e s] poll_answer(2) [OF w refl]
  let ?s2 = "s1\<lparr>x_hist := h\<rparr>"
  show ?thesis
  proof (cases "wait_answer t = 1")
    case True
    have c: "same_counters s ?s2" using s1(1) by (simp add: same_counters_def)
    have n: "n = io_answer t (x_rem s)" using io(1) s1(3,4) by simp
    have "writeData_select_body e s = (if ncSocketError n \<and> t = Lost then Inl (give_up NCSD_SEND NC_CLIENTDISCONNECT ?s2)
        else if 0 < n
        then (let s = advance n ?s2 in Inl (clock (have_all (x_actual s) (e_len e) (-1)) s))
        else Inl (give_up NCSD_SEND NC_FAILED ?s2))"
      using g t True io(3,4) ok
      by (auto simp: b nc_os Let_def s1_def wait_for_def ncSocketError_def)
    with select_tail_trip [OF c n s1(3) True, of "0 < n"] show ?thesis by simp
  next
    case False
    then show ?thesis
      using g quiet_trip(1) [OF s1(1), of e] s1(1)
      by (cases t) (auto simp: b nc_os Let_def s1_def wait_for_def same_counters_def)
  qed
qed

lemma readData_select_trip:
  assumes w: "wait_plays (e_os e) (waits (x_hist s)) t"
    and io: "io_plays (e_os e) (e_cfg e) (waits (x_hist s)) t" and g: "xguard s"
  shows "after_trip e (seen_as True t) s (readData_select_body e s)"
proof -
  let ?rv = "if wait_answer t = 1 then [m_sockfd (x_sock s)] else []"
  define s1 where "s1 = wait_for (FdSet ?rv) (SysSelect WaitRead [m_sockfd (x_sock s)]
    (timeoutSeconds (x_sock s)) (timeoutUSeconds (x_sock s)) (wait_answer t) ?rv # x_hist s) s"
  obtain n bs S h where t: "receive e (x_sock s1) (x_rem s1) (x_hist s1) = (n, bs, S, h)"
    by (metis prod_cases4)
  have s1: "same_counters s s1" "waits (x_hist s1) = Suc (waits (x_hist s))" "0 < x_rem s" "x_rem s1 = x_rem s"
    using g by (simp_all add: s1_def wait_for_def same_counters_def xguard_def)
  note io = receive_plays [OF io s1(2) t]
  note b = readData_select_body_def [of e s] poll_answer(2) [OF w refl]
  let ?s2 = "s1\<lparr>x_sock := S, x_hist := h, x_mem := mem_write (x_mem s1) (x_off s1) bs\<rparr>"
  show ?thesis
  proof (cases "wait_answer t = 1")
    case True
    have c: "same_counters s ?s2" using s1(1) by (simp add: same_counters_def io(5,6))
    have n: "n = io_answer t (x_rem s)" using io(1) s1(4) by simp
    then have ok: "t = Again \<Longrightarrow> n = -1" by simp
    have "readData_select_body e s = (if ncSocketError n \<and> t = Lost then Inl (give_up NCSD_READ NC_CLIENTDISCONNECT ?s2)
        else if 0 < n
        then (let s = advance n ?s2 in Inl (clock (have_all (x_actual s) (e_len e) (-1)) s))
        else Inl (give_up NCSD_READ NC_FAILED ?s2))"
      using g t True io(3,4) ok
      by (auto simp: b nc_os Let_def s1_def wait_for_def ncSocketError_def)
    with select_tail_trip [OF c n s1(3) True, of "0 < n"] show ?thesis by simp
  next
    case False
    then show ?thesis
      using g quiet_trip(1) [OF s1(1), of e] s1(1)
      by (cases t) (auto simp: b nc_os Let_def s1_def wait_for_def same_counters_def)
  qed
qed

section \<open>The loop is the reference\<close>

text \<open>The state before a trip: \<open>clk\<close> milliseconds charged, \<open>n\<close> bytes moved, no verdict yet.\<close>

definition at_mark :: "xenv \<Rightarrow> xfer \<Rightarrow> nat \<Rightarrow> nat \<Rightarrow> bool" where
  "at_mark e s clk n \<longleftrightarrow>
     x_ret s = NC_OK \<and> x_timedout s = 0 \<and> x_off s = int n \<and> x_rem s = e_len e - int n \<and>
     int n \<le> e_len e \<and> unat (x_timeout s) = clk \<and>
     (x_timeout s < m_timeout (x_sock s) \<or> x_timeout s = 0) \<and>
     (x_actual s = None \<or> x_actual s = Some (int n)) \<and> clock_fits (x_sock s)"

lemma verdict_code:
  assumes "a = None \<or> a = Some (int m)" "int m \<le> len"
  shows "(let v = have_all a len (-1) in if v = -1 then NC_TIMEDOUT else if v = 0 then NC_MOREDATA else NC_OK)
    = verdict (a \<noteq> None) (nat len) m"
  using assms by (cases "m = 0"; cases a) (auto simp: have_all_def verdict_def)

lemma moved_on_mark:
  assumes m: "at_mark e s clk n" and j: "int n + int j \<le> e_len e"
    and mv: "moved_on e (int j) s s'" and fr: "frame s s'"
  defines "T \<equiv> unat (m_timeout (x_sock s))" and "p \<equiv> unat (m_polltime (x_sock s))"
  shows "T \<le> clk + p \<Longrightarrow> \<not> xguard s' \<and>
      x_ret s' = verdict (x_actual s \<noteq> None) (nat (e_len e)) (n + j)"
    and "\<not> T \<le> clk + p \<Longrightarrow> at_mark e s' (clk + p) (n + j)"
    and "x_off s' = int (n + j)"
proof -
  have t: "unat (x_timeout s') = clk + p"
    using m mv word_add_no_wrap [of "m_timeout (x_sock s)" "m_polltime (x_sock s)" "x_timeout s"]
    by (simp add: at_mark_def moved_on_def clock_fits_def p_def)
  then have le: "m_timeout (x_sock s) \<le> x_timeout s' \<longleftrightarrow> T \<le> clk + p"
    by (simp add: word_le_nat_alt T_def)
  have a: "x_actual s' = None \<and> x_actual s = None \<or>
      x_actual s' = Some (int (n + j)) \<and> x_actual s \<noteq> None"
    using m mv by (auto simp: at_mark_def moved_on_def)
  show "\<not> xguard s' \<and> x_ret s' = verdict (x_actual s \<noteq> None) (nat (e_len e)) (n + j)"
    if "T \<le> clk + p"
    using that a mv le j verdict_code [of "x_actual s'" "n + j" "e_len e"]
    by (auto simp: moved_on_def xguard_def)
  show "at_mark e s' (clk + p) (n + j)" if "\<not> T \<le> clk + p"
    using that a mv le j m t frame_fields(1,2) [OF fr]
    by (auto simp: moved_on_def at_mark_def clock_fits_def)
  show "x_off s' = int (n + j)" using m mv by (simp add: moved_on_def at_mark_def)
qed

locale scripted_loop = clocked_loop body clock_ok for body clock_ok +
  fixes sel :: bool and dir :: xdir
  assumes trip: "wait_plays (e_os e) (waits (x_hist s)) t \<Longrightarrow>
      io_plays (e_os e) (e_cfg e) (waits (x_hist s)) t \<Longrightarrow> xguard s \<Longrightarrow> covered sel dir t \<Longrightarrow>
      after_trip e (seen_as sel t) s (body e s)"
begin

lemma run_ref:
  assumes "at_mark e s clk n" "want = (x_actual s \<noteq> None)" "plays (e_os e) (e_cfg e) (waits (x_hist s)) ts"
    and "list_all (covered sel dir) ts"
    and "ref_run (unat (m_timeout (x_sock s))) (unat (m_polltime (x_sock s))) want
      (nat (e_len e)) (map (seen_as sel) ts) clk n = Some (r, m)"
  shows "\<exists>s'. run_loop (body e) s = Some (r, s') \<and> x_off s' = int m"
  using assms
proof (induction ts arbitrary: s clk n)
  case Nil
  then have "r = x_ret s" "x_off s = int m" "\<not> xguard s"
    by (auto simp: at_mark_def xguard_def split: if_splits)
  with leaves show ?case by auto
next
  case (Cons t ts)
  show ?case
  proof (cases "n = nat (e_len e)")
    case True
    with Cons.prems have "r = x_ret s" "x_off s = int m" "\<not> xguard s"
      by (auto simp: at_mark_def xguard_def)
    with leaves show ?thesis by auto
  next
    case False
    let ?t = "seen_as sel t" and ?len = "nat (e_len e)"
    let ?T = "unat (m_timeout (x_sock s))" and ?p = "unat (m_polltime (x_sock s))"
    have g: "xguard s" using Cons.prems(1) False by (auto simp: at_mark_def xguard_def)
    have after: "after_trip e ?t s (body e s)" by (rule trip) (use Cons.prems g in simp_all)
    have going: ?thesis if b: "body e s = Inl s'" and mv: "moved_on e (int j) s s'"
      and j: "int n + int j \<le> e_len e"
      and ref: "(if ?T \<le> clk + ?p then Some (verdict want ?len (n + j), n + j)
        else ref_run ?T ?p want ?len (map (seen_as sel) ts) (clk + ?p) (n + j)) = Some (r, m)"
      for s' j
    proof -
      note mark = moved_on_mark [OF Cons.prems(1) j mv keeps [OF b]]
      show ?thesis
      proof (cases "?T \<le> clk + ?p")
        case True
        with mark(1,3) ref leaves [of s' e] Cons.prems(2) show ?thesis
          by (auto simp: run_loop_again [of "body e" s, OF b])
      next
        case False
        have w: "waits (x_hist s') = Suc (waits (x_hist s))" by (rule waits_again [OF g b])
        have a: "want = (x_actual s' \<noteq> None)" using mv Cons.prems(2) by (simp add: moved_on_def)
        from Cons.IH [OF mark(2) [OF False] a] Cons.prems(3,4) ref False w
          frame_fields(1,2) [OF keeps [OF b]] show ?thesis
          by (simp add: run_loop_again [of "body e" s, OF b])
      qed
    qed
    have ended: ?thesis if b: "body e s = Inl s'" and "x_rem s' = 0" "x_ret s' = r" "x_off s' = x_off s"
      "m = n" for s'
      using that leaves [of s' e] Cons.prems(1)
      by (auto simp: run_loop_again [of "body e" s, OF b] xguard_def at_mark_def)
    have len: "0 \<le> e_len e" "x_rem s = e_len e - int n" "int n \<le> e_len e" "x_off s = int n"
      using Cons.prems(1) by (auto simp: at_mark_def)
    show ?thesis
    proof (cases "body e s")
      case (Inl s')
      show ?thesis
      proof (cases ?t)
        case Quiet
        then show ?thesis
          using going [OF Inl, of 0, unfolded add_0_right] after Inl len Cons.prems(5) False by (simp add: Let_def)
      next
        case (Move k)
        define j where "j = min ?len (n + k) - n"
        have "int j = min (int k) (x_rem s)" "min ?len (n + k) = n + j"
          using len False by (auto simp: j_def)
        then show ?thesis
          using going [OF Inl, of j] after Inl Move len Cons.prems(5) False by (simp add: Let_def)
      qed (use ended [OF Inl] after Inl Cons.prems(5) False in simp_all)
    next
      case (Inr q)
      then show ?thesis
        using after Cons.prems(5) False len by (cases ?t; cases q) auto
    qed
  qed
qed

text \<open>A call from the start.\<close>

lemma call_ref:
  assumes "plays (e_os e) (e_cfg e) (waits h) ts" "list_all (covered sel dir) ts"
    and "0 \<le> e_len e" "clock_fits S"
    and "ref_run (unat (m_timeout S)) (unat (m_polltime S)) want (nat (e_len e)) (map (seen_as sel) ts) 0 0
      = Some (r, n)"
  shows "\<exists>s. run_loop (body e) (xfer_init e S buf want h) = Some (r, s) \<and> x_off s = int n"
  by (rule run_ref [of e "xfer_init e S buf want h" 0 0 want ts])
    (use assms in \<open>simp_all add: at_mark_def xfer_init_def\<close>)

end

interpretation wpoll_script: scripted_loop writeData_poll_body poll_clock_ok False Sending
  by unfold_locales (rule writeData_poll_trip)

interpretation rpoll_script: scripted_loop readData_poll_body poll_clock_ok False Receiving
  by unfold_locales (rule readData_poll_trip)

interpretation wselect_script: scripted_loop writeData_select_body "\<lambda>_. True" True Sending
  by unfold_locales (rule writeData_select_trip, auto)

interpretation rselect_script: scripted_loop readData_select_body "\<lambda>_. True" True Receiving
  by unfold_locales (rule readData_select_trip)

end
