(* ===== verification/Nc_Reference.thy ===== *)
theory Nc_Reference
  imports Nc_Script
begin

text \<open>
  \<open>writeData\<close> and \<open>readData\<close> against the reference \<open>ref_run\<close> of \<open>Nc_Script\<close>: every call is the
  reference, the \<open>poll\<close> and the \<open>select\<close> version agree where they should, a transfer the peer takes
  part in completes, and the clock charges calls rather than time. \<open>script_os\<close> is a kernel that
  follows a given script.
\<close>

section \<open>Both methods, both versions\<close>

text \<open>The reference applied to the settings of an object.\<close>

definition reference :: "xenv \<Rightarrow> ncSocket \<Rightarrow> bool \<Rightarrow> trip list \<Rightarrow> (retcode \<times> nat) option" where
  "reference e S want ts =
     ref_run (unat (m_timeout S)) (unat (m_polltime S)) want (nat (e_len e))
       (map (seen_as (uses_select (e_cfg e))) ts) 0 0"

text \<open>A call with the script \<open>ts\<close> ahead of it, in an environment where the clock does not wrap.\<close>

definition scripted :: "xdir \<Rightarrow> xenv \<Rightarrow> ncSocket \<Rightarrow> hist \<Rightarrow> trip list \<Rightarrow> bool" where
  "scripted d e S h ts \<longleftrightarrow> plays (e_os e) (e_cfg e) (waits h) ts \<and>
     list_all (covered (uses_select (e_cfg e)) d) ts \<and> 0 \<le> e_len e \<and> clock_fits S"

lemma transfer_ref:
  assumes "scripted d e S h ts" "reference e S want ts = Some (r, n)"
  shows "\<exists>s. do_transfer d e S buf want h = Some (r, s) \<and> x_off s = int n"
  using assms wpoll_script.call_ref [of e h ts S want r n buf] rpoll_script.call_ref [of e h ts S want r n buf]
    wselect_script.call_ref [of e h ts S want r n buf] rselect_script.call_ref [of e h ts S want r n buf]
  by (cases d; cases "uses_select (e_cfg e)") (auto simp: scripted_def reference_def io_defs)

text \<open>A script that is at least as long as the time out has a result.\<close>

definition long_enough :: "ncSocket \<Rightarrow> trip list \<Rightarrow> bool" where
  "long_enough S ts \<longleftrightarrow> ts \<noteq> [] \<and> unat (m_timeout S) \<le> length ts * unat (m_polltime S)"

lemma ref_run_total:
  "ts \<noteq> [] \<Longrightarrow> T \<le> clk + length ts * p \<Longrightarrow> \<exists>r m. ref_run T p want len ts clk n = Some (r, m)"
proof (induction ts arbitrary: clk n)
  case (Cons t ts)
  have more: "\<exists>r m. ref_run T p want len ts (clk + p) k = Some (r, m)" if "\<not> T \<le> clk + p" for k
    by (rule Cons.IH) (use that Cons.prems in \<open>auto simp: algebra_simps\<close>)
  show ?case using more by (cases t) (simp_all add: Let_def)
qed simp

lemma reference_total:
  "long_enough S ts \<Longrightarrow> \<exists>r m. reference e S want ts = Some (r, m)"
  unfolding reference_def by (rule ref_run_total) (simp_all add: long_enough_def)

text \<open>The trips both versions take the same way, and those that go on.\<close>

fun agreed :: "trip \<Rightarrow> bool" where
  "agreed Again = False"
| "agreed (Move k) = (0 < k)"
| "agreed t = True"

fun going_on :: "trip \<Rightarrow> bool" where
  "going_on Quiet = True"
| "going_on (Move k) = (0 < k)"
| "going_on t = False"

fun trip_bytes :: "trip \<Rightarrow> nat" where
  "trip_bytes (Move k) = k"
| "trip_bytes t = 0"

lemma agreed_seen: "list_all agreed ts \<Longrightarrow> map (seen_as sel) ts = ts"
proof (induction ts)
  case (Cons t ts)
  then show ?case by (cases "(sel, t)" rule: seen_as.cases) auto
qed simp

lemma going_on_agreed: "list_all going_on ts \<Longrightarrow> list_all agreed ts"
  by (induction ts) (auto elim!: going_on.elims)

lemma ref_run_completes:
  "list_all going_on ts \<Longrightarrow> n \<le> len \<Longrightarrow> len \<le> n + sum_list (map trip_bytes ts) \<Longrightarrow>
    clk + length ts * p < T \<Longrightarrow> ref_run T p want len ts clk n = Some (NC_OK, len)"
proof (induction ts arbitrary: clk n)
  case (Cons t ts)
  have step: "ref_run T p want len ts (clk + p) k = Some (NC_OK, len)"
    if "k \<le> len" "len \<le> k + sum_list (map trip_bytes ts)" for k
    by (rule Cons.IH) (use that Cons.prems in \<open>auto simp: algebra_simps\<close>)
  have "\<not> T \<le> clk + p" using Cons.prems(4) by simp
  with Cons.prems step [of n] step [of "min len (n + trip_bytes t)"] show ?case
    by (cases t) (auto simp: Let_def)
qed simp

lemma ref_run_byte_by_byte:
  "clk + m * p < T \<Longrightarrow> T \<le> clk + Suc m * p \<Longrightarrow> n + Suc m < len \<Longrightarrow>
    ref_run T p want len (replicate (Suc m) (Move 1)) clk n =
      Some (if want then NC_MOREDATA else NC_TIMEDOUT, n + Suc m)"
proof (induction m arbitrary: clk n)
  case 0
  then show ?case by (simp add: verdict_def)
next
  case (Suc m)
  have "ref_run T p want len (replicate (Suc m) (Move 1)) (clk + p) (Suc n) =
      Some (if want then NC_MOREDATA else NC_TIMEDOUT, Suc n + Suc m)"
    by (rule Suc.IH) (use Suc.prems in \<open>simp_all add: algebra_simps\<close>)
  with Suc.prems show ?case by (simp add: Let_def min_def)
qed

section \<open>A kernel that follows a script\<close>

definition script_at :: "trip list \<Rightarrow> nat \<Rightarrow> trip" where
  "script_at ts i = (if i < length ts then ts ! i else WaitFails)"

definition script_errno :: "config \<Rightarrow> trip \<Rightarrow> oserr" where
  "script_errno c t =
     (case t of Lost \<Rightarrow> if cfg_platform c = Win32 then WSAECONNRESET else EPIPE
      | Again \<Rightarrow> if cfg_platform c = Win32 then WSAEWOULDBLOCK else EAGAIN
      | _ \<Rightarrow> EBADF)"

definition script_os :: "config \<Rightarrow> trip list \<Rightarrow> os" where
  "script_os c ts = dead_os
     \<lparr>os_errno := \<lambda>h. script_errno c (script_at ts (waits h - 1)),
      os_poll := \<lambda>h fd ev ms. (let a = wait_answer (script_at ts (waits h)) in (a, if a = 1 then ev else 0)),
      os_select := \<lambda>h d n fds s us.
        (let a = wait_answer (script_at ts (waits h)) in (a, if a = 1 then fds else [])),
      os_send := \<lambda>h fd bs fl. io_answer (script_at ts (waits h - 1)) (int (length bs)),
      os_sendto := \<lambda>h fd bs a. io_answer (script_at ts (waits h - 1)) (int (length bs)),
      os_recv := \<lambda>h fd n fl. (let r = io_answer (script_at ts (waits h - 1)) n in (r, replicate (nat r) 7)),
      os_recvfrom := \<lambda>h fd n.
        (let r = io_answer (script_at ts (waits h - 1)) n in (r, replicate (nat r) 7, zero_sockaddr))\<rparr>"

lemma script_os_plays: "plays (script_os c (us @ ts)) c (length us) ts"
proof (induction ts arbitrary: us)
  case (Cons t ts)
  have at: "script_at (us @ t # ts) (length us) = t" by (simp add: script_at_def)
  then have "wait_plays (script_os c (us @ t # ts)) (length us) t"
    by (simp add: wait_plays_def script_os_def Let_def)
  moreover have "io_plays (script_os c (us @ t # ts)) c (length us) t"
    using at by (cases t)
      (simp_all add: io_plays_def script_os_def Let_def script_errno_def ncSocketReset_def
        ncIsBlockingError_def)
  ultimately show ?case using Cons.IH [of "us @ [t]"] by simp
qed simp

definition script_env :: "config \<Rightarrow> int \<Rightarrow> trip list \<Rightarrow> xenv" where
  "script_env c n ts = \<lparr>e_os = script_os c ts, e_cfg = c, e_len = n\<rparr>"

lemma script_env_scripted:
  assumes "list_all (covered (uses_select c) d) ts" "0 \<le> n" "clock_fits S"
  shows "scripted d (script_env c n ts) S [] ts"
  using assms script_os_plays [of c "[]" ts] by (simp add: scripted_def script_env_def)

lemma concrete_select: "uses_select linux_config = False" "uses_select win32_config = True"
  by (simp_all add: uses_select_def linux_config_def win32_config_def)

section \<open>Properties\<close>

text \<open>
  C8: every transfer is the reference. Whatever the kernel answers, as long as it is written down
  as a script of trips at least as long as the time out, \<open>writeData\<close> and \<open>readData\<close> return, in
  either version, with the return code and the number of bytes \<open>ref_run\<close> computes from the
  script, the length, the time out and the poll time.
\<close>

theorem transfer_reference:
  assumes "scripted d e S h ts" "long_enough S ts"
  shows "\<exists>r n s. reference e S want ts = Some (r, n) \<and>
    do_transfer d e S buf want h = Some (r, s) \<and> x_off s = int n"
  using reference_total [OF assms(2)] transfer_ref [OF assms(1)] by blast

text \<open>Five bytes arrive, a would-block error, two more bytes, then silence.\<close>

theorem transfer_reference_witness:
  "\<exists>r n s. reference (script_env linux_config 9 [Move 5, Again, Move 2, Quiet])
      (setTimeout 400 (ncSocket_of_fd linux_config 4)) True [Move 5, Again, Move 2, Quiet] = Some (r, n) \<and>
    do_transfer Receiving (script_env linux_config 9 [Move 5, Again, Move 2, Quiet])
      (setTimeout 400 (ncSocket_of_fd linux_config 4)) (\<lambda>_. 0) True [] = Some (r, s) \<and> x_off s = int n"
  by (rule transfer_reference [OF script_env_scripted])
    (simp_all add: concrete_select clock_fits_def long_enough_def setTimeout_def ncSocket_of_fd_def)

text \<open>
  C9: the \<open>poll\<close> version and the \<open>select\<close> version agree, on any platforms and in either
  direction: with the same settings and the same answers of the kernel they return the same code
  after the same number of bytes, unless a would-block error or a transfer of no bytes occurs.
\<close>

theorem versions_agree:
  assumes "scripted d1 e1 S1 h1 ts" "scripted d2 e2 S2 h2 ts" "list_all agreed ts"
    and "e_len e1 = e_len e2" "m_timeout S1 = m_timeout S2" "m_polltime S1 = m_polltime S2"
    and "long_enough S1 ts"
  shows "\<exists>r s1 s2. do_transfer d1 e1 S1 b1 want h1 = Some (r, s1) \<and>
    do_transfer d2 e2 S2 b2 want h2 = Some (r, s2) \<and> x_off s1 = x_off s2"
proof -
  obtain r n where ref: "reference e1 S1 want ts = Some (r, n)"
    using reference_total [OF assms(7)] by blast
  then have "reference e2 S2 want ts = Some (r, n)"
    by (simp add: reference_def agreed_seen [OF assms(3)] assms(4,5,6))
  from transfer_ref [OF assms(1) ref] transfer_ref [OF assms(2) this] show ?thesis by fastforce
qed

theorem versions_agree_witness:
  "\<exists>r s1 s2. do_transfer Sending (script_env linux_config 9 [Move 5, Quiet, Lost])
      (setTimeout 300 (ncSocket_of_fd linux_config 4)) (\<lambda>_. 1) True [] = Some (r, s1) \<and>
    do_transfer Receiving (script_env win32_config 9 [Move 5, Quiet, Lost])
      (setTimeout 300 (ncSocket_of_fd win32_config 6)) (\<lambda>_. 2) True [] = Some (r, s2) \<and>
    x_off s1 = x_off s2"
  by (rule versions_agree [OF script_env_scripted script_env_scripted])
    (simp_all add: concrete_select clock_fits_def long_enough_def setTimeout_def ncSocket_of_fd_def
      script_env_def)

text \<open>
  C25: a transfer the peer takes part in completes: if the kernel takes or delivers at least as many
  bytes as the length during a number of trips whose poll times add up to less than the time out,
  the call returns \<open>NC_OK\<close> and has moved all of them, in either version.
\<close>

theorem transfer_completes:
  assumes "scripted d e S h ts" "list_all going_on ts"
    and "e_len e \<le> int (sum_list (map trip_bytes ts))"
    and "length ts * unat (m_polltime S) < unat (m_timeout S)"
  shows "\<exists>s. do_transfer d e S buf want h = Some (NC_OK, s) \<and> x_off s = e_len e"
proof -
  have "reference e S want ts = Some (NC_OK, nat (e_len e))"
    unfolding reference_def agreed_seen [OF going_on_agreed [OF assms(2)]]
    by (rule ref_run_completes) (use assms(2,3,4) in \<open>simp_all add: nat_le_iff\<close>)
  from transfer_ref [OF assms(1) this] assms(1) show ?thesis by (auto simp: scripted_def)
qed

theorem transfer_completes_witness:
  "\<exists>s. do_transfer Sending (script_env win32_config 9 [Move 5, Quiet, Move 1, Move 3])
      (setTimeout 500 (ncSocket_of_fd win32_config 4)) (\<lambda>_. 1) False [] = Some (NC_OK, s) \<and>
    x_off s = e_len (script_env win32_config 9 [Move 5, Quiet, Move 1, Move 3])"
  by (rule transfer_completes [OF script_env_scripted])
    (simp_all add: concrete_select clock_fits_def setTimeout_def ncSocket_of_fd_def script_env_def)

text \<open>
  C28: the clock counts calls, not time: every successful call is charged the whole poll time, however
  quickly it was ready. A peer that takes or delivers one byte at a time without any delay is given
  up after \<open>T / p\<close> bytes, rounded up, with \<open>NC_MOREDATA\<close>, or with \<open>NC_TIMEDOUT\<close> when the
  caller did not ask for the number of bytes.
\<close>

theorem clock_counts_calls:
  assumes "scripted d e S h (replicate (Suc m) (Move 1))"
    and "m * unat (m_polltime S) < unat (m_timeout S)"
    and "unat (m_timeout S) \<le> Suc m * unat (m_polltime S)"
    and "int (Suc m) < e_len e"
  shows "\<exists>s. do_transfer d e S buf want h = Some (if want then NC_MOREDATA else NC_TIMEDOUT, s) \<and>
    x_off s = int (Suc m)"
proof (rule transfer_ref [OF assms(1)])
  have "list_all agreed (replicate (Suc m) (Move 1))" by (simp add: list_all_iff)
  then show "reference e S want (replicate (Suc m) (Move 1)) =
      Some (if want then NC_MOREDATA else NC_TIMEDOUT, Suc m)"
    unfolding reference_def
    using ref_run_byte_by_byte [of 0 m "unat (m_polltime S)" "unat (m_timeout S)" 0 "nat (e_len e)" want]
      assms(2,3,4) agreed_seen by simp
qed

theorem clock_counts_calls_witness:
  "\<exists>s. do_transfer Receiving (script_env linux_config 9 (replicate (Suc 2) (Move 1)))
      (setTimeout 300 (ncSocket_of_fd linux_config 4)) (\<lambda>_. 0) False [] =
      Some (if False then NC_MOREDATA else NC_TIMEDOUT, s) \<and> x_off s = int (Suc 2)"
  by (rule clock_counts_calls [OF script_env_scripted])
    (simp_all add: concrete_select clock_fits_def setTimeout_def ncSocket_of_fd_def script_env_def
      list_all_iff)

end
