(* ===== verification/Nc_Mutex.thy ===== *)
theory Nc_Mutex
  imports Nc_Platform
begin

text \<open>
  The class \<^verbatim>\<open>ncMutex\<close> of \<^verbatim>\<open>src/ncmutex.cpp\<close>: a lock of the platform together with a flag
  \<open>m_locked\<close> of its own. The platform's lock (\<open>pthread_mutex_t\<close> or \<open>CRITICAL_SECTION\<close>) is a
  parameter: a record of its operations on an abstract state. \<open>mutex_doc\<close> says what their
  documentation says, in terms of the owner and the nesting depth of the lock.

  Two locales state what the class offers its callers as long as one thread uses it at a time;
  \<open>mutex_class\<close> holds on both platforms, \<open>mutex_try_class\<close>, which adds that a refused
  \<open>trylock\<close> leaves the object consistent, on the POSIX platforms only.
\<close>

type_synonym tid = nat

record 'm mutex_api =
  mx_init :: 'm
  mx_lock :: "tid \<Rightarrow> 'm \<Rightarrow> 'm option"
  mx_trylock :: "tid \<Rightarrow> 'm \<Rightarrow> oserr option \<times> 'm"
  mx_unlock :: "tid \<Rightarrow> 'm \<Rightarrow> 'm"
  mx_owner :: "'m \<Rightarrow> tid option"
  mx_depth :: "'m \<Rightarrow> nat"

text \<open>
  \<open>mx_lock\<close> is \<open>None\<close> while the call blocks; \<open>mx_trylock\<close> gives \<open>None\<close> for success and
  \<open>EBUSY\<close> for a refusal (on Windows: non-zero and zero). A free lock can be taken; a taken one is
  taken again by its owner or not at all; each unlock takes back one lock.
\<close>

definition mutex_doc :: "'m mutex_api \<Rightarrow> bool" where
  "mutex_doc A \<longleftrightarrow>
     mx_owner A (mx_init A) = None \<and>
     (\<forall>m. mx_owner A m = None \<longleftrightarrow> mx_depth A m = 0) \<and>
     (\<forall>t m. mx_owner A m = None \<longrightarrow> mx_lock A t m \<noteq> None \<and> fst (mx_trylock A t m) = None) \<and>
     (\<forall>t m m'. mx_lock A t m = Some m' \<or> mx_trylock A t m = (None, m') \<longrightarrow>
        (mx_owner A m = None \<or> mx_owner A m = Some t) \<and> mx_owner A m' = Some t \<and>
        mx_depth A m' = Suc (mx_depth A m)) \<and>
     (\<forall>t m e m'. mx_trylock A t m = (Some e, m') \<longrightarrow> e = EBUSY \<and> mx_owner A m \<noteq> None \<and> m' = m) \<and>
     (\<forall>t m. mx_owner A m = Some t \<longrightarrow>
        mx_depth A (mx_unlock A t m) = mx_depth A m - 1 \<and>
        mx_owner A (mx_unlock A t m) = (if mx_depth A m = 1 then None else Some t))"

record 'm ncMutex =
  m_locked :: int
  m_mutex :: 'm

section \<open>The operations\<close>

definition ncMutex_init :: "'m mutex_api \<Rightarrow> 'm ncMutex" where
  "ncMutex_init A = \<lparr>m_locked = 0, m_mutex = mx_init A\<rparr>"

definition ncMutex_lock :: "'m mutex_api \<Rightarrow> tid \<Rightarrow> 'm ncMutex \<Rightarrow> 'm ncMutex option" where
  "ncMutex_lock A t M =
     map_option (\<lambda>m. \<lparr>m_locked = 1, m_mutex = m\<rparr>) (mx_lock A t (m_mutex M))"

definition ncMutex_trylock_posix :: "'m mutex_api \<Rightarrow> tid \<Rightarrow> 'm ncMutex \<Rightarrow> retcode \<times> 'm ncMutex" where
  "ncMutex_trylock_posix A t M =
     (let (e, m) = mx_trylock A t (m_mutex M)
      in if e \<noteq> Some EBUSY then (NC_OK, \<lparr>m_locked = 1, m_mutex = m\<rparr>)
         else (NC_FAILED, M\<lparr>m_mutex := m\<rparr>))"

definition ncMutex_trylock_win ::
    "config \<Rightarrow> 'm mutex_api \<Rightarrow> tid \<Rightarrow> 'm ncMutex \<Rightarrow> retcode \<times> 'm ncMutex" where
  "ncMutex_trylock_win c A t M =
     (if cfg_winnt4 c
      then (let (e, m) = mx_trylock A t (m_mutex M)
            in if e = None then (NC_OK, \<lparr>m_locked = 1, m_mutex = m\<rparr>)
               else (NC_FAILED, \<lparr>m_locked = 0, m_mutex = m\<rparr>))
      else (NC_NOTSUPPORTED, M))"

definition ncMutex_unlock :: "'m mutex_api \<Rightarrow> tid \<Rightarrow> 'm ncMutex \<Rightarrow> 'm ncMutex" where
  "ncMutex_unlock A t M = \<lparr>m_locked = 0, m_mutex = mx_unlock A t (m_mutex M)\<rparr>"

text \<open>The state of the platform's lock when the destructor gives it back.\<close>

definition ncMutex_destroy :: "'m mutex_api \<Rightarrow> tid \<Rightarrow> 'm ncMutex \<Rightarrow> 'm" where
  "ncMutex_destroy A t M =
     (if m_locked M \<noteq> 0 then m_mutex (ncMutex_unlock A t M) else m_mutex M)"

text \<open>The Windows versions of the same methods.\<close>

definition ncMutex_init_win :: "'m mutex_api \<Rightarrow> 'm ncMutex" where
  "ncMutex_init_win A = (let m = mx_init A in \<lparr>m_locked = 0, m_mutex = m\<rparr>)"

definition ncMutex_lock_win :: "'m mutex_api \<Rightarrow> tid \<Rightarrow> 'm ncMutex \<Rightarrow> 'm ncMutex option" where
  "ncMutex_lock_win A t M =
     (case mx_lock A t (m_mutex M) of
        None \<Rightarrow> None
      | Some m \<Rightarrow> Some (M\<lparr>m_mutex := m, m_locked := 1\<rparr>))"

definition ncMutex_unlock_win :: "'m mutex_api \<Rightarrow> tid \<Rightarrow> 'm ncMutex \<Rightarrow> 'm ncMutex" where
  "ncMutex_unlock_win A t M =
     M\<lparr>m_mutex := mx_unlock A t (m_mutex M), m_locked := of_bool False\<rparr>"

definition ncMutex_destroy_win :: "'m mutex_api \<Rightarrow> tid \<Rightarrow> 'm ncMutex \<Rightarrow> 'm" where
  "ncMutex_destroy_win A t M =
     m_mutex (if m_locked M \<noteq> 0 then ncMutex_unlock_win A t M else M)"

text \<open>Apart from \<open>trylock\<close> the two sets of methods do the same.\<close>

lemma win_same:
  "ncMutex_init_win A = ncMutex_init A" "ncMutex_lock_win A t M = ncMutex_lock A t M"
  "ncMutex_unlock_win A t M = ncMutex_unlock A t M" "ncMutex_destroy_win A t M = ncMutex_destroy A t M"
  by (simp_all add: ncMutex_init_win_def ncMutex_init_def ncMutex_lock_win_def ncMutex_lock_def
      ncMutex_unlock_win_def ncMutex_unlock_def ncMutex_destroy_win_def ncMutex_destroy_def
      split: option.split)

definition ncMutex_isLocked :: "'m ncMutex \<Rightarrow> int" where
  "ncMutex_isLocked M = m_locked M"

lemmas mutex_defs = ncMutex_init_def ncMutex_lock_def ncMutex_trylock_posix_def
  ncMutex_trylock_win_def ncMutex_unlock_def ncMutex_destroy_def ncMutex_isLocked_def

section \<open>What the documentation gives\<close>

lemma mutex_doc_takes:
  assumes "mutex_doc A" "mx_lock A t m = Some m' \<or> mx_trylock A t m = (None, m')"
  shows "mx_owner A m = None \<or> mx_owner A m = Some t" "mx_owner A m' = Some t"
    "mx_depth A m' = Suc (mx_depth A m)"
  using assms unfolding mutex_doc_def by metis+

lemma mutex_doc_refuses:
  assumes "mutex_doc A" "mx_trylock A t m = (Some e, m')"
  shows "e = EBUSY" "mx_owner A m \<noteq> None" "m' = m"
  using assms unfolding mutex_doc_def by metis+

lemma mutex_doc_unlocks:
  assumes "mutex_doc A" "mx_owner A m = Some t"
  shows "mx_depth A (mx_unlock A t m) = mx_depth A m - 1"
    "mx_owner A (mx_unlock A t m) = (if mx_depth A m = 1 then None else Some t)"
  using assms unfolding mutex_doc_def by metis+

lemma mutex_doc_free:
  assumes "mutex_doc A" "mx_owner A m = None"
  shows "mx_depth A m = 0" "\<exists>m'. mx_lock A t m = Some m'" "fst (mx_trylock A t m) = None"
  using assms unfolding mutex_doc_def by auto

lemma mutex_doc_init:
  assumes "mutex_doc A"
  shows "mx_owner A (mx_init A) = None" "mx_depth A (mx_init A) = 0"
  using assms unfolding mutex_doc_def by auto

section \<open>The interface of the class\<close>

text \<open>
  \<open>holds t\<close>: thread \<open>t\<close> has the lock, taken once. \<open>ok\<close>: the object is consistent, that is,
  its flag says whether some thread has the lock.
\<close>

locale mutex_class =
  fixes lock :: "tid \<Rightarrow> 'x \<Rightarrow> 'x option" and unlock :: "tid \<Rightarrow> 'x \<Rightarrow> 'x"
    and trylock :: "tid \<Rightarrow> 'x \<Rightarrow> retcode \<times> 'x" and is_locked :: "'x \<Rightarrow> int"
    and free :: "'x \<Rightarrow> bool" and holds :: "tid \<Rightarrow> 'x \<Rightarrow> bool" and ok :: "'x \<Rightarrow> bool"
  assumes flag: "ok x \<Longrightarrow> is_locked x = (if free x then 0 else 1)"
    and holds_not_free: "ok x \<Longrightarrow> holds t x \<Longrightarrow> \<not> free x"
    and holds_unique: "ok x \<Longrightarrow> holds t x \<Longrightarrow> holds u x \<Longrightarrow> t = u"
    and lock_free: "ok x \<Longrightarrow> free x \<Longrightarrow> \<exists>y. lock t x = Some y \<and> ok y \<and> holds t y"
    and lock_held: "ok x \<Longrightarrow> holds u x \<Longrightarrow> u \<noteq> t \<Longrightarrow> lock t x = None"
    and unlock_held: "ok x \<Longrightarrow> holds t x \<Longrightarrow> ok (unlock t x) \<and> free (unlock t x)"
    and trylock_free: "ok x \<Longrightarrow> free x \<Longrightarrow> trylock t x = (r, y) \<Longrightarrow> r \<noteq> NC_NOTSUPPORTED \<Longrightarrow>
      r = NC_OK \<and> ok y \<and> holds t y"
    and trylock_held: "ok x \<Longrightarrow> holds u x \<Longrightarrow> u \<noteq> t \<Longrightarrow> trylock t x = (r, y) \<Longrightarrow> r \<noteq> NC_OK"
begin

text \<open>Locking and unlocking a free mutex gives a free mutex, and the flag follows.\<close>

lemma lock_unlock:
  assumes "ok x" "free x"
  shows "\<exists>y. lock t x = Some y \<and> is_locked y = 1 \<and> ok (unlock t y) \<and> free (unlock t y) \<and>
    is_locked (unlock t y) = 0 \<and> (\<forall>u. u \<noteq> t \<longrightarrow> lock u y = None)"
proof -
  obtain y where y: "lock t x = Some y" "ok y" "holds t y"
    using lock_free [OF assms] by blast
  then show ?thesis
    using flag holds_not_free unlock_held lock_held by (intro exI [of _ y]) auto
qed

end

locale mutex_try_class = mutex_class +
  assumes trylock_refused: "ok x \<Longrightarrow> holds u x \<Longrightarrow> u \<noteq> t \<Longrightarrow> trylock t x = (NC_FAILED, y) \<Longrightarrow> ok y \<and> holds u y"
    and trylock_supported: "trylock t x = (r, y) \<Longrightarrow> r = NC_OK \<or> r = NC_FAILED"
begin

text \<open>\<open>trylock\<close> against another holder fails and the holder can still unlock.\<close>

lemma refused_unlock:
  assumes "ok x" "holds u x" "u \<noteq> t"
  shows "\<exists>y. trylock t x = (NC_FAILED, y) \<and> is_locked y = 1 \<and> ok (unlock u y) \<and> free (unlock u y)"
proof -
  obtain r y where y: "trylock t x = (r, y)" by force
  with trylock_held [OF assms y] trylock_supported have r: "r = NC_FAILED" by blast
  with trylock_refused [OF assms] y have "ok y" "holds u y" by auto
  then show ?thesis using y r flag holds_not_free unlock_held by (intro exI [of _ y]) auto
qed

end

section \<open>Both platforms provide it\<close>

definition mutex_free :: "'m mutex_api \<Rightarrow> 'm ncMutex \<Rightarrow> bool" where
  "mutex_free A M \<longleftrightarrow> mx_owner A (m_mutex M) = None"

definition mutex_holds :: "'m mutex_api \<Rightarrow> tid \<Rightarrow> 'm ncMutex \<Rightarrow> bool" where
  "mutex_holds A t M \<longleftrightarrow> mx_owner A (m_mutex M) = Some t \<and> mx_depth A (m_mutex M) = 1"

definition mutex_ok :: "'m mutex_api \<Rightarrow> 'm ncMutex \<Rightarrow> bool" where
  "mutex_ok A M \<longleftrightarrow> mutex_doc A \<and> m_locked M = (if mutex_free A M then 0 else 1)"

lemmas mutex_states = mutex_free_def mutex_holds_def mutex_ok_def

lemma mutex_class_common:
  assumes ok: "mutex_ok A M"
  shows "mutex_holds A t M \<Longrightarrow> \<not> mutex_free A M"
    and "mutex_free A M \<Longrightarrow> \<exists>N. ncMutex_lock A t M = Some N \<and> mutex_ok A N \<and> mutex_holds A t N"
    and "mutex_holds A u M \<Longrightarrow> u \<noteq> t \<Longrightarrow> ncMutex_lock A t M = None"
    and "mutex_holds A t M \<Longrightarrow> mutex_ok A (ncMutex_unlock A t M) \<and> mutex_free A (ncMutex_unlock A t M)"
proof -
  have doc: "mutex_doc A" using ok by (simp add: mutex_ok_def)
  show "mutex_holds A t M \<Longrightarrow> \<not> mutex_free A M" by (simp add: mutex_states)
  show "\<exists>N. ncMutex_lock A t M = Some N \<and> mutex_ok A N \<and> mutex_holds A t N" if fr: "mutex_free A M"
  proof -
    obtain m where m: "mx_lock A t (m_mutex M) = Some m"
      using mutex_doc_free(2) [OF doc, of "m_mutex M" t] fr by (auto simp: mutex_free_def)
    from mutex_doc_takes [OF doc disjI1 [OF m]] mutex_doc_free(1) [OF doc] fr doc show ?thesis
      by (auto simp: mutex_states ncMutex_lock_def m)
  qed
  show "ncMutex_lock A t M = None" if "mutex_holds A u M" "u \<noteq> t"
  proof (cases "mx_lock A t (m_mutex M)")
    case (Some m)
    from mutex_doc_takes(1) [OF doc disjI1 [OF Some]] that show ?thesis
      by (simp add: mutex_holds_def)
  qed (simp add: ncMutex_lock_def)
  show "mutex_ok A (ncMutex_unlock A t M) \<and> mutex_free A (ncMutex_unlock A t M)"
    if "mutex_holds A t M"
    using that mutex_doc_unlocks [OF doc, of "m_mutex M" t] doc
    by (simp add: mutex_states ncMutex_unlock_def)
qed

lemma trylock_cases:
  assumes doc: "mutex_doc A" and t: "mx_trylock A t m = (e, m')"
  shows "mx_owner A m = None \<Longrightarrow> e = None \<and> mx_owner A m' = Some t \<and> mx_depth A m' = 1"
    and "mx_owner A m = Some u \<Longrightarrow> u \<noteq> t \<Longrightarrow> e = Some EBUSY \<and> m' = m"
    and "e = None \<or> e = Some EBUSY"
proof -
  show "e = None \<and> mx_owner A m' = Some t \<and> mx_depth A m' = 1" if "mx_owner A m = None"
    using mutex_doc_free(1) [OF doc that] mutex_doc_free(3) [OF doc that, of t] t
      mutex_doc_takes [OF doc disjI2, of t m m'] by auto
  show "e = Some EBUSY \<and> m' = m" if "mx_owner A m = Some u" "u \<noteq> t"
    using that t mutex_doc_takes(1) [OF doc disjI2, of t m m'] mutex_doc_refuses [OF doc, of t m _ m']
    by (cases e) auto
  show "e = None \<or> e = Some EBUSY"
    using t mutex_doc_refuses(1) [OF doc, of t m _ m'] by (cases e) auto
qed

interpretation posix: mutex_try_class "ncMutex_lock A" "ncMutex_unlock A" "ncMutex_trylock_posix A"
  ncMutex_isLocked "mutex_free A" "mutex_holds A" "mutex_ok A" for A
proof
  fix t u :: tid and x y :: "'a ncMutex" and r
  assume ok: "mutex_ok A x"
  then have doc: "mutex_doc A" by (simp add: mutex_ok_def)
  show "ncMutex_isLocked x = (if mutex_free A x then 0 else 1)"
    using ok by (simp add: ncMutex_isLocked_def mutex_ok_def)
  show "t = u" if "mutex_holds A t x" "mutex_holds A u x" using that by (simp add: mutex_states)
  show "r = NC_OK \<and> mutex_ok A y \<and> mutex_holds A t y"
    if "mutex_free A x" "ncMutex_trylock_posix A t x = (r, y)"
    using that trylock_cases(1) [OF doc, of t "m_mutex x"] doc
    by (cases "mx_trylock A t (m_mutex x)") (auto simp: mutex_states ncMutex_trylock_posix_def)
  show "r \<noteq> NC_OK" if "mutex_holds A u x" "u \<noteq> t" "ncMutex_trylock_posix A t x = (r, y)"
    using that trylock_cases(2) [OF doc, of t "m_mutex x"]
    by (cases "mx_trylock A t (m_mutex x)") (auto simp: mutex_states ncMutex_trylock_posix_def)
  show "mutex_ok A y \<and> mutex_holds A u y"
    if "mutex_holds A u x" "u \<noteq> t" "ncMutex_trylock_posix A t x = (NC_FAILED, y)"
    using that ok trylock_cases(2) [OF doc, of t "m_mutex x"]
    by (cases "mx_trylock A t (m_mutex x)") (auto simp: mutex_states ncMutex_trylock_posix_def)
next
  fix t u :: tid and x y :: "'a ncMutex" and r
  show "r = NC_OK \<or> r = NC_FAILED" if "ncMutex_trylock_posix A t x = (r, y)"
    using that by (auto simp: ncMutex_trylock_posix_def Let_def split: if_splits prod.splits)
qed (use mutex_class_common in blast)+

interpretation win: mutex_class "ncMutex_lock_win A" "ncMutex_unlock_win A" "ncMutex_trylock_win c A"
  ncMutex_isLocked "mutex_free A" "mutex_holds A" "mutex_ok A" for c A
proof
  fix t u :: tid and x y :: "'a ncMutex" and r
  assume ok: "mutex_ok A x"
  then have doc: "mutex_doc A" by (simp add: mutex_ok_def)
  show "ncMutex_isLocked x = (if mutex_free A x then 0 else 1)"
    using ok by (simp add: ncMutex_isLocked_def mutex_ok_def)
  show "t = u" if "mutex_holds A t x" "mutex_holds A u x" using that by (simp add: mutex_states)
  show "r = NC_OK \<and> mutex_ok A y \<and> mutex_holds A t y"
    if "mutex_free A x" "ncMutex_trylock_win c A t x = (r, y)" "r \<noteq> NC_NOTSUPPORTED"
    using that trylock_cases(1) [OF doc, of t "m_mutex x"] doc
    by (cases "mx_trylock A t (m_mutex x)")
      (auto simp: mutex_states ncMutex_trylock_win_def split: if_splits)
  show "r \<noteq> NC_OK" if "mutex_holds A u x" "u \<noteq> t" "ncMutex_trylock_win c A t x = (r, y)"
    using that trylock_cases(2) [OF doc, of t "m_mutex x"]
    by (cases "mx_trylock A t (m_mutex x)")
      (auto simp: mutex_states ncMutex_trylock_win_def split: if_splits)
qed (use mutex_class_common [folded win_same] in blast)+

section \<open>A concrete lock\<close>

text \<open>A lock that is its owner; taking it again blocks.\<close>

definition owner_lock :: "tid option mutex_api" where
  "owner_lock =
     \<lparr>mx_init = None,
      mx_lock = \<lambda>t m. if m = None then Some (Some t) else None,
      mx_trylock = \<lambda>t m. if m = None then (None, Some t) else (Some EBUSY, m),
      mx_unlock = \<lambda>t m. None,
      mx_owner = \<lambda>m. m,
      mx_depth = \<lambda>m. if m = None then 0 else 1\<rparr>"

lemma owner_lock_doc: "mutex_doc owner_lock"
  by (auto simp: mutex_doc_def owner_lock_def split: if_splits)

section \<open>Properties\<close>

text \<open>
  On a consistent object whose lock is free, \<open>lock\<close> succeeds, \<open>isLocked\<close> is then 1 and every
  other thread blocks; \<open>unlock\<close> and the destructor both leave the lock free, and after
  \<open>unlock\<close> the object is consistent again with \<open>isLocked\<close> 0.
\<close>

lemma lock_cycle:
  assumes "mutex_ok A M" "mutex_free A M"
  shows "\<exists>N. ncMutex_lock A t M = Some N \<and> ncMutex_isLocked N = 1 \<and>
    (\<forall>u. u \<noteq> t \<longrightarrow> ncMutex_lock A u N = None) \<and>
    mutex_ok A (ncMutex_unlock A t N) \<and> mutex_free A (ncMutex_unlock A t N) \<and>
    ncMutex_isLocked (ncMutex_unlock A t N) = 0 \<and> mx_owner A (ncMutex_destroy A t N) = None"
  using posix.lock_unlock [OF assms, of t]
  by (auto simp: ncMutex_destroy_def mutex_free_def ncMutex_isLocked_def)

text \<open>
  On the POSIX platforms a \<open>trylock\<close> against another holder returns \<open>NC_FAILED\<close>, the flag
  stays 1, and the holder can unlock as if nothing had happened.
\<close>

lemma trylock_posix_refused:
  assumes "mutex_ok A M" "mutex_holds A u M" "u \<noteq> t"
  shows "\<exists>N. ncMutex_trylock_posix A t M = (NC_FAILED, N) \<and> ncMutex_isLocked N = 1 \<and>
    mutex_ok A (ncMutex_unlock A u N) \<and> mutex_free A (ncMutex_unlock A u N)"
  by (rule posix.refused_unlock [OF assms])

text \<open>
  On Windows the refused \<open>trylock\<close> of one thread clears the flag while another thread has the
  lock; from then on \<open>isLocked\<close> says 0, and the destructor, run by the holder, does not give
  the lock back.
\<close>

lemma trylock_win_clears_flag:
  assumes "mutex_ok A M" "mutex_holds A u M" "u \<noteq> t" "cfg_winnt4 c"
  shows "\<exists>N. ncMutex_trylock_win c A t M = (NC_FAILED, N) \<and> mutex_holds A u N \<and>
    ncMutex_isLocked M = 1 \<and> ncMutex_isLocked N = 0 \<and>
    mx_owner A (ncMutex_destroy_win A u M) = None \<and> mx_owner A (ncMutex_destroy_win A u N) = Some u"
proof -
  have doc: "mutex_doc A" and own: "mx_owner A (m_mutex M) = Some u" and one: "m_locked M = 1"
    using assms(1,2) by (auto simp: mutex_states)
  obtain e m where t: "mx_trylock A t (m_mutex M) = (e, m)" by force
  have e: "e = Some EBUSY" "m = m_mutex M" using trylock_cases(2) [OF doc t own assms(3)] by simp_all
  have "mutex_free A (ncMutex_unlock A u M)" using posix.unlock_held [OF assms(1,2)] by simp
  then show ?thesis
    using assms(2,4) own one t e
    by (simp add: ncMutex_trylock_win_def ncMutex_isLocked_def win_same ncMutex_destroy_def mutex_holds_def
        mutex_free_def)
qed

text \<open>
  The POSIX \<open>trylock\<close> takes every answer but \<open>EBUSY\<close> for success: if the platform's call
  fails for another reason, the caller is told \<open>NC_OK\<close> and the flag is set although nothing
  was locked.
\<close>

lemma trylock_posix_other_error:
  assumes "mx_trylock A t (m_mutex M) = (Some e, m)" "e \<noteq> EBUSY"
  shows "\<exists>N. ncMutex_trylock_posix A t M = (NC_OK, N) \<and> ncMutex_isLocked N = 1 \<and> m_mutex N = m"
  using assms by (simp add: ncMutex_trylock_posix_def ncMutex_isLocked_def)

end
