(* ===== verification/Nc_Mutex_Race.thy ===== *)
theory Nc_Mutex_Race
  imports Nc_Mutex
begin

text \<open>
  One \<^verbatim>\<open>ncMutex\<close> of \<^verbatim>\<open>src/ncmutex.cpp\<close> shared by any number of threads. The methods are not
  atomic: each is a call of the platform's lock and a separate assignment to \<open>m_locked\<close>. A step
  is one of these by one thread; the program counter of a thread says what it does next. The
  lock excludes other threads (\<open>mutual_exclusion\<close>), but the flag, which is written after the
  lock has been given back, does not keep up (\<open>flag_lost\<close>).
\<close>

section \<open>The step relation\<close>

text \<open>
  \<open>Taken\<close>: has the lock, about to set the flag. \<open>Inside\<close>: between lock and unlock.
  \<open>Released\<close>: has given the lock back, about to clear the flag. \<open>Refused\<close>: a Windows
  \<open>trylock\<close> that failed, about to clear the flag.
\<close>

datatype pc = Idle | Taken | Inside | Released | Refused

record 'm mstate =
  obj :: "'m ncMutex"
  pcs :: "tid \<Rightarrow> pc"

definition mstate_init :: "'m mutex_api \<Rightarrow> 'm mstate" where
  "mstate_init A = \<lparr>obj = ncMutex_init A, pcs = (\<lambda>_. Idle)\<rparr>"

definition set_pc :: "tid \<Rightarrow> pc \<Rightarrow> 'm mstate \<Rightarrow> 'm mstate" where
  "set_pc t p s = s\<lparr>pcs := (pcs s)(t := p)\<rparr>"

definition set_lock :: "'m \<Rightarrow> 'm mstate \<Rightarrow> 'm mstate" where
  "set_lock m s = s\<lparr>obj := (obj s)\<lparr>m_mutex := m\<rparr>\<rparr>"

definition set_flag :: "int \<Rightarrow> 'm mstate \<Rightarrow> 'm mstate" where
  "set_flag v s = s\<lparr>obj := (obj s)\<lparr>m_locked := v\<rparr>\<rparr>"

inductive mstep :: "config \<Rightarrow> 'm mutex_api \<Rightarrow> 'm mstate \<Rightarrow> 'm mstate \<Rightarrow> bool" for c A where
  Lock: "pcs s t = Idle \<Longrightarrow> mx_lock A t (m_mutex (obj s)) = Some m \<Longrightarrow>
     mstep c A s (set_pc t Taken (set_lock m s))"
| TryLock: "pcs s t = Idle \<Longrightarrow> mx_trylock A t (m_mutex (obj s)) = (None, m) \<Longrightarrow>
     cfg_platform c \<noteq> Win32 \<or> cfg_winnt4 c \<Longrightarrow>
     mstep c A s (set_pc t Taken (set_lock m s))"
| TryFail: "pcs s t = Idle \<Longrightarrow> mx_trylock A t (m_mutex (obj s)) = (Some e, m) \<Longrightarrow>
     cfg_platform c = Win32 \<Longrightarrow> cfg_winnt4 c \<Longrightarrow>
     mstep c A s (set_pc t Refused (set_lock m s))"
| SetFlag: "pcs s t = Taken \<Longrightarrow> mstep c A s (set_pc t Inside (set_flag 1 s))"
| Unlock: "pcs s t = Inside \<Longrightarrow>
     mstep c A s (set_pc t Released (set_lock (mx_unlock A t (m_mutex (obj s))) s))"
| ClearFlag: "pcs s t = Released \<or> pcs s t = Refused \<Longrightarrow>
     mstep c A s (set_pc t Idle (set_flag 0 s))"

inductive mreach :: "config \<Rightarrow> 'm mutex_api \<Rightarrow> 'm mstate \<Rightarrow> bool" for c A where
  Start: "mreach c A (mstate_init A)"
| Step: "mreach c A s \<Longrightarrow> mstep c A s s' \<Longrightarrow> mreach c A s'"

text \<open>
  The methods of \<open>Nc_Mutex\<close> are the runs of these steps by one thread alone: \<open>lock\<close> is
  \<open>Lock\<close> and \<open>SetFlag\<close>, \<open>unlock\<close> is \<open>Unlock\<close> and \<open>ClearFlag\<close>.
\<close>

inductive_cases mstep_cases: "mstep c A s s'"
inductive_simps mreach_simps: "mreach c A s"

lemma state_simps [simp]:
  "pcs (set_pc t p s) = (pcs s)(t := p)" "obj (set_pc t p s) = obj s"
  "pcs (set_lock m s) = pcs s" "pcs (set_flag v s) = pcs s"
  "m_mutex (obj (set_lock m s)) = m" "m_locked (obj (set_lock m s)) = m_locked (obj s)"
  "m_mutex (obj (set_flag v s)) = m_mutex (obj s)" "m_locked (obj (set_flag v s)) = v"
  by (simp_all add: set_pc_def set_lock_def set_flag_def)

section \<open>The invariant\<close>

text \<open>
  The lock's owner is the thread that is \<open>Taken\<close> or \<open>Inside\<close>, at depth 1. A flag of 1 means
  that some thread is \<open>Inside\<close> or has just left; any other value is 0.
\<close>

definition inside :: "pc \<Rightarrow> bool" where
  "inside p \<longleftrightarrow> p = Taken \<or> p = Inside"

definition marked :: "(tid \<Rightarrow> pc) \<Rightarrow> bool" where
  "marked P \<longleftrightarrow> (\<exists>t. P t = Inside \<or> P t = Released)"

definition minv :: "'m mutex_api \<Rightarrow> 'm mstate \<Rightarrow> bool" where
  "minv A s \<longleftrightarrow>
     (\<forall>t. inside (pcs s t) \<longleftrightarrow> mx_owner A (m_mutex (obj s)) = Some t) \<and>
     mx_depth A (m_mutex (obj s)) \<le> 1 \<and>
     (m_locked (obj s) = 0 \<or> m_locked (obj s) = 1 \<and> marked (pcs s))"

lemma inside_simps [simp]:
  "inside Taken" "inside Inside" "\<not> inside Idle" "\<not> inside Released" "\<not> inside Refused"
  by (simp_all add: inside_def)

lemma marked_other: "marked P \<Longrightarrow> P t \<noteq> Inside \<Longrightarrow> P t \<noteq> Released \<Longrightarrow> marked (P(t := p))"
  unfolding marked_def by (metis fun_upd_other)

lemma marked_self: "p = Inside \<or> p = Released \<Longrightarrow> marked (P(t := p))"
  unfolding marked_def by (metis fun_upd_same)

lemma minv_init: "mutex_doc A \<Longrightarrow> minv A (mstate_init A)"
  using mutex_doc_init [of A] by (simp add: minv_def mstate_init_def ncMutex_init_def)

lemma minv_take:
  assumes doc: "mutex_doc A" and inv: "minv A s" and idle: "pcs s t = Idle"
    and m: "mx_lock A t (m_mutex (obj s)) = Some m \<or> mx_trylock A t (m_mutex (obj s)) = (None, m)"
  shows "minv A (set_pc t Taken (set_lock m s))"
proof -
  note new = mutex_doc_takes [OF doc m]
  have "mx_owner A (m_mutex (obj s)) \<noteq> Some t"
    using inv idle unfolding minv_def by (metis inside_simps(3))
  with new(1) have none: "mx_owner A (m_mutex (obj s)) = None" by simp
  then have "\<forall>u. \<not> inside (pcs s u)" using inv by (simp add: minv_def)
  moreover have "mx_depth A m = 1" using new(3) mutex_doc_free(1) [OF doc none] by simp
  ultimately show ?thesis
    using inv new(2) idle marked_other [of "pcs s" t Taken] by (auto simp: minv_def)
qed

lemma minv_step:
  assumes doc: "mutex_doc A" and inv: "minv A s" and st: "mstep c A s s'"
  shows "minv A s'"
  using st
proof (cases rule: mstep.cases)
  case (Lock t m)
  then show ?thesis using minv_take [OF doc inv] by blast
next
  case (TryLock t m)
  then show ?thesis using minv_take [OF doc inv] by blast
next
  case (TryFail t e m)
  have "mx_owner A (m_mutex (obj s)) \<noteq> Some t"
    using inv TryFail(2) unfolding minv_def by (metis inside_simps(3))
  moreover have "m = m_mutex (obj s)" by (rule mutex_doc_refuses(3) [OF doc TryFail(3)])
  moreover have "marked (pcs s) \<Longrightarrow> marked ((pcs s)(t := Refused))"
    using TryFail(2) by (simp add: marked_other)
  ultimately show ?thesis using inv unfolding TryFail(1) minv_def by auto
next
  case (SetFlag t)
  have "mx_owner A (m_mutex (obj s)) = Some t"
    using inv SetFlag(2) unfolding minv_def by (metis inside_simps(1))
  with inv SetFlag show ?thesis by (auto simp: minv_def marked_self)
next
  case (Unlock t)
  have own: "mx_owner A (m_mutex (obj s)) = Some t"
    using inv Unlock(2) unfolding minv_def by (metis inside_simps(2))
  have others: "u = t" if "inside (pcs s u)" for u using inv own that by (simp add: minv_def)
  have "mx_depth A (m_mutex (obj s)) \<noteq> 0"
    using doc own unfolding mutex_doc_def by (metis option.distinct(1))
  with inv have "mx_depth A (m_mutex (obj s)) = 1" by (simp add: minv_def)
  with mutex_doc_unlocks [OF doc own] inv Unlock others show ?thesis
    by (auto simp: minv_def marked_self)
next
  case (ClearFlag t)
  have "mx_owner A (m_mutex (obj s)) \<noteq> Some t"
    using inv ClearFlag(2) unfolding minv_def by (metis inside_simps(4,5))
  with inv ClearFlag show ?thesis by (auto simp: minv_def)
qed

lemma mreach_minv:
  assumes "mutex_doc A" "mreach c A s"
  shows "minv A s"
  using assms(2) by (induction) (use assms(1) minv_init minv_step in blast)+

section \<open>The abstract lock\<close>

text \<open>
  What a mutex promises its users: there is a holder or none; a free lock may be taken by some
  thread, and a held one given back by its holder, nothing else. \<open>holder\<close> abstracts a state.
\<close>

inductive lock_spec :: "tid option \<Rightarrow> tid option \<Rightarrow> bool" where
  Acquire: "lock_spec None (Some t)"
| Release: "lock_spec (Some t) None"
| Stay: "lock_spec x x"

definition holder :: "'m mutex_api \<Rightarrow> 'm mstate \<Rightarrow> tid option" where
  "holder A s = mx_owner A (m_mutex (obj s))"

lemma holder_take:
  assumes doc: "mutex_doc A" and inv: "minv A s" and idle: "pcs s t = Idle"
    and m: "mx_lock A t (m_mutex (obj s)) = Some m \<or> mx_trylock A t (m_mutex (obj s)) = (None, m)"
  shows "holder A s = None \<and> mx_owner A m = Some t"
proof -
  have "mx_owner A (m_mutex (obj s)) \<noteq> Some t"
    using inv idle unfolding minv_def by (metis inside_simps(3))
  with mutex_doc_takes [OF doc m] show ?thesis by (auto simp: holder_def)
qed

lemma holder_unlock:
  assumes doc: "mutex_doc A" and inv: "minv A s" and pc: "pcs s t = Inside"
  shows "holder A s = Some t \<and> mx_owner A (mx_unlock A t (m_mutex (obj s))) = None"
proof -
  have own: "mx_owner A (m_mutex (obj s)) = Some t"
    using inv pc unfolding minv_def by (metis inside_simps(2))
  have "mx_depth A (m_mutex (obj s)) \<noteq> 0"
    using doc own unfolding mutex_doc_def by (metis option.distinct(1))
  with inv have "mx_depth A (m_mutex (obj s)) = 1" by (simp add: minv_def)
  with own mutex_doc_unlocks [OF doc own] show ?thesis by (simp add: holder_def)
qed

lemma mstep_refines:
  assumes doc: "mutex_doc A" and inv: "minv A s" and st: "mstep c A s s'"
  shows "lock_spec (holder A s) (holder A s')"
  using st
proof (cases rule: mstep.cases)
  case (Lock t m)
  with holder_take [OF doc inv, of t m] show ?thesis by (auto simp: holder_def intro: lock_spec.Acquire)
next
  case (TryLock t m)
  with holder_take [OF doc inv, of t m] show ?thesis by (auto simp: holder_def intro: lock_spec.Acquire)
next
  case (TryFail t e m)
  with mutex_doc_refuses(3) [OF doc TryFail(3)] show ?thesis
    by (simp add: holder_def lock_spec.Stay)
next
  case (Unlock t)
  with holder_unlock [OF doc inv, of t] show ?thesis by (auto simp: holder_def intro: lock_spec.Release)
qed (simp_all add: holder_def lock_spec.Stay)

section \<open>Properties\<close>

text \<open>
  C10: at any moment at most one thread is between a successful \<open>lock\<close> or \<open>trylock\<close> and its
  \<open>unlock\<close>.
\<close>

theorem mutual_exclusion:
  assumes "mutex_doc A" "mreach c A s" "inside (pcs s t)" "inside (pcs s u)"
  shows "t = u"
  using mreach_minv [OF assms(1,2)] assms(3,4) by (simp add: minv_def)

theorem mutual_exclusion_witness:
  "\<exists>s. mreach linux_config owner_lock s \<and> inside (pcs s 3) \<and> (\<forall>u. inside (pcs s u) \<longrightarrow> 3 = u)"
proof -
  let ?s = "set_pc 3 Taken (set_lock (Some 3) (mstate_init owner_lock))"
  have r: "mreach linux_config owner_lock ?s"
    by (rule mreach.Step [OF mreach.Start], rule mstep.Lock)
      (simp_all add: mstate_init_def ncMutex_init_def owner_lock_def)
  have i: "inside (pcs ?s 3)" by simp
  from mutual_exclusion [OF owner_lock_doc r i] r i show ?thesis by blast
qed

text \<open>
  What \<open>isLocked\<close> can be relied on for: it returns 0 or 1, if it returns 1 then some
  thread is inside or in the middle of unlocking, and when every thread is out of the object it
  returns 0 and the lock is free.
\<close>

lemma is_locked_sound:
  assumes "mutex_doc A" "mreach c A s"
  shows "ncMutex_isLocked (obj s) \<in> {0, 1} \<and>
    (ncMutex_isLocked (obj s) = 1 \<longrightarrow> (\<exists>t. pcs s t = Inside \<or> pcs s t = Released)) \<and>
    ((\<forall>t. pcs s t = Idle) \<longrightarrow> ncMutex_isLocked (obj s) = 0 \<and> mutex_free A (obj s))"
proof -
  have inv: "minv A s" by (rule mreach_minv [OF assms])
  have "mutex_free A (obj s)" if "\<forall>t. pcs s t = Idle"
    using inv that unfolding minv_def mutex_free_def
    by (metis inside_simps(3) option.exhaust)
  with inv show ?thesis
    by (auto simp: minv_def marked_def ncMutex_isLocked_def)
qed

text \<open>
  C40: the flag is cleared after the lock has been given back, so it can be lost: whatever the
  lock, two threads can reach a state in which the second is inside, the first has finished, and
  \<open>isLocked\<close> returns 0.
\<close>

theorem flag_lost:
  assumes doc: "mutex_doc A" and "t \<noteq> u"
  shows "\<exists>s. mreach c A s \<and> pcs s u = Inside \<and> pcs s t = Idle \<and> ncMutex_isLocked (obj s) = 0"
proof -
  note reach = mreach.Step and init = mutex_doc_init(1) [OF doc]
  let ?s0 = "mstate_init A"
  have m0: "m_mutex (obj ?s0) = mx_init A" "pcs ?s0 = (\<lambda>_. Idle)"
    by (simp_all add: mstate_init_def ncMutex_init_def)
  obtain m1 where l1: "mx_lock A t (mx_init A) = Some m1"
    using mutex_doc_free(2) [OF doc init] by blast
  let ?s2 = "set_pc t Inside (set_flag 1 (set_pc t Taken (set_lock m1 ?s0)))"
  have "mreach c A (set_pc t Taken (set_lock m1 ?s0))"
    by (rule reach [OF mreach.Start mstep.Lock]) (simp_all add: m0 l1)
  then have r2: "mreach c A ?s2" by (rule reach [OF _ mstep.SetFlag]) simp
  let ?m2 = "mx_unlock A t m1"
  have "mx_owner A m1 = Some t" "mx_depth A m1 = 1"
    using mutex_doc_takes [OF doc disjI1 [OF l1]] mutex_doc_init(2) [OF doc] by simp_all
  then have free: "mx_owner A ?m2 = None" using mutex_doc_unlocks [OF doc] by simp
  then obtain m3 where l3: "mx_lock A u ?m2 = Some m3" using mutex_doc_free(2) [OF doc] by blast
  let ?s3 = "set_pc t Released (set_lock ?m2 ?s2)"
  have "mstep c A ?s2 (set_pc t Released (set_lock (mx_unlock A t (m_mutex (obj ?s2))) ?s2))"
    by (rule mstep.Unlock) simp
  then have r3: "mreach c A ?s3" using reach [OF r2] by simp
  let ?s4 = "set_pc u Taken (set_lock m3 ?s3)"
  have r4: "mreach c A ?s4" by (rule reach [OF r3 mstep.Lock]) (use assms(2) l3 m0 in simp_all)
  let ?s5 = "set_pc u Inside (set_flag 1 ?s4)"
  have r5: "mreach c A ?s5" by (rule reach [OF r4 mstep.SetFlag]) simp
  have "mreach c A (set_pc t Idle (set_flag 0 ?s5))"
    by (rule reach [OF r5 mstep.ClearFlag]) (use assms(2) in simp)
  then show ?thesis
    using assms(2) by (intro exI [of _ "set_pc t Idle (set_flag 0 ?s5)"])
      (simp add: ncMutex_isLocked_def)
qed

theorem flag_lost_witness:
  "\<exists>s. mreach linux_config owner_lock s \<and> pcs s 2 = Inside \<and> pcs s 1 = Idle \<and>
    ncMutex_isLocked (obj s) = 0"
  by (rule flag_lost [OF owner_lock_doc]) simp

text \<open>
  C11: the mutex implements the abstract lock: it starts free, every step of every thread in every
  interleaving is a step of the abstract lock or leaves it alone, and a thread has the lock
  exactly when it is its holder.
\<close>

theorem mutex_refines_lock:
  assumes "mutex_doc A" "mreach c A s" "mstep c A s s'"
  shows "holder A (mstate_init A) = None \<and> lock_spec (holder A s) (holder A s') \<and>
    (\<forall>t. inside (pcs s' t) \<longleftrightarrow> holder A s' = Some t)"
proof -
  have inv: "minv A s" by (rule mreach_minv [OF assms(1,2)])
  from minv_init [OF assms(1)] have "holder A (mstate_init A) = None"
    using mutex_doc_init [OF assms(1)] by (simp add: holder_def mstate_init_def ncMutex_init_def)
  with mstep_refines [OF assms(1) inv assms(3)] minv_step [OF assms(1) inv assms(3)] show ?thesis
    by (simp add: minv_def holder_def)
qed

theorem mutex_refines_lock_witness:
  "\<exists>s s'. mstep linux_config owner_lock s s' \<and> s \<noteq> s' \<and>
    holder owner_lock (mstate_init owner_lock) = None \<and>
    lock_spec (holder owner_lock s) (holder owner_lock s') \<and>
    (\<forall>t. inside (pcs s' t) \<longleftrightarrow> holder owner_lock s' = Some t)"
proof -
  let ?s = "mstate_init owner_lock" and ?t = "set_pc 3 Taken (set_lock (Some 3) (mstate_init owner_lock))"
  have st: "mstep linux_config owner_lock ?s ?t"
    by (rule mstep.Lock) (simp_all add: mstate_init_def ncMutex_init_def owner_lock_def)
  have "pcs ?s 3 \<noteq> pcs ?t 3" by (simp add: mstate_init_def)
  then have "?s \<noteq> ?t" by metis
  with st mutex_refines_lock [OF owner_lock_doc mreach.Start st] show ?thesis by blast
qed

end
