(* ===== verification/Nc_Udp_Race.thy ===== *)
theory Nc_Udp_Race
  imports Nc_Listener_Live Nc_Sock_IO
begin

text \<open>
  \<open>startListening\<close> of a datagram listener and \<open>stopListening\<close> in two threads. The test of the flag
  and all steps of \<open>stopListening\<close> are those of \<open>Nc_Listener_Race\<close>; at the position \<open>AtAccept\<close> the
  server is in \<open>recvfrom\<close>. Unlike the accept loop this one has not made its socket non-blocking,
  so no sleep is long enough: the socket can be closed while the server waits in the call.
\<close>

section \<open>The step relation\<close>

text \<open>\<open>u_fault\<close>: the server has run into undefined behaviour and makes no further step.\<close>

record ustate =
  u_base :: rstate
  u_from :: sockaddr_in
  u_fault :: "fault option"

inductive ustep :: "os \<Rightarrow> config \<Rightarrow> (hist \<Rightarrow> byte list) \<Rightarrow> ustate \<Rightarrow> ustate \<Rightarrow> bool" for K c junk where
  Shared: "rstep K c option flags False (u_base s) b \<Longrightarrow>
     r_srv (u_base s) \<noteq> AtAccept \<or> r_srv b = AtAccept \<Longrightarrow>
     u_fault s = None \<or> r_srv b = r_srv (u_base s) \<Longrightarrow>
     ustep K c junk s (s\<lparr>u_base := b\<rparr>)"
| Recv: "r_srv (u_base s) = AtAccept \<Longrightarrow> u_fault s = None \<Longrightarrow>
     k_recvfrom K (ls_sockfd (r_obj (u_base s))) MAX_DGRAM_BUF_LEN (r_hist (u_base s)) = (n, bs, a, h) \<Longrightarrow>
     sender = (if n < 0 then u_from s else a) \<Longrightarrow>
     udpData_make c (junk h) 0 sender (udp_buffer bs) n = Inr u \<Longrightarrow>
     ustep K c junk s (s\<lparr>u_base := (u_base s)\<lparr>r_srv := AtCheck, r_hist := Callback (CbUdp u) # h\<rparr>,
       u_from := sender\<rparr>)"
| Fault: "r_srv (u_base s) = AtAccept \<Longrightarrow> u_fault s = None \<Longrightarrow>
     k_recvfrom K (ls_sockfd (r_obj (u_base s))) MAX_DGRAM_BUF_LEN (r_hist (u_base s)) = (n, bs, a, h) \<Longrightarrow>
     sender = (if n < 0 then u_from s else a) \<Longrightarrow>
     udpData_make c (junk h) 0 sender (udp_buffer bs) n = Inl f \<Longrightarrow>
     ustep K c junk s (s\<lparr>u_base := (u_base s)\<lparr>r_hist := h\<rparr>, u_from := sender, u_fault := Some f\<rparr>)"

definition udp_start :: "ncSocketListener \<Rightarrow> hist \<Rightarrow> ustate" where
  "udp_start L h =
     \<lparr>u_base = race_start L \<lparr>th_retVal = 0, ncthread = 0\<rparr> h, u_from = zero_sockaddr, u_fault = None\<rparr>"

inductive ureach :: "os \<Rightarrow> config \<Rightarrow> (hist \<Rightarrow> byte list) \<Rightarrow> ustate \<Rightarrow> ustate \<Rightarrow> bool" for K c junk s0 where
  Refl: "ureach K c junk s0 s0"
| Step: "ureach K c junk s0 s \<Longrightarrow> ustep K c junk s s' \<Longrightarrow> ureach K c junk s0 s'"

inductive_cases ustep_cases: "ustep K c junk s s'"

section \<open>The server alone\<close>

definition udp_at :: "server_pc \<Rightarrow> ncSocketListener \<Rightarrow> sockaddr_in \<Rightarrow> hist \<Rightarrow> ustate \<Rightarrow> bool" where
  "udp_at p L a h s \<longleftrightarrow> r_srv (u_base s) = p \<and> r_obj (u_base s) = L \<and> u_from s = a \<and>
     r_hist (u_base s) = h \<and> u_fault s = None"

text \<open>A trip of the server alone is a trip of the loop \<open>udp_body\<close>.\<close>

definition udp_outcome ::
    "udp_state + ((fault + retcode) \<times> ncSocketListener \<times> hist) \<Rightarrow> ustate \<Rightarrow> bool" where
  "udp_outcome z s \<longleftrightarrow>
     (case z of
        Inl (L, a, h) \<Rightarrow> udp_at AtLoop L a h s
      | Inr (Inr r, L, h) \<Rightarrow> (\<exists>a. udp_at (Left r) L a h s)
      | Inr (Inl f, L, h) \<Rightarrow> u_fault s = Some f \<and> r_obj (u_base s) = L \<and> r_hist (u_base s) = h)"

lemma shared_step:
  assumes "rstep K c 0 0 False (u_base s) b" "u_fault s = None"
    and "r_srv (u_base s) \<noteq> AtAccept \<or> r_srv b = AtAccept"
  shows "ustep K c junk s (s\<lparr>u_base := b\<rparr>)"
  by (rule ustep.Shared [OF assms(1)]) (use assms in auto)

lemma udp_server_alone:
  assumes at: "udp_at AtLoop L a h s" and view: "\<forall>h L. os_view K h L = L"
  shows "\<exists>s'. ureach K c junk s s' \<and> udp_outcome (udp_body K c junk 0 (L, a, h)) s'"
proof -
  let ?r = "ureach K c junk s"
  have s: "r_srv (u_base s) = AtLoop" "r_obj (u_base s) = L" "u_from s = a" "r_hist (u_base s) = h"
    "u_fault s = None" using at by (simp_all add: udp_at_def)
  show ?thesis
  proof (cases "ls_listening L = 0")
    case True
    let ?s1 = "s\<lparr>u_base := (u_base s)\<lparr>r_srv := Left NC_OK\<rparr>\<rparr>"
    have "?r ?s1"
      by (rule ureach.Step [OF ureach.Refl shared_step], rule rstep.LoopOff) (use s True in simp_all)
    then show ?thesis
      using True view s
      by (intro exI [of _ ?s1]) (simp add: udp_body_def udp_outcome_def udp_at_def Let_def)
  next
    case on: False
    let ?s1 = "s\<lparr>u_base := (u_base s)\<lparr>r_srv := AtAccept\<rparr>\<rparr>"
    have 1: "?r ?s1"
      by (rule ureach.Step [OF ureach.Refl shared_step], rule rstep.LoopOn) (use s on in simp_all)
    obtain n bs a1 h1 where recv: "k_recvfrom K (ls_sockfd L) MAX_DGRAM_BUF_LEN h = (n, bs, a1, h1)"
      by (metis prod_cases4)
    define sender where "sender = (if n < 0 then a else a1)"
    show ?thesis
    proof (cases "udpData_make c (junk h1) 0 sender (udp_buffer bs) n")
      case (Inl f)
      let ?s2 = "?s1\<lparr>u_base := (u_base ?s1)\<lparr>r_hist := h1\<rparr>, u_from := sender, u_fault := Some f\<rparr>"
      have "?r ?s2"
        by (rule ureach.Step [OF 1 ustep.Fault [of ?s1 K n bs a1 h1 _ c junk]])
          (use s recv Inl sender_def in simp_all)
      then show ?thesis
        using on view recv Inl s
        by (intro exI [of _ ?s2]) (simp add: udp_body_def udp_outcome_def Let_def flip: sender_def)
    next
      case (Inr u)
      let ?h2 = "Callback (CbUdp u) # h1"
      let ?s2 = "?s1\<lparr>u_base := (u_base ?s1)\<lparr>r_srv := AtCheck, r_hist := ?h2\<rparr>, u_from := sender\<rparr>"
      let ?s3 = "?s2\<lparr>u_base := (u_base ?s2)\<lparr>r_srv := AtLoop\<rparr>\<rparr>"
      have 2: "?r ?s2"
        by (rule ureach.Step [OF 1 ustep.Recv [of ?s1 K n bs a1 h1 _ c junk]])
          (use s recv Inr sender_def in simp_all)
      have "?r ?s3"
        by (rule ureach.Step [OF 2 shared_step], rule rstep.CheckOn) (use s on in simp_all)
      then show ?thesis
        using on view recv Inr s
        by (intro exI [of _ ?s3]) (simp add: udp_body_def udp_outcome_def udp_at_def Let_def flip: sender_def)
    qed
  qed
qed

section \<open>What holds in every interleaving\<close>

text \<open>The only fault there is: a failed \<open>recvfrom\<close> whose result became a length.\<close>

definition failed_recv :: "fault \<Rightarrow> hist \<Rightarrow> bool" where
  "failed_recv f h \<longleftrightarrow>
     (\<exists>n s bs a. f = Memcpy_overrun n \<and> 2 ^ 31 \<le> n \<and> SysRecvfrom s 512 (-1) bs a \<in> set h)"

definition udp_inv :: "hist \<Rightarrow> ustate \<Rightarrow> bool" where
  "udp_inv h0 s \<longleftrightarrow> all_delivered h0 (r_hist (u_base s)) \<and>
     (r_stp (u_base s) \<noteq> Before \<longrightarrow> ls_listening (r_obj (u_base s)) = 0 \<and>
        rounds (r_hist (u_base s)) \<le> r_mark (u_base s) +
          (if r_srv (u_base s) = AtAccept \<and> u_fault s = None then 0 else 1)) \<and>
     (case u_fault s of None \<Rightarrow> True | Some f \<Rightarrow> failed_recv f (r_hist (u_base s)))"

lemma udp_received_iff:
  assumes "recv_doc K" and "k_recvfrom K fd MAX_DGRAM_BUF_LEN h = (n, bs, a, h')"
  shows "h' = SysRecvfrom fd 512 n bs a # h"
    and "udpData_make c junk 0 b (udp_buffer bs) n = Inr u \<Longrightarrow> 0 \<le> n"
    and "udpData_make c junk 0 a (udp_buffer bs) n = Inr u \<Longrightarrow> datagram_ok (bs, a) u"
    and "udpData_make c junk 0 b (udp_buffer bs) n = Inl f \<Longrightarrow> n = -1 \<and> (\<exists>m \<ge> 2 ^ 31. f = Memcpy_overrun m)"
proof -
  have r: "os_recvfrom K h fd 512 = (n, bs, a)" and h': "h' = SysRecvfrom fd 512 n bs a # h"
    using assms(2) by (auto simp: k_recvfrom_def MAX_DGRAM_BUF_LEN_def Let_def split: prod.splits)
  have res: "recv_result 512 n bs" by (rule recv_docD(2) [OF assms(1) _ r]) simp
  show "h' = SysRecvfrom fd 512 n bs a # h" by (rule h')
  have neg: "\<exists>m \<ge> 2 ^ 31. udpData_make c junk 0 b (udp_buffer bs) n = Inl (Memcpy_overrun m)"
    if "\<not> 0 \<le> n" for b
    using that res udpData_make_negative [of n] by (auto simp: recv_result_def)
  show pos: "0 \<le> n" if "udpData_make c junk 0 b (udp_buffer bs) n = Inr u"
    using that neg [of b] by fastforce
  show "datagram_ok (bs, a) u" if "udpData_make c junk 0 a (udp_buffer bs) n = Inr u"
    using that udp_received [OF res, of c junk a] neg [of a] by fastforce
  show "n = -1 \<and> (\<exists>m \<ge> 2 ^ 31. f = Memcpy_overrun m)" if "udpData_make c junk 0 b (udp_buffer bs) n = Inl f"
    using that udp_received [OF res, of c junk b] neg [of b] res by (cases "0 \<le> n") (auto simp: recv_result_def)
qed

lemma all_delivered_call:
  "all_delivered h0 h \<Longrightarrow> datagrams (e # h) = datagrams h \<Longrightarrow> delivered (e # h) = delivered h \<Longrightarrow>
    all_delivered h0 (e # h)"
  by (simp add: all_delivered_def)

lemma udp_inv_step:
  assumes step: "ustep K c junk s s'" and doc: "recv_doc K" and inv: "udp_inv h0 s"
  shows "udp_inv h0 s'"
  using step
proof (cases rule: ustep.cases)
  case (Shared option flags b)
  from Shared(2) show ?thesis
    by (cases rule: rstep.cases)
      (use inv Shared(1,3,4) in \<open>auto simp: udp_inv_def failed_recv_def after_client_def
        intro!: all_delivered_call split: option.splits\<close>)
next
  case (Recv n bs a h sender u)
  note d = udp_received_iff [OF doc Recv(4)]
  have n: "0 \<le> n" by (rule d(2) [OF Recv(6)])
  then have "datagram_ok (bs, a) u" using d(3) Recv(5,6) by simp
  from all_delivered_step [OF _ this n] inv Recv d(1) show ?thesis
    by (auto simp: udp_inv_def)
next
  case (Fault n bs a h sender f)
  note d = udp_received_iff [OF doc Fault(4)]
  from d(4) [OF Fault(6)] d(1) inv Fault(1,2,3) show ?thesis
    by (auto simp: udp_inv_def failed_recv_def intro!: all_delivered_call)
qed

lemma udp_inv_reach:
  assumes "ureach K c junk (udp_start L h) s" "recv_doc K"
  shows "udp_inv h s"
  using assms(1)
proof (induction rule: ureach.induct)
  case Refl
  show ?case by (simp add: udp_inv_def udp_start_def race_start_def all_delivered_def)
next
  case (Step s s')
  then show ?case using udp_inv_step [OF _ assms(2)] by blast
qed

section \<open>Properties\<close>

text \<open>
  The interleaved steps of the datagram server are the code: a trip of the server alone does
  what the loop body \<open>udp_body\<close> does when nobody changes the object, a fault included.
\<close>

lemma udp_race_refines_code:
  assumes "udp_at AtLoop L a h s" "\<forall>h L. os_view K h L = L"
  shows "\<exists>s'. ureach K c junk s s' \<and> udp_outcome (udp_body K c junk 0 (L, a, h)) s'"
  by (rule udp_server_alone [OF assms])

text \<open>
  C21: a datagram listener that is stopped by another thread, in any interleaving: every datagram
  received was delivered once, in order, in an object of its own; after the flag has been cleared
  at most one more \<open>recvfrom\<close> is made; and the server runs into undefined behaviour only through
  a \<open>recvfrom\<close> that failed.
\<close>

theorem udp_race_delivers:
  assumes "ureach K c junk (udp_start L h) s" "recv_doc K"
  shows "all_delivered h (r_hist (u_base s)) \<and>
    (r_stp (u_base s) = Before \<or> rounds (r_hist (u_base s)) \<le> Suc (r_mark (u_base s))) \<and>
    (u_fault s = None \<or> failed_recv (the (u_fault s)) (r_hist (u_base s)))"
  using udp_inv_reach [OF assms] by (auto simp: udp_inv_def split: option.splits if_splits)

text \<open>
  C38: stopping a datagram listener that waits for a datagram can crash it: \<open>stopListening\<close> closes
  the socket under \<open>recvfrom\<close>, the call fails, and its result -1 becomes the length of the copy
  into the datagram object. A kernel that fails \<open>recvfrom\<close> on a closed descriptor is enough.
\<close>

theorem udp_stop_faults:
  assumes "ls_listening L \<noteq> 0" "ls_sockfd L \<noteq> 0"
    and closed: "\<forall>g fd. SysClose fd \<in> set g \<longrightarrow> fst (os_recvfrom K g fd 512) = -1"
  shows "\<exists>s n. ureach K c junk (udp_start L h) s \<and> r_stp (u_base s) = Closed \<and>
    u_fault s = Some (Memcpy_overrun n) \<and> 2 ^ 31 \<le> n"
proof -
  let ?s0 = "udp_start L h" and ?r = "ureach K c junk (udp_start L h)"
  let ?b = "u_base (udp_start L h)"
  let ?b1 = "?b\<lparr>r_srv := AtAccept\<rparr>"
  let ?b2 = "?b1\<lparr>r_obj := (r_obj ?b1)\<lparr>ls_listening := 0\<rparr>, r_stp := Cleared, r_mark := rounds (r_hist ?b1)\<rparr>"
  let ?b3 = "?b2\<lparr>r_stp := Slept, r_hist := SysSleep 250 # r_hist ?b2\<rparr>"
  let ?b4 = "?b3\<lparr>r_stp := Closed,
    r_hist := SysClose (ls_sockfd (r_obj ?b3)) # SysShutdown (ls_sockfd (r_obj ?b3)) 0 # r_hist ?b3\<rparr>"
  have b: "r_srv ?b = AtLoop" "r_obj ?b = L" "r_stp ?b = Before" "r_hist ?b = h" "u_fault ?s0 = None"
    by (simp_all add: udp_start_def race_start_def)
  have st: "ureach K c junk ?s0 (t\<lparr>u_base := b'\<rparr>)"
    if "?r t" "rstep K c 0 0 False (u_base t) b'" "u_fault t = None"
      "r_srv (u_base t) \<noteq> AtAccept \<or> r_srv b' = AtAccept" for t b'
    by (rule ureach.Step [OF that(1) shared_step [OF that(2,3,4)]])
  have 1: "?r (?s0\<lparr>u_base := ?b1\<rparr>)"
    by (rule st [OF ureach.Refl], rule rstep.LoopOn) (use b assms(1) in simp_all)
  have 2: "?r (?s0\<lparr>u_base := ?b2\<rparr>)"
    using st [OF 1, of ?b2] rstep.Clear [of ?b1 K c 0 0 False] b by simp
  have 3: "?r (?s0\<lparr>u_base := ?b3\<rparr>)"
    using st [OF 2, of ?b3] rstep.Sleep [of ?b2 False K c 0 0] b by simp
  have 4: "?r (?s0\<lparr>u_base := ?b4\<rparr>)"
    using st [OF 3, of ?b4] rstep.Close [of ?b3 K c 0 0 False] b assms(2) by simp
  define g where "g = SysClose (ls_sockfd L) # SysShutdown (ls_sockfd L) 0 # SysSleep 250 # h"
  obtain bs a where r: "os_recvfrom K g (ls_sockfd L) 512 = (-1, bs, a)"
    using closed [rule_format, of "ls_sockfd L" g] b by (auto simp: g_def prod_eq_iff)
  let ?h = "SysRecvfrom (ls_sockfd L) 512 (-1) bs a # g"
  obtain m where m: "2 ^ 31 \<le> m" "udpData_make c (junk ?h) 0 (u_from ?s0) (udp_buffer bs) (-1) =
      Inl (Memcpy_overrun m)"
    using udpData_make_negative [of "-1" c "junk ?h" 0 "u_from ?s0" "udp_buffer bs"] by auto
  let ?s5 = "?s0\<lparr>u_base := ?b4\<lparr>r_hist := ?h\<rparr>, u_from := u_from ?s0, u_fault := Some (Memcpy_overrun m)\<rparr>"
  have "ustep K c junk (?s0\<lparr>u_base := ?b4\<rparr>) ?s5"
    using ustep.Fault [of "?s0\<lparr>u_base := ?b4\<rparr>" K "-1" bs a ?h "u_from ?s0" c junk "Memcpy_overrun m"] r m b
    by (simp add: k_recvfrom_def MAX_DGRAM_BUF_LEN_def Let_def flip: g_def)
  from ureach.Step [OF 4 this] m(1) show ?thesis by (intro exI [of _ ?s5] exI [of _ m]) simp
qed

text \<open>For the witnesses: a kernel that delivers one datagram and then waits, and one that fails.\<close>

theorem udp_stop_faults_witness:
  "\<exists>s n. ureach dead_os win32_config (\<lambda>h. replicate 512 0) (udp_start listening_obj []) s \<and>
    r_stp (u_base s) = Closed \<and> u_fault s = Some (Memcpy_overrun n) \<and> 2 ^ 31 \<le> n"
  by (rule udp_stop_faults) (simp_all add: listening_obj_def dead_os_def)

theorem udp_race_delivers_witness:
  "\<exists>s. ureach ready_os linux_config (\<lambda>h. replicate 512 0) (udp_start listening_obj []) s \<and>
    delivered (r_hist (u_base s)) \<noteq> [] \<and> all_delivered [] (r_hist (u_base s)) \<and>
    (r_stp (u_base s) = Before \<or> rounds (r_hist (u_base s)) \<le> Suc (r_mark (u_base s))) \<and>
    (u_fault s = None \<or> failed_recv (the (u_fault s)) (r_hist (u_base s)))"
proof -
  let ?s0 = "udp_start listening_obj []"
  have at: "udp_at AtLoop listening_obj zero_sockaddr [] ?s0"
    by (simp add: udp_at_def udp_start_def race_start_def)
  have view: "\<forall>h L. os_view ready_os h L = L" by (simp add: ready_os_def dead_os_def)
  obtain s where s: "ureach ready_os linux_config (\<lambda>h. replicate 512 0) ?s0 s"
    and out: "udp_outcome (udp_body ready_os linux_config (\<lambda>h. replicate 512 0) 0
      (listening_obj, zero_sockaddr, [])) s"
    using udp_server_alone [OF at view] by blast
  obtain u where "udpData_make linux_config (replicate 512 0) 0 zero_sockaddr
      (udp_buffer [7, 7]) 2 = Inr u"
    using udpData_make_ok [of 2 "udp_buffer [7, 7]"] by (simp add: NC_MIN_def)
  with out have "delivered (r_hist (u_base s)) = [u]"
    by (simp add: udp_body_def udp_outcome_def udp_at_def ready_os_def dead_os_def listening_obj_def
        k_recvfrom_def MAX_DGRAM_BUF_LEN_def numeral_2_eq_2 Let_def)
  with udp_race_delivers [OF s] ready_os_docs(3) s show ?thesis by auto
qed

end
