(* ===== verification/Nc_Start_Steps.thy ===== *)
theory Nc_Start_Steps
  imports Nc_Listener_Race
begin

text \<open>
  The whole of \<open>startListening\<close> in steps, from its first statement to its return. A step ends
  where the code next touches the members that the listener shares with other threads; between two
  steps those threads may run. The datagram service is included. \<open>phase\<close> is the program counter
  with the local variables that are still needed.

  Run alone, the steps compute \<open>startListening\<close>: the locale \<open>stepped_loop\<close> relates a loop to the
  steps of its trips and is interpreted on the bind loop, the accept loop and the datagram loop.
\<close>

section \<open>A loop and the steps of its trips\<close>

definition steps_to :: "('c \<Rightarrow> 'c) \<Rightarrow> 'c \<Rightarrow> 'c \<Rightarrow> bool" where
  "steps_to f x y \<longleftrightarrow> (\<exists>k. (f ^^ k) x = y)"

lemma steps_refl [simp, intro]: "steps_to f x x"
  unfolding steps_to_def by (rule exI [of _ 0]) simp

lemma steps_step: "steps_to f (f x) y \<Longrightarrow> steps_to f x y"
  unfolding steps_to_def by (metis funpow_Suc_right comp_apply)

lemma steps_trans: "steps_to f x y \<Longrightarrow> steps_to f y z \<Longrightarrow> steps_to f x z"
  unfolding steps_to_def by (metis funpow_add comp_apply)

locale stepped_loop =
  fixes step :: "'c \<Rightarrow> 'c" and body :: "'s \<Rightarrow> 's + 'r" and enter :: "'s \<Rightarrow> 'c" and leave :: "'r \<Rightarrow> 'c"
  assumes again: "body s = Inl s' \<Longrightarrow> steps_to step (step (enter s)) (enter s')"
    and exit: "body s = Inr r \<Longrightarrow> steps_to step (enter s) (leave r)"
begin

lemma returns:
  assumes "run_loop body s = Some r"
  shows "steps_to step (enter s) (leave r)"
proof (rule run_loop_inv [OF assms, where I = "\<lambda>t. steps_to step (enter s) (enter t)"])
  show "steps_to step (enter s) (enter t')" if "steps_to step (enter s) (enter t)" "body t = Inl t'" for t t'
    by (rule steps_trans [OF that(1) steps_step [OF again [OF that(2)]]])
  show "steps_to step (enter s) (leave q)" if "steps_to step (enter s) (enter t)" "body t = Inr q" for t q
    by (rule steps_trans [OF that(1) exit [OF that(2)]])
qed simp

text \<open>A loop that does not return is entered again after any number of steps.\<close>

lemma goes_on:
  assumes "run_loop body s = None"
  shows "\<exists>k s'. n \<le> k \<and> (step ^^ k) (enter s) = enter s' \<and> run_loop body s' = None"
proof (induction n)
  case 0
  show ?case using assms by (intro exI [of _ 0] exI [of _ s]) simp
next
  case (Suc n)
  then obtain k t where t: "n \<le> k" "(step ^^ k) (enter s) = enter t" "run_loop body t = None" by blast
  then obtain t' where t': "body t = Inl t'" by (cases "body t") auto
  with again obtain j where j: "(step ^^ j) (step (enter t)) = enter t'" unfolding steps_to_def by blast
  have "(step ^^ (j + Suc k)) (enter s) = enter t'" unfolding funpow_add comp_apply funpow.simps t(2) by (rule j)
  moreover have "run_loop body t' = None" using t(3) t' by (simp add: run_loop_again)
  ultimately show ?case using t(1) by (intro exI [of _ "j + Suc k"] exI [of _ t']) simp
qed

end

section \<open>The steps\<close>

text \<open>The arguments of the call and what it is made in.\<close>

record senv =
  se_os :: os
  se_cfg :: config
  se_fnptr :: bool
  se_option :: int
  se_flags :: "32 word"
  se_thread :: ncThread
  se_junk :: "hist \<Rightarrow> byte list"

text \<open>
  \<open>Arm\<close> sets \<open>m_listening\<close>; \<open>Bound\<close> is the test of a failed \<open>bind\<close>, with the error number of the call. \<open>Loop\<close>, \<open>Accept\<close> and
  \<open>Check\<close> belong to the accept loop, \<open>ULoop\<close>, \<open>Receive\<close> and \<open>UCheck\<close> to the datagram loop.
\<close>

datatype phase =
    Open | Arm sockaddr_in | Reuse sockaddr_in ncThread
  | Bind sockaddr_in int ncThread | Bound sockaddr_in oserr int ncThread
  | Listen ncThread | Unblock ncThread | Loop ncThread | Accept ncThread | Check ncThread
  | ULoop sockaddr_in ncThread | Receive sockaddr_in ncThread | UCheck sockaddr_in ncThread
  | Ended "fault + retcode"

type_synonym config3 = "phase \<times> ncSocketListener \<times> hist"

text \<open>Every return from the scope of \<open>newThread\<close> destroys it.\<close>

definition leave_start ::
    "senv \<Rightarrow> fault + retcode \<Rightarrow> ncThread \<Rightarrow> ncSocketListener \<Rightarrow> hist \<Rightarrow> config3" where
  "leave_start e r T L h = (Ended r, L, ncThread_destroy (se_cfg e) T h)"

definition after_bind :: "senv \<Rightarrow> ncThread \<Rightarrow> ncSocketListener \<Rightarrow> hist \<Rightarrow> config3" where
  "after_bind e T L h =
     (if ls_socktype L = SOCKTYPE_TCPIP then (Listen T, L, h)
      else if ls_socktype L = SOCKTYPE_UDP then (ULoop zero_sockaddr T, L, h)
      else leave_start e (Inr NC_OK) T L h)"

fun start_step :: "senv \<Rightarrow> config3 \<Rightarrow> config3" where
  "start_step e (Open, L, h) =
     (let kind = (if ls_socktype L = SOCKTYPE_TCPIP then SOCK_STREAM else SOCK_DGRAM);
          fd = os_socket (se_os e) h kind;
          L = L\<lparr>ls_sockfd := fd\<rparr>;
          h = SysSocket kind fd # h
      in if fd = 0 then (Ended (Inr NC_FAILED), L, h)
         else if bad_args (se_fnptr e) (se_option e) (se_flags e) then (Ended (Inr NC_BADARGS), L, h)
         else (Arm (listen_address (se_cfg e) (ls_port L)), L, h))"
| "start_step e (Arm addr, L, h) =
     (let (T, h) = ncThread_init (se_cfg e) (se_thread e) h in (Reuse addr T, L\<lparr>ls_listening := 1\<rparr>, h))"
| "start_step e (Reuse addr T, L, h) =
     (let (failed, h) = set_reuse (se_os e) (se_flags e) L h
      in if failed then leave_start e (Inr NC_FAILED) T L h else (Bind addr 0 T, L, h))"
| "start_step e (Bind addr n T, L, h) =
     (let r = os_bind (se_os e) h (ls_sockfd L) addr;
          h = SysBind (ls_sockfd L) addr r # h
      in if r \<noteq> -1 then after_bind e T L h else (Bound addr (os_errno (se_os e) h) n T, L, h))"
| "start_step e (Bound addr err n T, L, h) =
     (if ls_listening L = 0 then after_bind e T L h
      else if n = 10 then leave_start e (Inr NC_FAILED) T L h
      else if ncAddrInUse (se_cfg e) err then after_bind e T L h
      else (Bind addr (n + 1) T, L, SysSleep ((n + 1) * 1000) # h))"
| "start_step e (Listen T, L, h) =
     (let r = os_listen (se_os e) h (ls_sockfd L) (ls_backlog L);
          h = SysListen (ls_sockfd L) (ls_backlog L) r # h
      in if r = -1 then leave_start e (Inr NC_FAILED) T L h else (Unblock T, L, h))"
| "start_step e (Unblock T, L, h) =
     (Loop T, L, ncSetSocketNonBlocking (se_os e) (se_cfg e) (ls_sockfd L) h)"
| "start_step e (Loop T, L, h) =
     (if ls_listening L = 0 then leave_start e (Inr NC_OK) T L h else (Accept T, L, h))"
| "start_step e (Accept T, L, h) =
     (let (client, clientaddr) = os_accept (se_os e) h (ls_sockfd L);
          h = SysAccept (ls_sockfd L) client clientaddr # h;
          (out, T, h) = (if client \<noteq> -1
            then serve_client (se_os e) (se_cfg e) (se_option e) (se_flags e) client clientaddr T h
            else (None, T, SysSleep 100 # h))
      in case out of
           Some r \<Rightarrow> leave_start e (Inr r) T L h
         | None \<Rightarrow> (Check T, L, h))"
| "start_step e (Check T, L, h) =
     (if ls_listening L = 0 then leave_start e (Inr NC_OK) T L h else (Loop T, L, h))"
| "start_step e (ULoop a T, L, h) =
     (if ls_listening L = 0 then leave_start e (Inr NC_OK) T L h else (Receive a T, L, h))"
| "start_step e (Receive a T, L, h) =
     (let (datasize, bytes, from, h) = k_recvfrom (se_os e) (ls_sockfd L) MAX_DGRAM_BUF_LEN h;
          a = (if datasize < 0 then a else from)
      in case udpData_make (se_cfg e) (se_junk e h) 0 a (udp_buffer bytes) datasize of
           Inl f \<Rightarrow> leave_start e (Inl f) T L h
         | Inr u \<Rightarrow> (UCheck a T, L, Callback (CbUdp u) # h))"
| "start_step e (UCheck a T, L, h) =
     (if ls_listening L = 0 then leave_start e (Inr NC_OK) T L h else (ULoop a T, L, h))"
| "start_step e (Ended r, L, h) = (Ended r, L, h)"

section \<open>Alone: the sequential method\<close>

text \<open>Nobody else changes the object.\<close>

definition alone :: "senv \<Rightarrow> senv" where
  "alone e = e\<lparr>se_os := (se_os e)\<lparr>os_view := \<lambda>h L. L\<rparr>\<rparr>"

lemma alone_id: "\<forall>h L. os_view (se_os e) h L = L \<Longrightarrow> alone e = e"
  by (cases e) (simp add: alone_def fun_eq_iff)

lemma alone_view [simp]: "os_view (se_os (alone e)) h L = L" "se_cfg (alone e) = se_cfg e"
  by (simp_all add: alone_def)

interpretation bind_steps: stepped_loop "start_step (alone e)"
  "bind_body (se_os (alone e)) (se_cfg e) addr"
  "\<lambda>(L, n, h). (Bind addr n T, L, h)"
  "\<lambda>(out, L, h). case out of None \<Rightarrow> after_bind (alone e) T L h | Some r \<Rightarrow> leave_start (alone e) (Inr r) T L h"
  for e addr T
proof
  fix s s' :: bind_state
  assume b: "bind_body (se_os (alone e)) (se_cfg e) addr s = Inl s'"
  obtain L n h where s: "s = (L, n, h)" by (metis prod_cases3)
  have "os_bind (se_os (alone e)) h (ls_sockfd L) addr = -1"
    using b by (auto simp: s bind_body_def Let_def split: if_splits)
  with b show "steps_to (start_step (alone e)) (start_step (alone e) (case s of (L, n, h) \<Rightarrow> (Bind addr n T, L, h)))
      (case s' of (L, n, h) \<Rightarrow> (Bind addr n T, L, h))"
    by - (rule steps_step, auto simp: s bind_body_def Let_def split: if_splits)
next
  fix s :: bind_state and q
  assume b: "bind_body (se_os (alone e)) (se_cfg e) addr s = Inr q"
  obtain L n h where s: "s = (L, n, h)" by (metis prod_cases3)
  show "steps_to (start_step (alone e)) (case s of (L, n, h) \<Rightarrow> (Bind addr n T, L, h))
      (case q of (out, L, h) \<Rightarrow> case out of None \<Rightarrow> after_bind (alone e) T L h
        | Some r \<Rightarrow> leave_start (alone e) (Inr r) T L h)"
  proof (cases "os_bind (se_os (alone e)) h (ls_sockfd L) addr = -1")
    case False
    with b show ?thesis by - (rule steps_step, auto simp: s bind_body_def Let_def)
  next
    case True
    with b show ?thesis
      by - (rule steps_step, rule steps_step, auto simp: s bind_body_def Let_def split: if_splits)
  qed
qed

interpretation accept_steps: stepped_loop "start_step (alone e)"
  "accept_body (se_os (alone e)) (se_cfg e) (se_option e) (se_flags e)"
  "\<lambda>(L, T, h). (Loop T, L, h)" "\<lambda>(r, L, T, h). leave_start (alone e) (Inr r) T L h" for e
proof
  let ?K = "se_os (alone e)" and ?f = "start_step (alone e)"
  fix s :: accept_state
  obtain L T h where s: "s = (L, T, h)" by (metis prod_cases3)
  obtain fd a where acc: "os_accept ?K h (ls_sockfd L) = (fd, a)" by fastforce
  let ?h = "SysAccept (ls_sockfd L) fd a # h"
  obtain out U g where out: "(if fd \<noteq> -1
      then serve_client ?K (se_cfg e) (se_option e) (se_flags e) fd a T ?h
      else (None, T, SysSleep 100 # ?h)) = (out, U, g)" by (metis prod_cases3)
  have opt: "se_option (alone e) = se_option e" "se_flags (alone e) = se_flags e" by (simp_all add: alone_def)
  have body: "accept_body ?K (se_cfg e) (se_option e) (se_flags e) s =
      (if ls_listening L = 0 then Inr (NC_OK, L, T, h)
       else case out of Some r \<Rightarrow> Inr (r, L, U, g) | None \<Rightarrow> Inl (L, U, g))"
    using acc out by (cases "fd = -1") (auto simp: s accept_body_def Let_def split: option.split)
  have acc_step: "?f (Accept T, L, h) =
      (case out of Some r \<Rightarrow> leave_start (alone e) (Inr r) U L g | None \<Rightarrow> (Check U, L, g))"
    using acc out opt by (cases "fd = -1") (auto simp: Let_def split: option.split)
  note steps = steps_step [of ?f "(Accept T, L, h)"] steps_step [of ?f "(Check U, L, g)"]
  show "steps_to ?f (?f (case s of (L, T, h) \<Rightarrow> (Loop T, L, h))) (case s' of (L, T, h) \<Rightarrow> (Loop T, L, h))"
    if "accept_body ?K (se_cfg e) (se_option e) (se_flags e) s = Inl s'" for s'
    using that body acc_step steps by (auto simp: s split: if_splits option.splits)
  show "steps_to ?f (case s of (L, T, h) \<Rightarrow> (Loop T, L, h))
      (case q of (r, L, T, h) \<Rightarrow> leave_start (alone e) (Inr r) T L h)"
    if "accept_body ?K (se_cfg e) (se_option e) (se_flags e) s = Inr q" for q
    using that body acc_step steps steps_step [of ?f "(Loop T, L, h)"]
    by (auto simp: s split: if_splits option.splits)
qed

interpretation udp_steps: stepped_loop "start_step (alone e)"
  "udp_body (se_os (alone e)) (se_cfg e) (se_junk e) 0"
  "\<lambda>(L, a, h). (ULoop a T, L, h)" "\<lambda>(r, L, h). leave_start (alone e) r T L h" for e T
proof
  let ?K = "se_os (alone e)" and ?f = "start_step (alone e)"
  fix s :: udp_state
  obtain L a h where s: "s = (L, a, h)" by (metis prod_cases3)
  obtain n bs a1 g where recv: "k_recvfrom ?K (ls_sockfd L) MAX_DGRAM_BUF_LEN h = (n, bs, a1, g)"
    by (metis prod_cases4)
  define b where "b = (if n < 0 then a else a1)"
  define d where "d = udpData_make (se_cfg e) (se_junk e g) 0 b (udp_buffer bs) n"
  have junk: "se_junk (alone e) = se_junk e" by (simp add: alone_def)
  have body: "udp_body ?K (se_cfg e) (se_junk e) 0 s =
      (if ls_listening L = 0 then Inr (Inr NC_OK, L, h)
       else case d of Inl f \<Rightarrow> Inr (Inl f, L, g) | Inr u \<Rightarrow> Inl (L, b, Callback (CbUdp u) # g))"
    using recv by (simp add: s udp_body_def Let_def b_def d_def split: sum.split)
  have recv_step: "?f (Receive a T, L, h) =
      (case d of Inl f \<Rightarrow> leave_start (alone e) (Inl f) T L g
       | Inr u \<Rightarrow> (UCheck b T, L, Callback (CbUdp u) # g))"
    using recv junk by (simp add: Let_def b_def d_def split: sum.split)
  note steps = steps_step [of ?f "(Receive a T, L, h)"] steps_step [of ?f "(UCheck b T, L, _ # g)"]
  show "steps_to ?f (?f (case s of (L, a, h) \<Rightarrow> (ULoop a T, L, h))) (case s' of (L, a, h) \<Rightarrow> (ULoop a T, L, h))"
    if "udp_body ?K (se_cfg e) (se_junk e) 0 s = Inl s'" for s'
    using that body recv_step steps by (auto simp: s split: if_splits sum.splits)
  show "steps_to ?f (case s of (L, a, h) \<Rightarrow> (ULoop a T, L, h)) (case q of (r, L, h) \<Rightarrow> leave_start (alone e) r T L h)"
    if "udp_body ?K (se_cfg e) (se_junk e) 0 s = Inr q" for q
    using that body recv_step steps steps_step [of ?f "(ULoop a T, L, h)"]
    by (auto simp: s split: if_splits sum.splits)
qed

text \<open>A call that has ended stays so; one that is in a loop again and again never ends.\<close>

definition never_ends :: "senv \<Rightarrow> config3 \<Rightarrow> bool" where
  "never_ends e x \<longleftrightarrow> (\<forall>k r L h. (start_step e ^^ k) x \<noteq> (Ended r, L, h))"

lemma ended_stays: "(start_step e ^^ k) (Ended r, L, h) = (Ended r, L, h)"
  by (induction k) simp_all

lemma ended_later:
  assumes "(start_step e ^^ k) x = (Ended r, L, h)" "k \<le> n"
  shows "(start_step e ^^ n) x = (Ended r, L, h)"
proof -
  have "(start_step e ^^ n) x = (start_step e ^^ (n - k)) ((start_step e ^^ k) x)"
    using assms(2) by (metis funpow_add comp_apply le_add_diff_inverse2)
  then show ?thesis by (simp add: assms(1) ended_stays)
qed

lemma never_before:
  assumes "steps_to (start_step e) x y" "never_ends e y"
  shows "never_ends e x"
  unfolding never_ends_def
proof (intro allI notI)
  fix k r L h
  assume ended: "(start_step e ^^ k) x = (Ended r, L, h)"
  obtain j where j: "(start_step e ^^ j) x = y" using assms(1) by (auto simp: steps_to_def)
  have "(start_step e ^^ (k + j)) x = (Ended r, L, h)" by (rule ended_later [OF ended]) simp
  then have "(start_step e ^^ k) y = (Ended r, L, h)" by (simp add: funpow_add j)
  with assms(2) show False by (simp add: never_ends_def)
qed

lemma never_again:
  assumes "\<And>n. \<exists>k \<ge> n. \<forall>r L h. (start_step e ^^ k) x \<noteq> (Ended r, L, h)"
  shows "never_ends e x"
  unfolding never_ends_def
proof (intro allI notI)
  fix k r L h
  assume "(start_step e ^^ k) x = (Ended r, L, h)"
  from ended_later [OF this] assms [of k] show False by blast
qed

lemma accept_never:
  assumes "run_loop (accept_body (se_os (alone e)) (se_cfg e) (se_option e) (se_flags e)) (L, T, h) = None"
  shows "never_ends (alone e) (Loop T, L, h)"
proof (rule never_again)
  fix n
  from accept_steps.goes_on [OF assms, of n] show
    "\<exists>k \<ge> n. \<forall>r L' h'. (start_step (alone e) ^^ k) (Loop T, L, h) \<noteq> (Ended r, L', h')"
    by (auto split: prod.splits)
qed

lemma udp_never:
  assumes "run_loop (udp_body (se_os (alone e)) (se_cfg e) (se_junk e) 0) (L, a, h) = None"
  shows "never_ends (alone e) (ULoop a T, L, h)"
proof (rule never_again)
  fix n
  from udp_steps.goes_on [OF assms, of n T] show
    "\<exists>k \<ge> n. \<forall>r L' h'. (start_step (alone e) ^^ k) (ULoop a T, L, h) \<noteq> (Ended r, L', h')"
    by (auto split: prod.splits)
qed

lemma bind_never:
  assumes "run_loop (bind_body (se_os (alone e)) (se_cfg e) addr) (L, n, h) = None"
  shows "never_ends (alone e) (Bind addr n T, L, h)"
proof (rule never_again)
  fix m
  from bind_steps.goes_on [OF assms, of m T] show
    "\<exists>k \<ge> m. \<forall>r L' h'. (start_step (alone e) ^^ k) (Bind addr n T, L, h) \<noteq> (Ended r, L', h')"
    by (auto split: prod.splits)
qed

text \<open>\<open>outcome e x z\<close>: the steps from \<open>x\<close> end as the result \<open>z\<close> of the sequential code says.\<close>

definition outcome :: "senv \<Rightarrow> config3 \<Rightarrow> ((fault + retcode) \<times> ncSocketListener \<times> hist) option \<Rightarrow> bool" where
  "outcome e x z \<longleftrightarrow>
     (case z of Some (r, L, h) \<Rightarrow> steps_to (start_step e) x (Ended r, L, h) | None \<Rightarrow> never_ends e x)"

lemma outcome_step: "outcome e (start_step e x) z \<Longrightarrow> outcome e x z"
  unfolding outcome_def
  by (auto split: option.splits intro: steps_step never_before [OF steps_step [OF steps_refl]])

lemma outcome_steps: "steps_to (start_step e) x y \<Longrightarrow> outcome e y z \<Longrightarrow> outcome e x z"
  unfolding outcome_def by (auto split: option.splits intro: steps_trans never_before)

lemma outcome_left [simp]: "outcome e (leave_start e r T L h) (Some (leave_scope (se_cfg e) (r, L, T, h)))"
  by (simp add: outcome_def leave_start_def)

lemma serve_steps:
  "outcome (alone e) (after_bind (alone e) T L h)
     (map_option (leave_scope (se_cfg e)) (serve (se_os (alone e)) (se_cfg e) (se_option e) (se_flags e) (se_junk e) L T h))"
proof -
  let ?K = "se_os (alone e)" and ?c = "se_cfg e"
  have left: "outcome (alone e) (leave_start (alone e) r T L h) (Some (leave_scope ?c (r, L, T, h)))" for r T L h
    using outcome_left [of "alone e"] by simp
  have loop: "outcome (alone e) (Loop T, L, g) (map_option (leave_scope ?c) (map_option (\<lambda>(r, s). (Inr r, s))
      (run_loop (accept_body ?K ?c (se_option e) (se_flags e)) (L, T, g))))" for g
  proof (cases "run_loop (accept_body ?K ?c (se_option e) (se_flags e)) (L, T, g)")
    case None
    with accept_never show ?thesis by (simp add: outcome_def)
  next
    case (Some q)
    obtain r L' T' g' where q: "q = (r, L', T', g')" by (metis prod_cases4)
    from accept_steps.returns [OF Some] left [of "Inr r" T' L' g'] Some show ?thesis
      by (auto simp: q intro: outcome_steps)
  qed
  have uloop: "outcome (alone e) (ULoop a T, L, h) (map_option (leave_scope ?c) (map_option (\<lambda>(r, L, h). (r, L, T, h))
      (run_loop (udp_body ?K ?c (se_junk e) 0) (L, a, h))))" for a
  proof (cases "run_loop (udp_body ?K ?c (se_junk e) 0) (L, a, h)")
    case None
    with udp_never show ?thesis by (simp add: outcome_def)
  next
    case (Some q)
    obtain r L' g' where q: "q = (r, L', g')" by (metis prod_cases3)
    from udp_steps.returns [OF Some, of T] left [of r T L' g'] Some show ?thesis
      by (auto simp: q intro: outcome_steps)
  qed
  consider (tcp) "ls_socktype L = SOCKTYPE_TCPIP" | (udp) "ls_socktype L = SOCKTYPE_UDP" "ls_socktype L \<noteq> SOCKTYPE_TCPIP"
    | (other) "ls_socktype L \<noteq> SOCKTYPE_UDP" "ls_socktype L \<noteq> SOCKTYPE_TCPIP" by blast
  then show ?thesis
  proof cases
    case tcp
    let ?r = "os_listen ?K h (ls_sockfd L) (ls_backlog L)"
    let ?h = "SysListen (ls_sockfd L) (ls_backlog L) ?r # h"
    show ?thesis
    proof (cases "?r = -1")
      case True
      with tcp left [of "Inr NC_FAILED" T L ?h] show ?thesis
        using outcome_step [of "alone e" "(Listen T, L, h)"] by (simp add: after_bind_def serve_def Let_def)
    next
      case False
      have "outcome (alone e) (Unblock T, L, ?h) (map_option (leave_scope ?c) (map_option (\<lambda>(r, s). (Inr r, s))
          (run_loop (accept_body ?K ?c (se_option e) (se_flags e))
            (L, T, ncSetSocketNonBlocking ?K ?c (ls_sockfd L) ?h))))"
        using loop by - (rule outcome_step, simp)
      with False tcp show ?thesis
        using outcome_step [of "alone e" "(Listen T, L, h)"] by (simp add: after_bind_def serve_def Let_def)
    qed
  next
    case udp
    with uloop show ?thesis by (simp add: after_bind_def serve_def)
  next
    case other
    with left show ?thesis by (simp add: after_bind_def serve_def)
  qed
qed

lemma bound_steps:
  "outcome (alone e) (Bind addr 0 T, L, h)
     (case run_loop (bind_body (se_os (alone e)) (se_cfg e) addr) (L, 0, h) of
        None \<Rightarrow> None
      | Some (Some r, L, h) \<Rightarrow> Some (leave_scope (se_cfg e) (Inr r, L, T, h))
      | Some (None, L, h) \<Rightarrow> map_option (leave_scope (se_cfg e))
          (serve (se_os (alone e)) (se_cfg e) (se_option e) (se_flags e) (se_junk e) L T h))"
proof (cases "run_loop (bind_body (se_os (alone e)) (se_cfg e) addr) (L, 0, h)")
  case None
  with bind_never show ?thesis by (simp add: outcome_def)
next
  case (Some q)
  obtain out L' g where q: "q = (out, L', g)" by (metis prod_cases3)
  have "steps_to (start_step (alone e)) (Bind addr 0 T, L, h)
      (case out of None \<Rightarrow> after_bind (alone e) T L' g | Some r \<Rightarrow> leave_start (alone e) (Inr r) T L' g)"
    using bind_steps.returns [OF Some, of T] by (simp add: q)
  moreover have "outcome (alone e) (leave_start (alone e) r T L' g) (Some (leave_scope (se_cfg e) (r, L', T, g)))" for r
    using outcome_left [of "alone e"] by simp
  ultimately show ?thesis
    using Some serve_steps [of e T L' g] by (cases out) (auto simp: q intro: outcome_steps)
qed

lemma start_alone:
  "outcome (alone e) (Open, L, h) (startListening (se_os (alone e)) (se_cfg e) (se_fnptr e) (se_option e)
     (se_flags e) (se_thread e) (se_junk e) L h)"
proof -
  let ?K = "se_os (alone e)" and ?c = "se_cfg e"
  let ?addr = "listen_address ?c (ls_port L)"
  define kind where "kind = (if ls_socktype L = SOCKTYPE_TCPIP then SOCK_STREAM else SOCK_DGRAM)"
  define fd where "fd = os_socket ?K h kind"
  define h1 where "h1 = SysSocket kind fd # h"
  define L1 where "L1 = L\<lparr>ls_sockfd := fd\<rparr>"
  obtain T h2 where T: "ncThread_init ?c (se_thread e) h1 = (T, h2)" by fastforce
  define L2 where "L2 = L1\<lparr>ls_listening := 1\<rparr>"
  obtain failed h3 where reuse: "set_reuse ?K (se_flags e) L2 h2 = (failed, h3)" by fastforce
  have same: "se_fnptr (alone e) = se_fnptr e" "se_option (alone e) = se_option e"
    "se_flags (alone e) = se_flags e" "se_thread (alone e) = se_thread e"
    by (simp_all add: alone_def)
  have open1: "start_step (alone e) (Open, L, h) =
    (if fd = 0 then (Ended (Inr NC_FAILED), L1, h1)
     else if bad_args (se_fnptr e) (se_option e) (se_flags e) then (Ended (Inr NC_BADARGS), L1, h1)
     else (Arm ?addr, L1, h1))"
    by (simp add: same Let_def L1_def h1_def fd_def kind_def)
  have seq: "startListening ?K ?c (se_fnptr e) (se_option e) (se_flags e) (se_thread e) (se_junk e) L h =
    (if fd = 0 then Some (Inr NC_FAILED, L1, h1)
     else if bad_args (se_fnptr e) (se_option e) (se_flags e) then Some (Inr NC_BADARGS, L1, h1)
     else if failed then Some (leave_scope ?c (Inr NC_FAILED, L2, T, h3))
     else case run_loop (bind_body ?K ?c ?addr) (L2, 0, h3) of
         None \<Rightarrow> None
       | Some (Some r, L, h) \<Rightarrow> Some (leave_scope ?c (Inr r, L, T, h))
       | Some (None, L, h) \<Rightarrow> map_option (leave_scope ?c) (serve ?K ?c (se_option e) (se_flags e) (se_junk e) L T h))"
    using T reuse
    by (simp add: startListening_def Let_def L1_def L2_def h1_def fd_def kind_def split: option.split prod.split)
  consider (early) "fd = 0 \<or> bad_args (se_fnptr e) (se_option e) (se_flags e)"
    | (late) "fd \<noteq> 0" "\<not> bad_args (se_fnptr e) (se_option e) (se_flags e)" by blast
  then show ?thesis
  proof cases
    case early
    with open1 seq show ?thesis by - (rule outcome_step, auto simp: outcome_def)
  next
    case late
    have "outcome (alone e) (Reuse ?addr T, L2, h2)
        (startListening ?K ?c (se_fnptr e) (se_option e) (se_flags e) (se_thread e) (se_junk e) L h)"
    proof (cases failed)
      case True
      with late seq reuse same outcome_left [of "alone e" "Inr NC_FAILED" T L2 h3] show ?thesis
        by - (rule outcome_step, simp)
    next
      case False
      with late seq reuse same bound_steps [of e ?addr T L2 h3] show ?thesis
        by - (rule outcome_step, simp)
    qed
    then have "outcome (alone e) (Arm ?addr, L1, h1)
        (startListening ?K ?c (se_fnptr e) (se_option e) (se_flags e) (se_thread e) (se_junk e) L h)"
      by - (rule outcome_step, simp add: T same L2_def)
    with late open1 show ?thesis by - (rule outcome_step, simp)
  qed
qed

section \<open>stopListening\<close>

fun stop_step :: "stopper_pc \<times> ncSocketListener \<times> hist \<Rightarrow> stopper_pc \<times> ncSocketListener \<times> hist" where
  "stop_step (Before, L, h) = (Cleared, L\<lparr>ls_listening := 0\<rparr>, h)"
| "stop_step (Cleared, L, h) = (Slept, L, SysSleep 250 # h)"
| "stop_step (Slept, L, h) =
     (if ls_sockfd L \<noteq> 0 then (Closed, L, SysClose (ls_sockfd L) # SysShutdown (ls_sockfd L) 0 # h)
      else (After, L, h))"
| "stop_step (Closed, L, h) = (After, L\<lparr>ls_sockfd := 0\<rparr>, h)"
| "stop_step (After, L, h) = (After, L, h)"

lemma stop_steps_alone: "(stop_step ^^ 4) (Before, L, h) = (After, stopListening L h)"
  by (simp add: stopListening_def numeral_nat Let_def)

section \<open>The steps of the races\<close>

text \<open>
  \<open>rstep\<close>, which the theories on two threads and on the whole process are built on, makes the same
  steps from the accept loop on; only the destructor of \<open>newThread\<close> is left to the end there.
\<close>

definition phase_of :: "server_pc \<Rightarrow> ncThread \<Rightarrow> phase" where
  "phase_of p T = (case p of AtLoop \<Rightarrow> Loop T | AtAccept \<Rightarrow> Accept T | AtCheck \<Rightarrow> Check T | Left r \<Rightarrow> Ended (Inr r))"

definition hist_of :: "config \<Rightarrow> rstate \<Rightarrow> hist" where
  "hist_of c s = (case r_srv s of Left r \<Rightarrow> ncThread_destroy c (r_thr s) (r_hist s) | _ \<Rightarrow> r_hist s)"

lemma rstep_is_start_step:
  assumes "start_step e (phase_of (r_srv s) (r_thr s), r_obj s, r_hist s) = (p, L, h)" "running (r_srv s)"
  shows "\<exists>s'. rstep (se_os e) (se_cfg e) (se_option e) (se_flags e) patient s s' \<and> r_stp s' = r_stp s \<and>
    r_obj s' = L \<and> phase_of (r_srv s') (r_thr s') = p \<and> hist_of (se_cfg e) s' = h"
proof (cases "r_srv s")
  case AtLoop
  then show ?thesis
    using assms(1) rstep.LoopOn [of s] rstep.LoopOff [of s]
    by (cases "ls_listening (r_obj s) = 0")
      (fastforce simp: phase_of_def hist_of_def leave_start_def)+
next
  case AtCheck
  then show ?thesis
    using assms(1) rstep.CheckOn [of s] rstep.CheckOff [of s]
    by (cases "ls_listening (r_obj s) = 0")
      (fastforce simp: phase_of_def hist_of_def leave_start_def)+
next
  case AtAccept
  obtain fd a where acc: "os_accept (se_os e) (r_hist s) (ls_sockfd (r_obj s)) = (fd, a)" by fastforce
  let ?h = "SysAccept (ls_sockfd (r_obj s)) fd a # r_hist s"
  obtain out T g where out: "(if fd \<noteq> -1
      then serve_client (se_os e) (se_cfg e) (se_option e) (se_flags e) fd a (r_thr s) ?h
      else (None, r_thr s, SysSleep 100 # ?h)) = (out, T, g)" by (metis prod_cases3)
  have "rstep (se_os e) (se_cfg e) (se_option e) (se_flags e) patient s (after_client out T g s)"
  proof (cases "fd = -1")
    case True
    then show ?thesis using rstep.AcceptNone [OF AtAccept, of "se_os e" a] acc out by simp
  next
    case False
    then show ?thesis using rstep.Accept [OF AtAccept acc] out by simp
  qed
  moreover have "start_step e (phase_of (r_srv s) (r_thr s), r_obj s, r_hist s) =
      (case out of Some r \<Rightarrow> leave_start e (Inr r) T (r_obj s) g | None \<Rightarrow> (Check T, r_obj s, g))"
    using acc out AtAccept by (cases "fd = -1") (auto simp: phase_of_def Let_def split: option.split)
  ultimately show ?thesis
    using assms(1) by (intro exI [of _ "after_client out T g s"])
      (auto simp: after_client_def phase_of_def hist_of_def leave_start_def split: option.splits)
next
  case (Left r)
  with assms(2) show ?thesis by simp
qed

section \<open>Property\<close>

text \<open>
  C23: \<open>startListening\<close> and \<open>stopListening\<close> are their steps: run without interference, with any
  arguments, on any object and any system, the steps of \<open>startListening\<close> end with the result, the
  object and the history of the sequential method, and never end if it does not return; the four
  steps of \<open>stopListening\<close> are that method.
\<close>

theorem start_steps_refine:
  assumes "\<forall>h L. os_view (se_os e) h L = L"
  shows "(case startListening (se_os e) (se_cfg e) (se_fnptr e) (se_option e) (se_flags e) (se_thread e) (se_junk e) L h of
      Some (r, L', h') \<Rightarrow> \<exists>k. (start_step e ^^ k) (Open, L, h) = (Ended r, L', h')
    | None \<Rightarrow> \<forall>k r L' h'. (start_step e ^^ k) (Open, L, h) \<noteq> (Ended r, L', h')) \<and>
    (stop_step ^^ 4) (Before, L, h) = (After, stopListening L h)"
  using start_alone [of e L h] stop_steps_alone [of L h] alone_id [OF assms]
  by (auto simp: outcome_def steps_to_def never_ends_def split: option.splits)

definition plain_call :: "os \<Rightarrow> senv" where
  "plain_call K = \<lparr>se_os = K, se_cfg = linux_config, se_fnptr = True, se_option = NC_NONTHREADED,
     se_flags = NC_DETACHED, se_thread = \<lparr>th_retVal = 0, ncthread = 0\<rparr>, se_junk = \<lambda>h. replicate 512 0\<rparr>"

theorem start_steps_refine_witness:
  "let e = plain_call dead_os; L = ncSocketListener_init 80 SOCKTYPE_TCPIP in
    (case startListening (se_os e) (se_cfg e) (se_fnptr e) (se_option e) (se_flags e) (se_thread e) (se_junk e) L [] of
      Some (r, L', h') \<Rightarrow> \<exists>k. (start_step e ^^ k) (Open, L, []) = (Ended r, L', h')
    | None \<Rightarrow> \<forall>k r L' h'. (start_step e ^^ k) (Open, L, []) \<noteq> (Ended r, L', h')) \<and>
    (stop_step ^^ 4) (Before, L, []) = (After, stopListening L [])"
  unfolding Let_def by (rule start_steps_refine) (simp add: plain_call_def dead_os_def)

end
