(* ===== verification/Nc_Start_Race.thy ===== *)
theory Nc_Start_Race
  imports Nc_Start_Steps
begin

text \<open>
  Any number of threads that call \<open>startListening\<close> and \<open>stopListening\<close> on one listener, in the
  steps of \<open>Nc_Start_Steps\<close>, in any order: a schedule is the list of the threads whose turn it is.
  From the moment a start has set \<open>m_listening\<close>, a stop is heeded; before it, and when a listener is
  started again too soon, it is not.
\<close>

section \<open>Threads and schedules\<close>

datatype worker = Starter senv phase | Stopper stopper_pc

record listening =
  lp_obj :: ncSocketListener
  lp_hist :: hist
  lp_workers :: "worker list"

fun worker_step :: "worker \<Rightarrow> ncSocketListener \<Rightarrow> hist \<Rightarrow> worker \<times> ncSocketListener \<times> hist" where
  "worker_step (Starter e p) L h = (let (p, L, h) = start_step e (p, L, h) in (Starter e p, L, h))"
| "worker_step (Stopper p) L h = (let (p, L, h) = stop_step (p, L, h) in (Stopper p, L, h))"

definition turn :: "nat \<Rightarrow> listening \<Rightarrow> listening" where
  "turn i s =
     (if i < length (lp_workers s)
      then (let (w, L, h) = worker_step (lp_workers s ! i) (lp_obj s) (lp_hist s)
            in s\<lparr>lp_obj := L, lp_hist := h, lp_workers := (lp_workers s)[i := w]\<rparr>)
      else s)"

definition turns :: "nat list \<Rightarrow> listening \<Rightarrow> listening" where
  "turns is s = fold turn is s"

lemma turns_simps [simp]: "turns [] s = s" "turns (i # is) s = turns is (turn i s)"
  by (simp_all add: turns_def)

lemma turns_append: "turns (is @ js) s = turns js (turns is s)"
  by (simp add: turns_def)

section \<open>A stop that comes after the start has set its flag\<close>

fun armed :: "phase \<Rightarrow> bool" where
  "armed Open = False"
| "armed (Arm a) = False"
| "armed p = True"

fun all_armed :: "worker \<Rightarrow> bool" where
  "all_armed (Starter e p) = armed p"
| "all_armed (Stopper p) = True"

text \<open>How many steps a start makes at most once the flag is cleared.\<close>

fun steps_left :: "phase \<Rightarrow> nat" where
  "steps_left (Ended r) = 0"
| "steps_left (Loop T) = 1"
| "steps_left (Check T) = 1"
| "steps_left (Accept T) = 2"
| "steps_left (ULoop a T) = 1"
| "steps_left (UCheck a T) = 1"
| "steps_left (Receive a T) = 2"
| "steps_left (Unblock T) = 2"
| "steps_left (Listen T) = 3"
| "steps_left (Bound a err n T) = 4"
| "steps_left (Bind a n T) = 5"
| "steps_left (Reuse a T) = 6"
| "steps_left (Arm a) = 7"
| "steps_left Open = 8"

fun at_call :: "phase \<Rightarrow> nat" where
  "at_call (Accept T) = 1"
| "at_call (Receive a T) = 1"
| "at_call p = 0"

definition waiting :: "worker list \<Rightarrow> nat" where
  "waiting ws = sum_list (map (\<lambda>w. case w of Starter e p \<Rightarrow> at_call p | Stopper p \<Rightarrow> 0) ws)"

lemma rounds_quiet [simp]:
  "rounds (ncThread_destroy c T h) = rounds h" "rounds (ncSetSocketNonBlocking K c fd h) = rounds h"
  by (simp_all add: ncThread_destroy_def ncSetSocketNonBlocking_defs Let_def)

lemma after_bind_cleared:
  assumes "after_bind e T L h = (p, L', h')"
  shows "L' = L \<and> armed p \<and> steps_left p \<le> 3 \<and> at_call p = 0 \<and> rounds h' = rounds h"
  using assms by (auto simp: after_bind_def leave_start_def split: if_splits)

lemma cleared_step:
  assumes "start_step e (p, L, h) = (p', L', h')" "armed p" "ls_listening L = 0"
  shows "ls_listening L' = 0 \<and> armed p' \<and> steps_left p' \<le> steps_left p - 1 \<and> at_call p' = 0 \<and>
    rounds h' \<le> rounds h + at_call p"
proof (cases p)
  case (Accept T)
  with assms serve_client_accepts [where l = 0] show ?thesis
    by (auto simp: leave_start_def Let_def split: if_splits option.splits prod.splits)
next
  case (Bind a n T)
  with assms after_bind_cleared show ?thesis by (fastforce simp: Let_def split: if_splits)
next
  case (Bound a err n T)
  with assms after_bind_cleared show ?thesis by fastforce
next
  case (Receive a T)
  with assms show ?thesis
    by (auto simp: leave_start_def k_recvfrom_def Let_def split: if_splits sum.splits prod.splits)
qed (use assms in \<open>auto simp: leave_start_def set_reuse_def Let_def split: if_splits prod.splits\<close>)

definition work_left :: "nat \<Rightarrow> listening \<Rightarrow> nat" where
  "work_left i s = (case lp_workers s ! i of Starter e p \<Rightarrow> steps_left p | Stopper p \<Rightarrow> 0)"

text \<open>The flag is down and every start has been past setting it.\<close>

definition winding_down :: "listening \<Rightarrow> bool" where
  "winding_down s \<longleftrightarrow> ls_listening (lp_obj s) = 0 \<and> list_all all_armed (lp_workers s)"

lemma waiting_update:
  "i < length ws \<Longrightarrow> waiting (ws[i := w]) + waiting [ws ! i] = waiting ws + waiting [w]"
proof (induction ws arbitrary: i)
  case (Cons v ws)
  then show ?case by (cases i) (auto simp: waiting_def)
qed simp

lemma worker_cleared:
  assumes "worker_step w L h = (w', L', h')" "all_armed w" "ls_listening L = 0"
  shows "ls_listening L' = 0 \<and> all_armed w' \<and> rounds h' + waiting [w'] \<le> rounds h + waiting [w]"
proof (cases w)
  case (Starter e p)
  obtain q M g where "start_step e (p, L, h) = (q, M, g)" by (metis prod_cases3)
  with assms Starter cleared_step [OF this] show ?thesis by (auto simp: waiting_def)
next
  case (Stopper p)
  with assms show ?thesis by (cases p) (auto simp: waiting_def split: if_splits)
qed

lemma turn_winding_down:
  assumes "winding_down s"
  shows "winding_down (turn i s) \<and>
    rounds (lp_hist (turn i s)) + waiting (lp_workers (turn i s)) \<le> rounds (lp_hist s) + waiting (lp_workers s) \<and>
    length (lp_workers (turn i s)) = length (lp_workers s) \<and>
    (\<forall>j < length (lp_workers s). work_left j (turn i s) \<le> work_left j s - (if i = j then 1 else 0))"
proof (cases "i < length (lp_workers s)")
  case True
  let ?w = "lp_workers s ! i"
  obtain w' L' h' where st: "worker_step ?w (lp_obj s) (lp_hist s) = (w', L', h')" by (metis prod_cases3)
  have armed: "all_armed ?w" "ls_listening (lp_obj s) = 0" "list_all all_armed (lp_workers s)"
    using assms True by (auto simp: winding_down_def list_all_length)
  note c = worker_cleared [OF st armed(1,2)]
  have t: "turn i s = s\<lparr>lp_obj := L', lp_hist := h', lp_workers := (lp_workers s)[i := w']\<rparr>"
    by (simp add: turn_def True st)
  have "list_all all_armed ((lp_workers s)[i := w'])"
    using armed(3) c set_update_subset_insert [of "lp_workers s" i w'] by (auto simp: list_all_iff)
  moreover have "(case w' of Starter e p \<Rightarrow> steps_left p | Stopper p \<Rightarrow> 0) \<le> work_left i s - 1"
  proof (cases ?w)
    case (Starter e p)
    obtain q M g where q: "start_step e (p, lp_obj s, lp_hist s) = (q, M, g)" by (metis prod_cases3)
    with cleared_step [OF q] armed(1,2) Starter st show ?thesis by (auto simp: work_left_def)
  next
    case (Stopper p)
    with st show ?thesis by (auto split: prod.splits)
  qed
  ultimately show ?thesis
    using c waiting_update [OF True, of w'] True
    by (auto simp: t winding_down_def work_left_def nth_list_update)
qed (use assms in \<open>simp add: turn_def\<close>)

lemma turns_winding_down:
  assumes "winding_down s"
  shows "winding_down (turns is s) \<and>
    rounds (lp_hist (turns is s)) + waiting (lp_workers (turns is s)) \<le> rounds (lp_hist s) + waiting (lp_workers s) \<and>
    (\<forall>j < length (lp_workers s). work_left j (turns is s) \<le> work_left j s - count_list is j)"
  using assms
proof (induction "is" arbitrary: s)
  case (Cons i "is")
  note t = turn_winding_down [OF Cons.prems, of i]
  then have "winding_down (turn i s)" by blast
  note IH = Cons.IH [OF this]
  have "work_left j (turns is (turn i s)) \<le> work_left j s - count_list (i # is) j"
    if "j < length (lp_workers s)" for j
  proof -
    have "work_left j (turns is (turn i s)) \<le> work_left j (turn i s) - count_list is j"
      and "work_left j (turn i s) \<le> work_left j s - (if i = j then 1 else 0)"
      using IH t that by simp_all
    then show ?thesis by (auto split: if_splits)
  qed
  with IH t show ?case by fastforce
qed simp

lemma work_left_0: "lp_workers s ! i = Starter e p \<Longrightarrow> work_left i s = 0 \<longleftrightarrow> (\<exists>r. p = Ended r)"
  by (cases p) (simp_all add: work_left_def)

text \<open>A thread goes on with the call it has started.\<close>

lemma turn_same_call:
  "i < length (lp_workers s) \<Longrightarrow> lp_workers s ! i = Starter e p \<Longrightarrow>
    \<exists>q. lp_workers (turn j s) ! i = Starter e q \<and> i < length (lp_workers (turn j s))"
  by (cases "lp_workers s ! j") (auto simp: turn_def nth_list_update split: prod.splits)

lemma turns_same_call:
  "i < length (lp_workers s) \<Longrightarrow> lp_workers s ! i = Starter e p \<Longrightarrow>
    \<exists>q. lp_workers (turns is s) ! i = Starter e q"
proof (induction "is" arbitrary: s p)
  case (Cons j "is")
  from turn_same_call [OF Cons.prems, of j] Cons.IH show ?case by auto
qed simp

section \<open>Stretches of a schedule\<close>

lemma turns_starter:
  assumes "i < length (lp_workers s)" "lp_workers s ! i = Starter e p"
    and "(start_step e ^^ k) (p, lp_obj s, lp_hist s) = (q, L, h)"
  shows "turns (replicate k i) s = s\<lparr>lp_obj := L, lp_hist := h, lp_workers := (lp_workers s)[i := Starter e q]\<rparr>"
  using assms
proof (induction k arbitrary: s p)
  case 0
  then have "(lp_workers s)[i := Starter e q] = lp_workers s" by (metis fst_conv funpow_0 list_update_id)
  with 0 show ?case by simp
next
  case (Suc k)
  obtain p1 L1 h1 where st: "start_step e (p, lp_obj s, lp_hist s) = (p1, L1, h1)" by (metis prod_cases3)
  have t: "turn i s = s\<lparr>lp_obj := L1, lp_hist := h1, lp_workers := (lp_workers s)[i := Starter e p1]\<rparr>"
    using Suc.prems(1,2) st by (simp add: turn_def)
  have "(start_step e ^^ k) (p1, L1, h1) = (q, L, h)"
    using Suc.prems(3) unfolding funpow_Suc_right comp_apply st .
  then have "turns (replicate k i) (turn i s) =
      (turn i s)\<lparr>lp_obj := L, lp_hist := h, lp_workers := (lp_workers (turn i s))[i := Starter e q]\<rparr>"
    using Suc.prems(1) by (intro Suc.IH [of _ p1]) (simp_all add: t)
  then show ?case by (simp add: t)
qed

lemma turns_stopper:
  assumes "i < length (lp_workers s)" "lp_workers s ! i = Stopper Before"
    "stopListening (lp_obj s) (lp_hist s) = (L, h)"
  shows "turns [i, i, i, i] s = s\<lparr>lp_obj := L, lp_hist := h, lp_workers := (lp_workers s)[i := Stopper After]\<rparr>"
  using assms by (auto simp: turn_def stopListening_def Let_def split: if_splits)

abbreviation at :: "ncSocketListener \<Rightarrow> hist \<Rightarrow> worker list \<Rightarrow> listening" where
  "at L h ws \<equiv> \<lparr>lp_obj = L, lp_hist = h, lp_workers = ws\<rparr>"

lemma starter_runs:
  "(start_step e ^^ k) (p, L, h) = (q, L', h') \<Longrightarrow> i < length ws \<Longrightarrow> ws ! i = Starter e p \<Longrightarrow>
    turns (replicate k i) (at L h ws) = at L' h' (ws[i := Starter e q])"
  by (subst turns_starter [where s = "at L h ws"]) simp_all

lemma stopper_runs:
  "stopListening L h = (L', h') \<Longrightarrow> i < length ws \<Longrightarrow> ws ! i = Stopper Before \<Longrightarrow>
    turns [i, i, i, i] (at L h ws) = at L' h' (ws[i := Stopper After])"
  by (subst turns_stopper [where s = "at L h ws"]) simp_all

text \<open>A call and a system for which a start of a TCP listener gets as far as its first \<open>accept\<close>.\<close>

definition start_works :: "senv \<Rightarrow> ncSocketListener \<Rightarrow> bool" where
  "start_works e L \<longleftrightarrow> \<not> bad_args (se_fnptr e) (se_option e) (se_flags e) \<and> se_flags e AND NC_REUSEADDR = 0 \<and>
     ls_socktype L = SOCKTYPE_TCPIP \<and> (\<forall>h k. os_socket (se_os e) h k \<noteq> 0) \<and>
     (\<forall>h fd a. fd \<noteq> 0 \<longrightarrow> os_bind (se_os e) h fd a \<noteq> -1) \<and>
     (\<forall>h fd b. fd \<noteq> 0 \<longrightarrow> os_listen (se_os e) h fd b \<noteq> -1)"

lemma opening_step:
  assumes "start_works e L"
  shows "\<exists>fd. fd \<noteq> 0 \<and> start_step e (Open, L, h) =
    (Arm (listen_address (se_cfg e) (ls_port L)), L\<lparr>ls_sockfd := fd\<rparr>, SysSocket SOCK_STREAM fd # h)"
  using assms by (auto simp: start_works_def Let_def)

lemma arming_steps:
  assumes "start_works e L" "ls_socktype M = SOCKTYPE_TCPIP" "ls_sockfd M \<noteq> 0"
  shows "\<exists>T h'. (start_step e ^^ 6) (Arm a, M, h) = (Accept T, M\<lparr>ls_listening := 1\<rparr>, h')"
proof -
  obtain T g where T: "ncThread_init (se_cfg e) (se_thread e) h = (T, g)" by fastforce
  with assms show ?thesis by (simp add: start_works_def numeral_nat set_reuse_def after_bind_def)
qed

text \<open>A start that is past its first step binds whatever descriptor it then finds in the object.\<close>

lemma binding_steps:
  assumes "se_flags e AND NC_REUSEADDR = 0"
  shows "\<exists>p h'. (start_step e ^^ 3) (Arm a, M, h) = (p, M\<lparr>ls_listening := 1\<rparr>, h') \<and> set h \<subseteq> set h' \<and>
    (\<exists>r. SysBind (ls_sockfd M) a r \<in> set h')"
proof -
  obtain T g where T: "ncThread_init (se_cfg e) (se_thread e) h = (T, g)" by fastforce
  then have g: "set h \<subseteq> set g" by (auto simp: ncThread_init_def split: if_splits)
  have d: "set k \<subseteq> set (ncThread_destroy c U k)" for c U k
    by (auto simp: ncThread_destroy_def)
  show ?thesis
    using assms T g d
    by (fastforce simp: numeral_3_eq_3 set_reuse_def after_bind_def leave_start_def Let_def)
qed

lemma start_run:
  assumes "start_works e L"
  shows "\<exists>T fd h'. fd \<noteq> 0 \<and> (start_step e ^^ 7) (Open, L, h) =
    (Accept T, L\<lparr>ls_sockfd := fd, ls_listening := 1\<rparr>, h')"
proof -
  obtain fd where fd: "fd \<noteq> 0" "start_step e (Open, L, h) =
      (Arm (listen_address (se_cfg e) (ls_port L)), L\<lparr>ls_sockfd := fd\<rparr>, SysSocket SOCK_STREAM fd # h)"
    using opening_step [OF assms] by blast
  have "ls_socktype (L\<lparr>ls_sockfd := fd\<rparr>) = SOCKTYPE_TCPIP" using assms by (simp add: start_works_def)
  from arming_steps [OF assms this] fd(1) obtain T h' where
    "(start_step e ^^ 6) (start_step e (Open, L, h)) = (Accept T, L\<lparr>ls_sockfd := fd, ls_listening := 1\<rparr>, h')"
    unfolding fd(2) by fastforce
  then have "(start_step e ^^ Suc 6) (Open, L, h) = (Accept T, L\<lparr>ls_sockfd := fd, ls_listening := 1\<rparr>, h')"
    unfolding funpow_Suc_right comp_apply .
  with fd(1) show ?thesis by auto
qed

lemma start_works_again: "start_works e L \<Longrightarrow> ls_socktype M = ls_socktype L \<Longrightarrow> start_works e M"
  by (simp add: start_works_def)

text \<open>A server that calls back for its client in its own thread is busy until the callback returns.\<close>

definition busy_server :: "senv \<Rightarrow> bool" where
  "busy_server e \<longleftrightarrow> se_option e = NC_NONTHREADED \<and> (\<forall>h. os_new (se_os e) h) \<and>
     (\<forall>h fd. fst (os_accept (se_os e) h fd) \<noteq> -1)"

lemma accept_nonthreaded:
  assumes "busy_server e"
  shows "\<exists>h'. start_step e (Accept T, L, h) = (Check T, L, h')"
proof -
  obtain fd a where acc: "os_accept (se_os e) h (ls_sockfd L) = (fd, a)" by fastforce
  with assms have "fd \<noteq> -1" unfolding busy_server_def by (metis fst_conv)
  with acc assms show ?thesis by (simp add: busy_server_def serve_client_def Let_def nc_defs)
qed

section \<open>Properties\<close>

text \<open>
  C24: once a stop has cleared the flag and every start has been past setting it, any start returns
  after at most six further steps of its own, whatever the other threads do and in any order, and
  among all the threads only those that have already passed the test of the flag make one more call
  of \<open>accept\<close> or \<open>recvfrom\<close>.
\<close>

theorem armed_stop_returns:
  assumes "ls_listening (lp_obj s) = 0" "list_all all_armed (lp_workers s)"
    and "i < length (lp_workers s)" "lp_workers s ! i = Starter e p" "6 \<le> count_list is i"
  shows "\<exists>r. lp_workers (turns is s) ! i = Starter e (Ended r) \<and>
    rounds (lp_hist (turns is s)) \<le> rounds (lp_hist s) + waiting (lp_workers s)"
proof -
  have "winding_down s" using assms(1,2) by (simp add: winding_down_def)
  note t = turns_winding_down [OF this, of "is"]
  obtain q where q: "lp_workers (turns is s) ! i = Starter e q"
    using turns_same_call [OF assms(3,4)] by blast
  have "armed p" using assms(2-4) by (auto simp: list_all_length)
  then have "work_left i s \<le> 6" using assms(4) by (cases p) (simp_all add: work_left_def)
  moreover have "work_left i (turns is s) \<le> work_left i s - count_list is i" using t assms(3) by blast
  ultimately have "work_left i (turns is s) = 0" using assms(5) by linarith
  with work_left_0 [OF q] q t show ?thesis by auto
qed

text \<open>
  C36: a stop that comes after the start has opened its socket and before it has set the flag is
  lost, and worse: \<open>stopListening\<close> closes the socket and returns, and the start, which has been
  told nothing, sets the flag and calls \<open>bind\<close> on descriptor 0, which belongs to somebody else.
  This needs no more than valid arguments without \<open>NC_REUSEADDR\<close> and a \<open>socket\<close> call that does not
  return 0; what \<open>bind\<close> then makes of descriptor 0 is left open.
\<close>

theorem early_stop_descriptor_0:
  assumes "\<not> bad_args (se_fnptr e) (se_option e) (se_flags e)" "se_flags e AND NC_REUSEADDR = 0"
    and "\<forall>k. os_socket (se_os e) h k \<noteq> 0"
  shows "\<exists>fd p r s. s = turns ([0] @ [1, 1, 1, 1] @ [0, 0, 0])
      \<lparr>lp_obj = L, lp_hist = h, lp_workers = [Starter e Open, Stopper Before]\<rparr> \<and>
    lp_workers s = [Starter e p, Stopper After] \<and> ls_listening (lp_obj s) = 1 \<and>
    ls_sockfd (lp_obj s) = 0 \<and> fd \<noteq> 0 \<and> SysClose fd \<in> set (lp_hist s) \<and>
    SysBind 0 (listen_address (se_cfg e) (ls_port L)) r \<in> set (lp_hist s)"
proof -
  let ?a = "listen_address (se_cfg e) (ls_port L)"
  define kind where "kind = (if ls_socktype L = SOCKTYPE_TCPIP then SOCK_STREAM else SOCK_DGRAM)"
  define fd where "fd = os_socket (se_os e) h kind"
  define L1 where "L1 = L\<lparr>ls_sockfd := fd\<rparr>"
  define h1 where "h1 = SysSocket kind fd # h"
  have fd: "fd \<noteq> 0" using assms(3) by (simp add: fd_def)
  then have 1: "(start_step e ^^ 1) (Open, L, h) = (Arm ?a, L1, h1)"
    using assms(1) by (simp add: L1_def h1_def Let_def flip: kind_def fd_def)
  obtain L2 h2 where stop: "stopListening L1 h1 = (L2, h2)" by fastforce
  have L2: "ls_sockfd L2 = 0" "SysClose fd \<in> set h2"
    using stop fd by (auto simp: stopListening_def L1_def Let_def)
  from binding_steps [OF assms(2), of ?a L2 h2] obtain p h3 r where
    3: "(start_step e ^^ 3) (Arm ?a, L2, h2) = (p, L2\<lparr>ls_listening := 1\<rparr>, h3)" "set h2 \<subseteq> set h3"
    "SysBind 0 ?a r \<in> set h3" using L2(1) by auto
  note runs = starter_runs [OF 1, of 0 "[Starter e Open, Stopper Before]"]
    stopper_runs [OF stop, of 1 "[Starter e (Arm ?a), Stopper Before]"]
    starter_runs [OF 3(1), of 0 "[Starter e (Arm ?a), Stopper After]"]
  have "turns (replicate 1 0 @ [1, 1, 1, 1] @ replicate 3 0) (at L h [Starter e Open, Stopper Before]) =
      at (L2\<lparr>ls_listening := 1\<rparr>) h3 [Starter e p, Stopper After]"
    unfolding turns_append using runs by simp
  then have "turns ([0] @ [1, 1, 1, 1] @ [0, 0, 0]) (at L h [Starter e Open, Stopper Before]) =
      at (L2\<lparr>ls_listening := 1\<rparr>) h3 [Starter e p, Stopper After]"
    by (simp add: numeral_3_eq_3)
  with 3 L2 fd show ?thesis by (intro exI [of _ fd] exI [of _ p] exI [of _ r]) auto
qed

text \<open>
  C37: a listener that is started again while the server of its first start is still in a callback
  has two servers: \<open>stopListening\<close> has returned, the second start sets the flag and opens a new
  socket, the first server finds the flag set when its callback returns, and both call \<open>accept\<close>
  on the second's descriptor.
\<close>

theorem restart_revives_server:
  assumes "start_works e L" "start_works e' L" "busy_server e"
  shows "\<exists>T T' fd h'. fd \<noteq> 0 \<and>
    turns (replicate 8 0 @ [1, 1, 1, 1] @ replicate 7 2 @ replicate 2 0)
      \<lparr>lp_obj = L, lp_hist = h, lp_workers = [Starter e Open, Stopper Before, Starter e' Open]\<rparr> =
    \<lparr>lp_obj = L\<lparr>ls_sockfd := fd, ls_listening := 1\<rparr>, lp_hist = h',
     lp_workers = [Starter e (Accept T), Stopper After, Starter e' (Accept T')]\<rparr>"
proof -
  obtain T fd1 h1 where fd1: "fd1 \<noteq> 0"
    "(start_step e ^^ 7) (Open, L, h) = (Accept T, L\<lparr>ls_sockfd := fd1, ls_listening := 1\<rparr>, h1)"
    using start_run [OF assms(1)] by blast
  define L1 where "L1 = L\<lparr>ls_sockfd := fd1, ls_listening := 1\<rparr>"
  obtain h2 where "start_step e (Accept T, L1, h1) = (Check T, L1, h2)"
    using accept_nonthreaded [OF assms(3)] by blast
  with fd1(2) have 1: "(start_step e ^^ 8) (Open, L, h) = (Check T, L1, h2)"
    using funpow.simps(2) [of 7 "start_step e"] by (simp add: L1_def)
  define L2 where "L2 = L\<lparr>ls_sockfd := 0, ls_listening := 0\<rparr>"
  obtain h3 where 2: "stopListening L1 h2 = (L2, h3)"
    using fd1(1) by (simp add: stopListening_def L1_def L2_def Let_def)
  have "start_works e' L2" by (rule start_works_again [OF assms(2)]) (simp add: L2_def)
  then obtain T' fd h4 where fd: "fd \<noteq> 0"
    and 3: "(start_step e' ^^ 7) (Open, L2, h3) = (Accept T', L2\<lparr>ls_sockfd := fd, ls_listening := 1\<rparr>, h4)"
    using start_run by blast
  let ?L3 = "L\<lparr>ls_sockfd := fd, ls_listening := 1\<rparr>"
  have L3: "L2\<lparr>ls_sockfd := fd, ls_listening := 1\<rparr> = ?L3" by (simp add: L2_def)
  have 4: "(start_step e ^^ 2) (Check T, ?L3, h4) = (Accept T, ?L3, h4)" by (simp add: numeral_2_eq_2)
  note runs = starter_runs [OF 1, of 0 "[Starter e Open, Stopper Before, Starter e' Open]"]
    stopper_runs [OF 2, of 1 "[Starter e (Check T), Stopper Before, Starter e' Open]"]
    starter_runs [OF 3 [unfolded L3], of 2 "[Starter e (Check T), Stopper After, Starter e' Open]"]
    starter_runs [OF 4, of 0 "[Starter e (Check T), Stopper After, Starter e' (Accept T')]"]
  have "turns (replicate 8 0 @ [1, 1, 1, 1] @ replicate 7 2 @ replicate 2 0)
      (at L h [Starter e Open, Stopper Before, Starter e' Open]) =
    at ?L3 h4 [Starter e (Accept T), Stopper After, Starter e' (Accept T')]"
    unfolding turns_append using runs by simp
  with fd show ?thesis by blast
qed

section \<open>A system on which every start works\<close>

definition willing_os :: os where
  "willing_os = dead_os\<lparr>os_socket := \<lambda>h k. 5, os_bind := \<lambda>h fd a. if fd = 0 then -1 else 0, os_listen := \<lambda>h fd b. if fd = 0 then -1 else 0,
     os_accept := \<lambda>h fd. (9, zero_sockaddr)\<rparr>"

lemma plain_start_works:
  "start_works (plain_call willing_os) (ncSocketListener_init 80 SOCKTYPE_TCPIP)" "busy_server (plain_call willing_os)"
  by (simp_all add: start_works_def busy_server_def plain_call_def willing_os_def bad_args_def
      ncSocketListener_init_def dead_os_def nc_defs)

theorem early_stop_descriptor_0_witness:
  "let e = plain_call willing_os; L = ncSocketListener_init 80 SOCKTYPE_TCPIP in
   \<exists>fd p r s. s = turns ([0] @ [1, 1, 1, 1] @ [0, 0, 0])
      \<lparr>lp_obj = L, lp_hist = [], lp_workers = [Starter e Open, Stopper Before]\<rparr> \<and>
    lp_workers s = [Starter e p, Stopper After] \<and> ls_listening (lp_obj s) = 1 \<and>
    ls_sockfd (lp_obj s) = 0 \<and> fd \<noteq> 0 \<and> SysClose fd \<in> set (lp_hist s) \<and>
    SysBind 0 (listen_address (se_cfg e) (ls_port L)) r \<in> set (lp_hist s)"
  unfolding Let_def
  by (rule early_stop_descriptor_0)
    (simp_all add: plain_call_def willing_os_def bad_args_def dead_os_def nc_defs)

theorem restart_revives_server_witness:
  "let e = plain_call willing_os; L = ncSocketListener_init 80 SOCKTYPE_TCPIP in
   \<exists>T T' fd h'. fd \<noteq> 0 \<and>
    turns (replicate 8 0 @ [1, 1, 1, 1] @ replicate 7 2 @ replicate 2 0)
      \<lparr>lp_obj = L, lp_hist = [], lp_workers = [Starter e Open, Stopper Before, Starter e Open]\<rparr> =
    \<lparr>lp_obj = L\<lparr>ls_sockfd := fd, ls_listening := 1\<rparr>, lp_hist = h',
     lp_workers = [Starter e (Accept T), Stopper After, Starter e (Accept T')]\<rparr>"
  unfolding Let_def by (rule restart_revives_server [OF plain_start_works(1) plain_start_works])

text \<open>Two servers at \<open>accept\<close>, one of them past the test of the flag, when the listener is stopped.\<close>

theorem armed_stop_returns_witness:
  "let e = plain_call willing_os; T = se_thread e;
     s = \<lparr>lp_obj = ncSocketListener_init 80 SOCKTYPE_TCPIP, lp_hist = [],
       lp_workers = [Starter e (Accept T), Stopper Cleared, Starter e (Check T)]\<rparr>;
     is = [0, 1, 2, 1, 0, 0, 0, 0, 0]
   in \<exists>r. lp_workers (turns is s) ! 0 = Starter e (Ended r) \<and>
     rounds (lp_hist (turns is s)) \<le> rounds (lp_hist s) + waiting (lp_workers s)"
  unfolding Let_def
  by (rule armed_stop_returns) (simp_all add: ncSocketListener_init_def)

end
