(* ===== verification/Nc_Listener_Life.thy ===== *)
theory Nc_Listener_Life
  imports Nc_Start_Race "HOL-Library.Multiset"
begin

text \<open>
  The life of an \<^verbatim>\<open>ncSocketListener\<close> object, used as its interface has it: one thread is in
  \<open>startListening\<close> while another calls \<open>stopListening\<close>, and the object is started again only when
  both have returned. \<open>opened\<close> and \<open>closes\<close> are the descriptors \<open>socket\<close> returned and those that
  were closed; \<open>dropped\<close> are the clients whose thread could not be started, the only other
  descriptors a listener closes.
\<close>

section \<open>The ledger of descriptors\<close>

primrec opened :: "hist \<Rightarrow> fd list" where
  "opened [] = []"
| "opened (e # h) =
     (case e of SysSocket k fd \<Rightarrow> opened h @ (if fd = 0 \<or> fd = -1 then [] else [fd]) | _ \<Rightarrow> opened h)"

primrec dropped :: "config \<Rightarrow> hist \<Rightarrow> fd list" where
  "dropped c [] = []"
| "dropped c (e # h) =
     (case e of ThreadCreate (CbSocket S) r t \<Rightarrow>
        dropped c h @ (if thread_ran c r t \<or> \<not> fd_positive c (m_sockfd S) \<or> m_sockfd S = -1
          then [] else [m_sockfd S])
      | _ \<Rightarrow> dropped c h)"

text \<open>Between \<open>h\<close> and \<open>h'\<close> nothing was opened, and only dropped clients were closed.\<close>

definition ledger :: "config \<Rightarrow> hist \<Rightarrow> hist \<Rightarrow> bool" where
  "ledger c h h' \<longleftrightarrow> opened h' = opened h \<and>
     (\<exists>ds. closes h' = closes h @ ds \<and> dropped c h' = dropped c h @ ds)"

lemma ledger_refl [simp, intro]: "ledger c h h"
  by (simp add: ledger_def)

lemma ledger_trans: "ledger c h g \<Longrightarrow> ledger c g k \<Longrightarrow> ledger c h k"
  by (auto simp: ledger_def)

fun neutral_call :: "call \<Rightarrow> bool" where
  "neutral_call (SysSocket k fd) = False"
| "neutral_call (SysClose fd) = False"
| "neutral_call (SysFclose f) = False"
| "neutral_call (ThreadCreate a r t) = False"
| "neutral_call e = True"

lemma ledger_call [simp]: "neutral_call e \<Longrightarrow> ledger c h g \<Longrightarrow> ledger c h (e # g)"
  by (cases e) (auto simp: ledger_def)

lemma ledger_client:
  assumes "serve_client K c option flags fd a T h = (out, T', h')"
  shows "ledger c h h'"
  using assms
  by (auto simp: serve_client_def serve_threaded_def ncThread_start_alt ncThread_detach_alt
      ncThread_join_alt ncSocket_destroy_def setIpAddr_def ncSocket_of_fd_def ledger_def thread_ran_def
      Let_def split: if_splits prod.splits)

lemma ledger_nonblocking: "ledger c h (ncSetSocketNonBlocking K c fd h)"
  by (simp add: ncSetSocketNonBlocking_defs Let_def)

lemma ledger_thread:
  "ncThread_init c T h = (T', h') \<Longrightarrow> ledger c h h'" "ledger c h (ncThread_destroy c T h)"
  by (auto simp: ncThread_init_def ncThread_destroy_def split: if_splits)

text \<open>The descriptor a listener holds: 0 and -1 stand for none.\<close>

definition fd_list :: "fd \<Rightarrow> fd list" where
  "fd_list fd = (if fd = 0 \<or> fd = -1 then [] else [fd])"

section \<open>A step of startListening\<close>

text \<open>After its first step a start leaves the descriptor alone, and the books as they are.\<close>

lemma ledger_reuse: "set_reuse K flags L h = (failed, h') \<Longrightarrow> ledger c h h'"
  by (auto simp: set_reuse_def Let_def split: if_splits)

lemma ledger_leave: "leave_start e r T L h = (p, L', h') \<Longrightarrow> p = Ended r \<and> L' = L \<and> ledger (se_cfg e) h h'"
  by (auto simp: leave_start_def ledger_thread)

lemma ledger_after_bind: "after_bind e T L h = (p, L', h') \<Longrightarrow> p \<noteq> Open \<and> L' = L \<and> ledger (se_cfg e) h h'"
  by (auto simp: after_bind_def dest: ledger_leave split: if_splits)

definition keeps_books :: "config \<Rightarrow> config3 \<Rightarrow> config3 \<Rightarrow> bool" where
  "keeps_books c x y \<longleftrightarrow> (let (p, L, h) = x; (p', L', h') = y in
     p' \<noteq> Open \<and> ls_sockfd L' = ls_sockfd L \<and> ledger c h h')"

lemma start_step_books:
  assumes "start_step e (p, L, h) = (p', L', h')" "p \<noteq> Open"
  shows "keeps_books (se_cfg e) (p, L, h) (p', L', h')"
proof -
  have call: "keeps_books (se_cfg e) (p, L, h) (p', L', h')"
    if "neutral_call a" "ledger (se_cfg e) (a # h) h'" "p' \<noteq> Open" "ls_sockfd L' = ls_sockfd L" for a
    using that ledger_trans [of "se_cfg e" h "a # h" h'] by (simp add: keeps_books_def)
  show ?thesis
  proof (cases p)
    case (Arm a)
    with assms show ?thesis by (auto simp: keeps_books_def ledger_thread split: prod.splits)
  next
    case (Reuse a T)
    obtain failed g where r: "set_reuse (se_os e) (se_flags e) L h = (failed, g)" by fastforce
    with Reuse assms have "p' \<noteq> Open" "ls_sockfd L' = ls_sockfd L" "ledger (se_cfg e) g h'"
      by (auto dest: ledger_leave split: if_splits)
    with ledger_trans [OF ledger_reuse [OF r]] Reuse show ?thesis by (simp add: keeps_books_def)
  next
    case (Bind a n T)
    let ?a = "SysBind (ls_sockfd L) a (os_bind (se_os e) h (ls_sockfd L) a)"
    from Bind assms(1) have "p' \<noteq> Open \<and> L' = L \<and> ledger (se_cfg e) (?a # h) h'"
      by (auto simp: Let_def dest: ledger_after_bind split: if_splits)
    then show ?thesis by (intro call [of ?a]) simp_all
  next
    case (Bound a err n T)
    with assms(1) have "p' \<noteq> Open \<and> L' = L \<and> ledger (se_cfg e) h h'"
      using ledger_call [of "SysSleep ((n + 1) * 1000)" "se_cfg e" h h]
      by (auto dest: ledger_leave ledger_after_bind split: if_splits)
    then show ?thesis by (simp add: keeps_books_def)
  next
    case (Listen T)
    let ?a = "SysListen (ls_sockfd L) (ls_backlog L) (os_listen (se_os e) h (ls_sockfd L) (ls_backlog L))"
    from Listen assms(1) have "p' \<noteq> Open \<and> L' = L \<and> ledger (se_cfg e) (?a # h) h'"
      by (auto simp: Let_def dest: ledger_leave split: if_splits)
    then show ?thesis by (intro call [of ?a]) simp_all
  next
    case (Unblock T)
    with assms show ?thesis by (auto simp: keeps_books_def ledger_nonblocking)
  next
    case (Accept T)
    obtain fd a where acc: "os_accept (se_os e) h (ls_sockfd L) = (fd, a)" by fastforce
    let ?h = "SysAccept (ls_sockfd L) fd a # h"
    obtain out T1 g where c: "(if fd \<noteq> -1
        then serve_client (se_os e) (se_cfg e) (se_option e) (se_flags e) fd a T ?h
        else (None, T, SysSleep 100 # ?h)) = (out, T1, g)" by (metis prod_cases3)
    then have g: "ledger (se_cfg e) ?h g" by (auto dest: ledger_client split: if_splits)
    from Accept assms(1) acc c have "p' \<noteq> Open \<and> L' = L \<and> ledger (se_cfg e) g h'"
      by (auto dest: ledger_leave simp: Let_def split: option.splits)
    with ledger_trans [OF g] show ?thesis by (intro call [of "SysAccept (ls_sockfd L) fd a"]) simp_all
  next
    case (Receive a T)
    obtain n bs b where r: "os_recvfrom (se_os e) h (ls_sockfd L) MAX_DGRAM_BUF_LEN = (n, bs, b)"
      by (metis prod_cases3)
    let ?a = "SysRecvfrom (ls_sockfd L) MAX_DGRAM_BUF_LEN n bs b"
    from Receive assms(1) r have "p' \<noteq> Open \<and> L' = L \<and> ledger (se_cfg e) (?a # h) h'"
      by (auto simp: k_recvfrom_def Let_def dest: ledger_leave split: sum.splits)
    then show ?thesis by (intro call [of ?a]) simp_all
  qed (use assms in \<open>auto simp: keeps_books_def dest!: ledger_leave split: if_splits\<close>)
qed

section \<open>One session\<close>

text \<open>The books balance: what was opened has been closed or is held, and so for the clients.\<close>

definition balanced :: "config \<Rightarrow> fd list \<Rightarrow> hist \<Rightarrow> bool" where
  "balanced c fds h \<longleftrightarrow> mset (closes h) + mset fds = mset (opened h) + mset (dropped c h)"

lemma balanced_ledger: "ledger c h h' \<Longrightarrow> balanced c fds h \<Longrightarrow> balanced c fds h'"
  by (auto simp: balanced_def ledger_def ac_simps)

text \<open>What the listener holds while \<open>stopListening\<close> is at \<open>q\<close>.\<close>

definition still_open :: "stopper_pc \<Rightarrow> fd \<Rightarrow> fd list" where
  "still_open q fd = (if q \<in> {Before, Cleared, Slept} then fd_list fd else [])"

definition session_books :: "config \<Rightarrow> phase \<Rightarrow> stopper_pc \<Rightarrow> ncSocketListener \<Rightarrow> hist \<Rightarrow> bool" where
  "session_books c p q L h \<longleftrightarrow> p \<noteq> Open \<and> (q = After \<longrightarrow> ls_sockfd L = 0) \<and>
     balanced c (still_open q (ls_sockfd L)) h"

lemma open_books:
  assumes "start_step e (Open, L, h) = (p, L', h')" "ls_sockfd L = 0" "balanced c [] h"
  shows "session_books c p Before L' h'"
  using assms
  by (auto simp: session_books_def balanced_def still_open_def fd_list_def Let_def split: if_splits)

lemma start_books:
  assumes "start_step e (p, L, h) = (p', L', h')" "session_books (se_cfg e) p q L h"
  shows "session_books (se_cfg e) p' q L' h'"
  using start_step_books [OF assms(1)] assms(2) balanced_ledger
  by (auto simp: session_books_def keeps_books_def)

lemma stop_books:
  assumes "stop_step (q, L, h) = (q', L', h')" "session_books c p q L h"
  shows "session_books c p q' L' h'"
  using assms
  by (cases q) (auto simp: session_books_def balanced_def still_open_def fd_list_def split: if_splits)

definition in_session :: "senv \<Rightarrow> listening \<Rightarrow> bool" where
  "in_session e s \<longleftrightarrow> (\<exists>p q. lp_workers s = [Starter e p, Stopper q] \<and>
     session_books (se_cfg e) p q (lp_obj s) (lp_hist s))"

lemma turn_in_session:
  assumes "in_session e s"
  shows "in_session e (turn i s)"
proof -
  obtain p q where s: "lp_workers s = [Starter e p, Stopper q]"
    and b: "session_books (se_cfg e) p q (lp_obj s) (lp_hist s)" using assms by (auto simp: in_session_def)
  obtain p' L1 h1 where 1: "start_step e (p, lp_obj s, lp_hist s) = (p', L1, h1)" by (metis prod_cases3)
  obtain q' L2 h2 where 2: "stop_step (q, lp_obj s, lp_hist s) = (q', L2, h2)" by (metis prod_cases3)
  consider "i = 0" | "i = 1" | "2 \<le> i" by linarith
  then show ?thesis
    using start_books [OF 1 b] stop_books [OF 2 b] b
    by cases (auto simp: turn_def s 1 2 in_session_def)
qed

lemma turns_in_session: "in_session e s \<Longrightarrow> in_session e (turns is s)"
  by (induction "is" arbitrary: s) (simp_all add: turn_in_session)

lemma session_balanced:
  assumes "turns (0 # is) (at L h [Starter e Open, Stopper Before]) = at L' h' [Starter e p, Stopper After]"
    and "ls_sockfd L = 0" "balanced (se_cfg e) [] h"
  shows "ls_sockfd L' = 0 \<and> balanced (se_cfg e) [] h'"
proof -
  obtain p1 L1 h1 where 1: "start_step e (Open, L, h) = (p1, L1, h1)" by (metis prod_cases3)
  have t: "turn 0 (at L h [Starter e Open, Stopper Before]) = at L1 h1 [Starter e p1, Stopper Before]"
    by (simp add: turn_def 1 del: start_step.simps)
  have "in_session e (turn 0 (at L h [Starter e Open, Stopper Before]))"
    unfolding t using open_books [OF 1 assms(2,3)] by (simp add: in_session_def)
  from turns_in_session [OF this, of "is"] assms(1) have "in_session e (at L' h' [Starter e p, Stopper After])"
    by simp
  then show ?thesis by (auto simp: in_session_def session_books_def still_open_def)
qed

lemma start_alone_balanced:
  assumes "(start_step e ^^ k) (Open, L, h) = (Ended r, L', h')" "ls_sockfd L = 0" "balanced (se_cfg e) [] h"
  shows "balanced (se_cfg e) (fd_list (ls_sockfd L')) h'"
proof -
  have "case (start_step e ^^ n) (start_step e (Open, L, h)) of (p, M, g) \<Rightarrow> session_books (se_cfg e) p Before M g" for n
  proof (induction n)
    case 0
    show ?case using open_books [OF _ assms(2,3)] by (simp del: start_step.simps split: prod.split)
  next
    case (Suc n)
    then show ?case using start_books by (auto simp del: start_step.simps split: prod.splits)
  qed
  moreover obtain n where "k = Suc n" using assms(1) by (cases k) auto
  then have "(start_step e ^^ n) (start_step e (Open, L, h)) = (Ended r, L', h')"
    using assms(1) by (metis funpow_Suc_right comp_apply)
  ultimately have "session_books (se_cfg e) (Ended r) Before L' h'" by (metis case_prod_conv)
  then show ?thesis by (simp add: session_books_def still_open_def)
qed

section \<open>A life\<close>

text \<open>
  What may be done with a listener from its constructor on; the second argument says whether a
  start may have left a descriptor in the object. \<open>Session\<close>: one thread calls \<open>startListening\<close> and,
  once that has opened its socket, another calls \<open>stopListening\<close>; their steps alternate in any order
  until both have returned. \<open>Lone\<close>: a start that comes to its end without a stop.
\<close>

inductive listener_life :: "config \<Rightarrow> bool \<Rightarrow> ncSocketListener \<times> hist \<Rightarrow> bool" for c where
  New: "listener_life c False (ncSocketListener_init port ty, [])"
| Session: "listener_life c False (L, h) \<Longrightarrow> se_cfg e = c \<Longrightarrow>
     turns (0 # is) \<lparr>lp_obj = L, lp_hist = h, lp_workers = [Starter e Open, Stopper Before]\<rparr> =
       \<lparr>lp_obj = L', lp_hist = h', lp_workers = [Starter e (Ended (Inr r)), Stopper After]\<rparr> \<Longrightarrow>
     listener_life c False (L', h')"
| Lone: "listener_life c False (L, h) \<Longrightarrow> se_cfg e = c \<Longrightarrow>
     (start_step e ^^ k) (Open, L, h) = (Ended (Inr r), L', h') \<Longrightarrow> listener_life c True (L', h')"
| Stop: "listener_life c b (L, h) \<Longrightarrow> stopListening L h = (L', h') \<Longrightarrow> listener_life c False (L', h')"
| Backlog: "listener_life c b (L, h) \<Longrightarrow> listener_life c b (setBackLog n L, h)"

lemma life_balanced:
  assumes "listener_life c b s"
  shows "(b \<or> ls_sockfd (fst s) = 0) \<and> balanced c (fd_list (ls_sockfd (fst s))) (snd s)"
  using assms
proof (induction rule: listener_life.induct)
  case (New port ty)
  show ?case by (simp add: ncSocketListener_init_def balanced_def fd_list_def)
next
  case (Session L h e "is" L' h' r)
  then have "ls_sockfd L = 0" "balanced (se_cfg e) [] h" by (auto simp: fd_list_def)
  from session_balanced [OF Session(3) this] Session(2) show ?case by (simp add: fd_list_def)
next
  case (Lone L h e k r L' h')
  then have "ls_sockfd L = 0" "balanced (se_cfg e) [] h" by (auto simp: fd_list_def)
  from start_alone_balanced [OF Lone(3) this] Lone(2) show ?case by simp
next
  case (Stop b L h L' h')
  then show ?case by (auto simp: stopListening_def balanced_def fd_list_def Let_def split: if_splits)
qed (simp add: setBackLog_def)

section \<open>Property\<close>

text \<open>
  C27: over the whole life of a listener, with \<open>stopListening\<close> called by another thread while
  \<open>startListening\<close> runs, in any interleaving, every descriptor its starts opened is closed exactly
  once, by a stop or by the destructor, whatever the starts returned; besides them exactly the
  clients were closed whose thread could not be started. Required is that the object is not started
  again before it has been stopped and both calls have returned, that one stop runs at a time, and
  that it is called when the start has opened its socket.
\<close>

theorem listener_closes_once:
  assumes "listener_life c b (L, h)"
  shows "mset (closes (ncSocketListener_destroy L h)) = mset (opened h) + mset (dropped c h)"
  using life_balanced [OF assms]
  by (auto simp: balanced_def fd_list_def ncSocketListener_destroy_def split: if_splits)

text \<open>
  A start on descriptor 5 that serves a client and returns \<open>NC_OK\<close> when it is stopped meanwhile;
  then a start with bad arguments, on descriptor 6, which is left to the destructor.
\<close>

definition two_starts_os :: os where
  "two_starts_os = willing_os\<lparr>os_socket := \<lambda>h k. 5 + int (length (opened h))\<rparr>"

theorem listener_closes_once_witness:
  "\<exists>L h L1 h1 is. turns (0 # is) \<lparr>lp_obj = ncSocketListener_init 80 SOCKTYPE_TCPIP, lp_hist = [],
      lp_workers = [Starter (plain_call two_starts_os) Open, Stopper Before]\<rparr> =
    \<lparr>lp_obj = L1, lp_hist = h1, lp_workers = [Starter (plain_call two_starts_os) (Ended (Inr NC_OK)), Stopper After]\<rparr> \<and>
    listener_life linux_config True (L, h) \<and> opened h = [5, 6] \<and> handed linux_config h \<noteq> [] \<and>
    mset (closes (ncSocketListener_destroy L h)) = mset (opened h) + mset (dropped linux_config h)"
proof -
  let ?e = "plain_call two_starts_os" and ?L = "ncSocketListener_init 80 SOCKTYPE_TCPIP"
  let ?is = "[0, 0, 0, 0, 0, 0, 1, 0, 1, 1, 1, 0]"
  have e: "se_cfg ?e = linux_config" "se_cfg (?e\<lparr>se_fnptr := False\<rparr>) = linux_config"
    by (simp_all add: plain_call_def)
  obtain L1 h1 where 1: "turns (0 # ?is) (at ?L [] [Starter ?e Open, Stopper Before]) =
      at L1 h1 [Starter ?e (Ended (Inr NC_OK)), Stopper After]"
    and h1: "opened h1 = [5]" "handed linux_config h1 \<noteq> []" "ls_socktype L1 = SOCKTYPE_TCPIP"
    by (simp add: turn_def plain_call_def two_starts_os_def willing_os_def dead_os_def bad_args_def
        ncSocketListener_init_def set_reuse_def after_bind_def leave_start_def serve_client_def
        ncThread_init_def ncThread_destroy_def ncSetSocketNonBlocking_defs linux_config_def threads_def
        nc_defs Let_def)
  have l1: "listener_life linux_config False (L1, h1)"
    by (rule listener_life.Session [OF listener_life.New e(1) 1])
  obtain L h where 2: "(start_step (?e\<lparr>se_fnptr := False\<rparr>) ^^ 1) (Open, L1, h1) = (Ended (Inr NC_BADARGS), L, h)"
    and h: "h = SysSocket SOCK_STREAM 6 # h1"
    using h1 by (simp add: plain_call_def two_starts_os_def bad_args_def Let_def)
  have l: "listener_life linux_config True (L, h)" by (rule listener_life.Lone [OF l1 e(2) 2])
  from listener_closes_once [OF l] l 1 h1 h show ?thesis by fastforce
qed

end
