(* ===== verification/Nc_Init.thy ===== *)
theory Nc_Init
  imports Nc_Kernel
begin

text \<open>
  The class \<^verbatim>\<open>netClass\<close> of \<^verbatim>\<open>src/netclass.cpp\<close>: on Windows it starts and ends the use of the
  socket library, elsewhere it does nothing.
\<close>

definition netClass_destroy :: "config \<Rightarrow> hist \<Rightarrow> hist" where
  "netClass_destroy c h = (if cfg_platform c = Win32 then WsaCleanup # h else h)"

definition LOBYTE :: "16 word \<Rightarrow> byte" where "LOBYTE w = ucast w"
definition HIBYTE :: "16 word \<Rightarrow> byte" where "HIBYTE w = ucast (drop_bit 8 w)"

definition netClass_initialize :: "os \<Rightarrow> config \<Rightarrow> hist \<Rightarrow> int \<times> hist" where
  "netClass_initialize K c h =
     (if cfg_platform c = Win32
      then (let (e, wVersion) = os_wsastartup K h;
                h = WsaStartup e wVersion # h
            in if e \<noteq> 0 then (1, h)
               else if LOBYTE wVersion \<noteq> 2 \<or> HIBYTE wVersion \<noteq> 2 then (1, WsaCleanup # h)
               else (0, h))
      else (0, h))"

text \<open>How many uses of the socket library are open: starts that succeeded, less clean-ups.\<close>

primrec wsa_open :: "hist \<Rightarrow> int" where
  "wsa_open [] = 0"
| "wsa_open (c # h) =
     (case c of WsaStartup e v \<Rightarrow> wsa_open h + (if e = 0 then 1 else 0)
              | WsaCleanup \<Rightarrow> wsa_open h - 1
              | _ \<Rightarrow> wsa_open h)"

lemma version_2_2: "LOBYTE v = 2 \<and> HIBYTE v = 2 \<longleftrightarrow> v = 0x0202"
proof -
  have lo: "LOBYTE v = 2 \<longleftrightarrow> uint v mod 256 = 2"
    by (simp add: LOBYTE_def word_uint_eq_iff unsigned_ucast_eq take_bit_eq_mod)
  have hi: "HIBYTE v = 2 \<longleftrightarrow> uint v div 256 mod 256 = 2"
    by (simp add: HIBYTE_def word_uint_eq_iff unsigned_ucast_eq take_bit_eq_mod
        drop_bit_eq_div uint_div)
  have "0 \<le> uint v" "uint v < 65536"
    using unsigned_less [where 'a = int, of v] by simp_all
  then have "0 \<le> uint v div 256" "uint v div 256 < 256" by linarith+
  then have d: "uint v div 256 mod 256 = uint v div 256" by (rule mod_pos_pos_trivial)
  have sum: "uint v = uint v div 256 * 256 + uint v mod 256" by simp
  have "uint v mod 256 = 2 \<and> uint v div 256 = 2 \<longleftrightarrow> uint v = 0x0202"
  proof
    assume "uint v mod 256 = 2 \<and> uint v div 256 = 2"
    with sum show "uint v = 0x0202" by simp
  qed simp
  with lo hi d show ?thesis by (simp add: word_uint_eq_iff)
qed

text \<open>
  \<open>initialize\<close> returns 0 or 1. On Windows 0 means that the library was started in exactly
  version 2.2 and is open once more than before; 1 means that nothing is left open, also when the
  library started in another version and was closed again. Elsewhere it is 0 without any call.
  After a 0, the destructor restores the balance.
\<close>

lemma initialize_balanced:
  assumes "netClass_initialize K c h = (r, h')"
  shows "r \<in> {0, 1} \<and>
    wsa_open h' = wsa_open h + (if cfg_platform c = Win32 \<and> r = 0 then 1 else 0) \<and>
    (cfg_platform c = Win32 \<longrightarrow> (r = 0 \<longleftrightarrow> os_wsastartup K h = (0, 0x0202))) \<and>
    (r = 0 \<longrightarrow> wsa_open (netClass_destroy c h') = wsa_open h)"
  using assms version_2_2 [of "snd (os_wsastartup K h)"]
  by (cases "os_wsastartup K h")
    (auto simp: netClass_initialize_def netClass_destroy_def Let_def split: if_splits)

section \<open>Objects of the class\<close>

text \<open>
  What a program does with the class: \<open>initialize\<close> is a static method that any number of calls may
  use, objects are made and destroyed, and each destruction ends one use of the library. The state
  is the number of objects that are alive.
\<close>

datatype netclass_call = Initialize | Construct | Destroy

fun netclass_step :: "os \<Rightarrow> config \<Rightarrow> netclass_call \<Rightarrow> nat \<times> hist \<Rightarrow> nat \<times> hist" where
  "netclass_step K c Initialize (n, h) = (n, snd (netClass_initialize K c h))"
| "netclass_step K c Construct (n, h) = (Suc n, h)"
| "netclass_step K c Destroy (n, h) = (n - 1, netClass_destroy c h)"

definition netclass_run :: "os \<Rightarrow> config \<Rightarrow> netclass_call list \<Rightarrow> nat \<times> hist \<Rightarrow> nat \<times> hist" where
  "netclass_run K c ms s = fold (netclass_step K c) ms s"

text \<open>No more objects are destroyed than have been made.\<close>

fun objects_exist :: "nat \<Rightarrow> netclass_call list \<Rightarrow> bool" where
  "objects_exist n [] = True"
| "objects_exist n (Initialize # ms) = objects_exist n ms"
| "objects_exist n (Construct # ms) = objects_exist (Suc n) ms"
| "objects_exist n (Destroy # ms) = (0 < n \<and> objects_exist (n - 1) ms)"

text \<open>The starts that found the right version.\<close>

fun good_starts :: "hist \<Rightarrow> nat" where
  "good_starts [] = 0"
| "good_starts (WsaStartup e v # h) = good_starts h + (if e = 0 \<and> v = 0x0202 then 1 else 0)"
| "good_starts (_ # h) = good_starts h"

lemma initialize_starts:
  assumes "cfg_platform c = Win32" "netClass_initialize K c h = (r, h')"
  shows "wsa_open h' - int (good_starts h') = wsa_open h - int (good_starts h)"
    and "good_starts h' \<le> Suc (good_starts h)"
    and "os_wsastartup K h = (0, 0x0202) \<Longrightarrow> good_starts h' = Suc (good_starts h)"
  using assms version_2_2 [of "snd (os_wsastartup K h)"]
  by (cases "os_wsastartup K h"; auto simp: netClass_initialize_def Let_def split: if_splits)+

lemma netclass_run_simps [simp]:
  "netclass_run K c [] s = s"
  "netclass_run K c (m # ms) s = netclass_run K c ms (netclass_step K c m s)"
  by (simp_all add: netclass_run_def)

lemma netclass_counts:
  assumes "objects_exist n ms" "netclass_run K c ms (n, h) = (n', h')" "cfg_platform c = Win32"
  shows "int n' + int (count_list ms Destroy) = int n + int (count_list ms Construct) \<and>
    wsa_open h' - int (good_starts h') = wsa_open h - int (good_starts h) - int (count_list ms Destroy) \<and>
    good_starts h' \<le> good_starts h + count_list ms Initialize \<and>
    ((\<forall>h. os_wsastartup K h = (0, 0x0202)) \<longrightarrow> good_starts h' = good_starts h + count_list ms Initialize)"
  using assms(1,2)
proof (induction n ms arbitrary: h rule: objects_exist.induct)
  case (2 n ms)
  obtain r g where g: "netClass_initialize K c h = (r, g)" by force
  from 2 g have "netclass_run K c ms (n, g) = (n', h')" by simp
  from 2(1) [OF _ this] 2(2) initialize_starts [OF assms(3) g] show ?case by auto
next
  case (3 n ms)
  then show ?case by fastforce
next
  case (4 n ms)
  from 4(3) have "netclass_run K c ms (n - 1, WsaCleanup # h) = (n', h')"
    by (simp add: netClass_destroy_def assms(3))
  from 4(1) [OF _ this] 4(2) show ?case by auto
qed auto

text \<open>
  C34: whatever a Windows program does with the class, the uses of the socket library that are
  open, less the objects alive, are the calls of \<open>initialize\<close> that returned 0, less the objects
  made: the library outlives the objects only if \<open>initialize\<close> is called once for each of them, and
  a program that calls it once and makes two objects closes the library with the first.
\<close>

theorem library_follows_objects:
  assumes "objects_exist 0 ms" "netclass_run K c ms (0, []) = (n, h)" "cfg_platform c = Win32"
  shows "wsa_open h - int n = int (good_starts h) - int (count_list ms Construct) \<and>
    good_starts h \<le> count_list ms Initialize \<and>
    ((\<forall>h. os_wsastartup K h = (0, 0x0202)) \<longrightarrow>
      wsa_open h - int n = int (count_list ms Initialize) - int (count_list ms Construct))"
  using netclass_counts [OF assms] by auto

theorem library_follows_objects_witness:
  "let K = dead_os\<lparr>os_wsastartup := \<lambda>h. (0, 0x0202)\<rparr>;
      ms = [Initialize, Construct, Construct, Destroy];
      (n, h) = netclass_run K win32_config ms (0, [])
   in n = 1 \<and> wsa_open h = 0 \<and> wsa_open h - int n = int (good_starts h) - int (count_list ms Construct)"
proof -
  let ?K = "dead_os\<lparr>os_wsastartup := \<lambda>h. (0, 0x0202)\<rparr>"
  let ?ms = "[Initialize, Construct, Construct, Destroy]"
  have w: "cfg_platform win32_config = Win32" by (simp add: win32_config_def)
  have r: "netclass_run ?K win32_config ?ms (0, []) = (1, [WsaCleanup, WsaStartup 0 0x0202])"
    by (simp add: netClass_initialize_def netClass_destroy_def w LOBYTE_def HIBYTE_def)
  from library_follows_objects [OF _ r w] have "wsa_open [WsaCleanup, WsaStartup 0 0x0202] - int 1 =
      int (good_starts [WsaCleanup, WsaStartup 0 0x0202]) - int (count_list ?ms Construct)" by simp
  then show ?thesis unfolding Let_def r by simp
qed

end
