(* ===== verification/Nc_Arch.thy ===== *)
theory Nc_Arch
  imports Nc_Platform
begin

text \<open>
  The header \<^verbatim>\<open>src/ncarch.h\<close> as the preprocessor reads it: its directives, section by section, an
  interpreter for them, and which of the model's definitions the result selects. The symbols that
  the compiler and \<^verbatim>\<open>configure\<close> define are the input; the headers it includes are not read. A
  macro with parameters is listed under its name, its parameters being those of the source.
\<close>

section \<open>Directives\<close>

datatype cpp_cond =
    Defined string | Undefined string | Equals string string | Both cpp_cond cpp_cond | Either cpp_cond cpp_cond

datatype directive =
    Define string string
  | Cond cpp_cond "directive list" "directive list"
  | Error string

type_synonym macros = "string \<rightharpoonup> string"

fun cpp_holds :: "cpp_cond \<Rightarrow> macros \<Rightarrow> bool" where
  "cpp_holds (Defined n) m = (m n \<noteq> None)"
| "cpp_holds (Undefined n) m = (m n = None)"
| "cpp_holds (Equals n v) m = (m n = Some v)"
| "cpp_holds (Both a b) m = (cpp_holds a m \<and> cpp_holds b m)"
| "cpp_holds (Either a b) m = (cpp_holds a m \<or> cpp_holds b m)"

text \<open>\<open>Inl\<close> is the message of an \<open>#error\<close>.\<close>

fun cpp :: "directive list \<Rightarrow> macros \<Rightarrow> string + macros" where
  "cpp [] m = Inr m"
| "cpp (Define n b # ds) m = cpp ds (m(n \<mapsto> b))"
| "cpp (Error e # ds) m = Inl e"
| "cpp (Cond c xs ys # ds) m =
     (case cpp (if cpp_holds c m then xs else ys) m of Inl e \<Rightarrow> Inl e | Inr m \<Rightarrow> cpp ds m)"

section \<open>The header\<close>

definition win32_section :: "directive list" where
  "win32_section =
     [Cond (Defined ''WIN32'')
       [Cond (Undefined ''__WIN32INCLUDED'')
         [Define ''__WIN32INCLUDED'' '''',
          Define ''ncGetLastError'' ''WSAGetLastError()'',
          Define ''NCSOCKET_ERROR'' ''SOCKET_ERROR'',
          Define ''NCSD_SEND'' ''SD_SEND'',
          Define ''NCSD_READ'' ''SD_RECEIVE'',
          Define ''ncRecvFlag'' ''0'',
          Define ''ncSocketHandle'' ''SOCKET'',
          Define ''ncPollObject'' ''struct fd_set'',
          Define ''ncHostent'' ''HOSTENT'',
          Define ''ncGetHostByName'' ''gethostbyname'',
          Define ''ncCloseSocket'' ''closesocket'',
          Define ''ncSleep'' ''Sleep(a)'',
          Define ''ncSockAddrIn'' ''struct sockaddr_in'',
          Define ''ncAddrInUse'' ''(ncGetLastError() == WSAEADDRINUSE)'',
          Define ''ncAcceptLenType'' ''(int *)a'',
          Define ''ncSockLenType'' ''int'',
          Define ''ncSocketError'' ''(a == SOCKET_ERROR)'',
          Define ''ncIsBlockingError'' ''((a == WSAEALREADY) || (a == WSAEWOULDBLOCK) || (a == WSAEINVAL))'',
          Define ''ncIsConnected'' ''(a == WSAEISCONN)'',
          Define ''ncSocketReset'' ''((a == WSAECONNRESET) || (a == WSAESHUTDOWN))'',
          Define ''ncSetSocketNonBlocking'' ''ioctlsocket(a,FIONBIO,(unsigned long *)0x01)'',
          Define ''ncCallBackRetType'' ''DWORD WINAPI'',
          Define ''ncThreadHandle'' ''HANDLE'',
          Define ''ncMutexHandle'' ''CRITICAL_SECTION'',
          Define ''ncGetInetAddr'' ''*addrPtr = inet_addr(host)'',
          Define ''ncValidInetAddr'' ''(addr != INADDR_NONE)''] []] []]"

definition cygwin_section :: "directive list" where
  "cygwin_section =
     [Cond (Defined ''__CYGWIN__'')
       [Cond (Undefined ''__CYGWININCLUDED'')
         [Define ''__CYGWININCLUDED'' '''',
          Define ''USE_LINUX'' '''',
          Define ''ncRecvFlag'' ''0'',
          Cond (Undefined ''HAVE_INET_PTON'') [Define ''inet_pton'' ''inet_addr(b)''] [],
          Define ''ncRecvPtr'' ''char *'',
          Define ''ncAcceptLenType'' ''(int *)a''] []] []]"

definition openbsd_section :: "directive list" where
  "openbsd_section =
     [Cond (Defined ''__OpenBSD__'')
       [Cond (Undefined ''__OPENBSDINCLUDED'')
         [Define ''__OPENBSDINCLUDED'' '''',
          Define ''USE_LINUX'' '''',
          Define ''ncRecvFlag'' ''0''] []] []]"

definition freebsd_section :: "directive list" where
  "freebsd_section =
     [Cond (Defined ''__FreeBSD__'')
       [Define ''USE_LINUX'' '''',
        Define ''ncGetInetAddr'' ''*addrPtr = inet_addr(host)'',
        Define ''ncValidInetAddr'' ''(addr != INADDR_NONE)'',
        Define ''ncRecvFlag'' ''0'',
        Define ''ncSockLenType'' ''socklen_t'',
        Define ''ncAcceptLenType'' ''(socklen_t *)a''] []]"

definition apple_section :: "directive list" where
  "apple_section =
     [Cond (Defined ''__APPLE__'')
       [Cond (Undefined ''__APPLEINCLUDED'')
         [Define ''__APPLEINCLUDED'' '''',
          Define ''USE_LINUX'' '''',
          Define ''ncGetInetAddr'' ''*addrPtr = inet_addr(host)'',
          Define ''ncValidInetAddr'' ''(addr != INADDR_NONE)'',
          Define ''ncRecvFlag'' ''0'',
          Define ''ncSockLenType'' ''int'',
          Define ''ncAcceptLenType'' ''(int *)a''] []] []]"

definition linux_needs :: "directive list" where
  "linux_needs =
     [Cond (Defined ''HAVE_SOCKET'') [] [Error ''FIXME (ncarch.h): NetClass requires a socket library''],
      Cond (Defined ''HAVE_POLL'')
        [Cond (Undefined ''POLLRDNORM'') [Define ''POLLRDNORM'' ''0x040''] [],
         Cond (Undefined ''POLLWRNORM'') [Define ''POLLWRNORM'' ''0x100''] [],
         Cond (Undefined ''POLLERR'') [Define ''POLLERR'' ''0x008''] []]
        [Cond (Defined ''HAVE_SELECT'') [Define ''USE_SELECT_READ_WRITE'' ''1'']
           [Error ''FIXME (ncarch.h): NetClass requires either select or poll call'']]]"

definition linux_macros :: "directive list" where
  "linux_macros =
     [Define ''ncGetLastError'' ''errno'',
      Define ''NCSOCKET_ERROR'' ''-1'',
      Define ''NCSD_SEND'' ''1'',
      Define ''NCSD_READ'' ''0'',
      Define ''ncSocketHandle'' ''int'',
      Cond (Defined ''HAVE_POLL'') [Define ''ncPollObject'' ''pollfd''] [Define ''ncPollObject'' ''fd_set''],
      Define ''ncHostent'' ''struct hostent'',
      Cond (Defined ''HAVE_GETHOSTBYNAME'') [Define ''ncGetHostByName'' ''gethostbyname''] [],
      Define ''ncCloseSocket'' ''::close'',
      Cond (Undefined ''ncRecvFlag'') [Define ''ncRecvFlag'' ''MSG_NOSIGNAL''] [],
      Cond (Undefined ''ncRecvPtr'') [Define ''ncRecvPtr'' ''void *''] [],
      Cond (Undefined ''ncAcceptLenType'') [Define ''ncAcceptLenType'' ''a''] [],
      Define ''ncSleep'' ''usleep(a*1000)'',
      Cond (Undefined ''ncSockAddrIn'') [Define ''ncSockAddrIn'' ''struct sockaddr_in''] [],
      Define ''ncAddrInUse'' ''(errno == EADDRINUSE)'',
      Cond (Undefined ''ncSockLenType'') [Define ''ncSockLenType'' ''socklen_t''] [],
      Define ''ncSocketError'' ''(a == -1)'',
      Define ''ncIsBlockingError'' ''((a == EALREADY) || (a == EINPROGRESS) || (a == EAGAIN))'',
      Define ''ncIsConnected'' ''0'',
      Define ''ncSocketReset'' ''((a == EPIPE) || (a == ECONNRESET))'',
      Define ''ncSetSocketNonBlocking'' ''fcntl(m_sockfd,F_SETFL,fcntl(a,F_GETFD) | O_NONBLOCK)'',
      Define ''ncCallBackRetType'' ''void *'',
      Define ''ncThreadHandle'' ''pthread_t'',
      Define ''ncMutexHandle'' ''pthread_mutex_t'',
      Cond (Undefined ''ncGetInetAddr'') [Define ''ncGetInetAddr'' ''inet_pton(AF_INET,host,addrPtr)''] [],
      Cond (Undefined ''ncValidInetAddr'') [Define ''ncValidInetAddr'' ''(addr > 0)''] []]"

definition linux_section :: "directive list" where
  "linux_section =
     [Cond (Either (Defined ''__linux__'') (Defined ''USE_LINUX''))
       [Cond (Undefined ''__LINUXINCLUDED'')
         (Define ''__LINUXINCLUDED'' '''' # linux_needs @ linux_macros) []] []]"

definition last_section :: "directive list" where
  "last_section =
     [Cond (Defined ''__NetBSD__'') [Error ''FIXME (ncarch.h): NetBSD is not currently supported.''] [],
      Cond (Both (Both (Undefined ''WIN32'') (Undefined ''__linux__'')) (Undefined ''__FreeBSD__''))
        [Cond (Both (Both (Undefined ''__OpenBSD__'') (Undefined ''__NetBSD__'')) (Undefined ''__APPLE__''))
          [Cond (Undefined ''__CYGWIN__'') [Error ''FIXME (ncarch.h): Unknown platform detected.''] []] []] [],
      Cond (Undefined ''MIN'') [Define ''MIN'' ''((a < b) ? a : b)''] []]"

definition ncarch_sections :: "directive list" where
  "ncarch_sections = win32_section @ cygwin_section @ openbsd_section @ freebsd_section @ apple_section @
     linux_section @ last_section"

definition ncarch_h :: "directive list" where
  "ncarch_h =
     [Cond (Undefined ''__NCARCH_H'') (Define ''__NCARCH_H'' '''' # ncarch_sections) []]"

text \<open>The header \<^verbatim>\<open>src/ncdebug.h\<close>: the text of \<open>DEBUG\<close> depends on \<open>--enable-debug\<close>.\<close>

definition ncdebug_h :: "directive list" where
  "ncdebug_h =
     [Cond (Undefined ''__NCDEBUG_H'')
       [Define ''__NCDEBUG_H'' '''',
        Cond (Equals ''NCDEBUG'' ''1'')
          [Define ''DEBUG'' (''std::cout << __FILE__ << \":\"'' @ '' << __LINE__; '' @
             ''std::cout << \" \" << errorStr << std::endl;'')]
          [Define ''DEBUG'' '''']] []]"

section \<open>Which code is compiled\<close>

text \<open>The conditions around the two versions of the transfers and around the methods of \<^verbatim>\<open>ncMutex\<close>.\<close>

definition select_version :: cpp_cond where
  "select_version = Either (Defined ''WIN32'') (Defined ''USE_SELECT_READ_WRITE'')"

definition poll_version :: cpp_cond where
  "poll_version = Both (Both (Undefined ''WIN32'') (Defined ''HAVE_POLL'')) (Undefined ''USE_SELECT_READ_WRITE'')"

definition mutex_methods :: cpp_cond where
  "mutex_methods = Either (Defined ''WIN32'')
     (Either (Either (Defined ''__linux__'') (Defined ''__FreeBSD__'')) (Defined ''__OpenBSD__''))"

section \<open>Lemmas\<close>

lemma cpp_append:
  "cpp (xs @ ys) m = (case cpp xs m of Inl e \<Rightarrow> Inl e | Inr m' \<Rightarrow> cpp ys m')"
proof (induction xs arbitrary: m)
  case (Cons d xs)
  then show ?case by (cases d) (simp_all del: fun_upd_apply split: sum.split)
qed simp

text \<open>The names a piece of the header may define, and whether it may raise an error.\<close>

fun writes :: "directive list \<Rightarrow> string set" where
  "writes [] = {}"
| "writes (Define n b # ds) = insert n (writes ds)"
| "writes (Error e # ds) = writes ds"
| "writes (Cond c xs ys # ds) = writes xs \<union> writes ys \<union> writes ds"

fun may_fail :: "directive list \<Rightarrow> bool" where
  "may_fail [] = False"
| "may_fail (Define n b # ds) = may_fail ds"
| "may_fail (Error e # ds) = True"
| "may_fail (Cond c xs ys # ds) = (may_fail xs \<or> may_fail ys \<or> may_fail ds)"

lemma cpp_keeps: "cpp ds m = Inr m' \<Longrightarrow> n \<notin> writes ds \<Longrightarrow> m' n = m n"
proof (induction ds m arbitrary: m' rule: cpp.induct)
  case (2 k b ds m)
  then have "m' n = (m(k \<mapsto> b)) n" by (simp del: fun_upd_apply)
  with 2(3) show ?case by simp
next
  case (4 c xs ys ds m)
  then obtain m1 where m1: "cpp (if cpp_holds c m then xs else ys) m = Inr m1" "cpp ds m1 = Inr m'"
    by (auto split: sum.splits)
  have "m1 n = m n" by (rule 4(1) [OF m1(1)]) (use 4(4) in simp)
  moreover have "m' n = m1 n" by (rule 4(2) [OF m1]) (use 4(4) in simp)
  ultimately show ?case by simp
qed simp_all

lemma cpp_succeeds: "\<not> may_fail ds \<Longrightarrow> \<exists>m'. cpp ds m = Inr m'"
proof (induction ds m rule: cpp.induct)
  case (4 c xs ys ds m)
  then obtain m1 where "cpp (if cpp_holds c m then xs else ys) m = Inr m1"
    by (cases "cpp_holds c m") auto
  with 4 show ?case by simp
qed (simp_all del: fun_upd_apply)

section \<open>Which symbols the header accepts\<close>

definition platform_symbols :: "string list" where
  "platform_symbols =
     [''WIN32'', ''__CYGWIN__'', ''__OpenBSD__'', ''__FreeBSD__'', ''__APPLE__'', ''__linux__'', ''__NetBSD__'']"

definition configure_symbols :: "string list" where
  "configure_symbols =
     [''HAVE_SOCKET'', ''HAVE_POLL'', ''HAVE_SELECT'', ''HAVE_INET_PTON'', ''HAVE_GETHOSTBYNAME'', ''HAVE_THREADS'']"

definition symbols :: "string set \<Rightarrow> macros" where
  "symbols S n = (if n \<in> S then Some ''1'' else None)"

text \<open>
  What the header asks for: a platform it knows, and, unless that is Windows, a socket library and
  one of \<open>poll\<close> and \<open>select\<close>.
\<close>

definition uses_linux :: "string set \<Rightarrow> bool" where
  "uses_linux S \<longleftrightarrow> (\<exists>p \<in> S. p \<in> {''__CYGWIN__'', ''__OpenBSD__'', ''__FreeBSD__'', ''__APPLE__'', ''__linux__''})"

definition supported :: "string set \<Rightarrow> bool" where
  "supported S \<longleftrightarrow> ''__NetBSD__'' \<notin> S \<and> (''WIN32'' \<in> S \<or> uses_linux S) \<and>
     (uses_linux S \<longrightarrow> ''HAVE_SOCKET'' \<in> S \<and> (''HAVE_POLL'' \<in> S \<or> ''HAVE_SELECT'' \<in> S))"

definition known_symbols :: "string set \<Rightarrow> bool" where
  "known_symbols S \<longleftrightarrow> S \<subseteq> set (platform_symbols @ configure_symbols)"

text \<open>The sections before the Linux one leave the symbols alone and decide on \<open>USE_LINUX\<close>.\<close>

definition platform_sections :: "directive list" where
  "platform_sections =
     win32_section @ cygwin_section @ openbsd_section @ freebsd_section @ apple_section"

lemmas section_defs = win32_section_def cygwin_section_def openbsd_section_def freebsd_section_def
  apple_section_def

lemma use_linux:
  "cpp win32_section m = Inr m' \<Longrightarrow> m' ''USE_LINUX'' = m ''USE_LINUX''"
  "cpp cygwin_section m = Inr m' \<Longrightarrow> m ''__CYGWININCLUDED'' = None \<Longrightarrow>
     m' ''USE_LINUX'' \<noteq> None \<longleftrightarrow> m ''__CYGWIN__'' \<noteq> None \<or> m ''USE_LINUX'' \<noteq> None"
  "cpp openbsd_section m = Inr m' \<Longrightarrow> m ''__OPENBSDINCLUDED'' = None \<Longrightarrow>
     m' ''USE_LINUX'' \<noteq> None \<longleftrightarrow> m ''__OpenBSD__'' \<noteq> None \<or> m ''USE_LINUX'' \<noteq> None"
  "cpp freebsd_section m = Inr m' \<Longrightarrow>
     m' ''USE_LINUX'' \<noteq> None \<longleftrightarrow> m ''__FreeBSD__'' \<noteq> None \<or> m ''USE_LINUX'' \<noteq> None"
  "cpp apple_section m = Inr m' \<Longrightarrow> m ''__APPLEINCLUDED'' = None \<Longrightarrow>
     m' ''USE_LINUX'' \<noteq> None \<longleftrightarrow> m ''__APPLE__'' \<noteq> None \<or> m ''USE_LINUX'' \<noteq> None"
proof -
  show "cpp win32_section m = Inr m' \<Longrightarrow> m' ''USE_LINUX'' = m ''USE_LINUX''"
    by (erule cpp_keeps) (simp add: win32_section_def)
qed (auto simp: cygwin_section_def openbsd_section_def freebsd_section_def apple_section_def split: if_splits)

definition input_names :: "string list" where
  "input_names = platform_symbols @ configure_symbols @ [''__LINUXINCLUDED'', ''USE_SELECT_READ_WRITE'', ''MIN'']"

lemma sections_write:
  "\<forall>n \<in> set input_names. n \<notin> writes platform_sections" "\<not> may_fail platform_sections"
  by (simp_all add: input_names_def platform_symbols_def configure_symbols_def platform_sections_def section_defs)

definition guarded :: "string set \<Rightarrow> macros" where
  "guarded S n = (if n = ''__NCARCH_H'' then Some '''' else symbols S n)"

lemma symbols_guarded: "(symbols S)(''__NCARCH_H'' \<mapsto> '''') = guarded S"
  by (rule ext) (simp add: guarded_def)

lemma platform_sections_run:
  assumes "known_symbols S"
  shows "\<exists>m. cpp platform_sections (guarded S) = Inr m \<and> (\<forall>n \<in> set input_names. m n = guarded S n) \<and>
    (m ''USE_LINUX'' \<noteq> None \<longleftrightarrow> uses_linux (S - {''__linux__''}))"
proof -
  let ?m = "guarded S"
  obtain m where m: "cpp platform_sections ?m = Inr m" using cpp_succeeds [OF sections_write(2)] by blast
  from m obtain m1 m2 m3 m4 where
    s: "cpp win32_section ?m = Inr m1" "cpp cygwin_section m1 = Inr m2" "cpp openbsd_section m2 = Inr m3"
      "cpp freebsd_section m3 = Inr m4" "cpp apple_section m4 = Inr m"
    by (auto simp: platform_sections_def cpp_append split: sum.splits)
  note k = cpp_keeps [OF s(1)] cpp_keeps [OF s(2)] cpp_keeps [OF s(3)] cpp_keeps [OF s(4)]
  have none: "?m ''__CYGWININCLUDED'' = None" "?m ''__OPENBSDINCLUDED'' = None" "?m ''__APPLEINCLUDED'' = None"
    "?m ''USE_LINUX'' = None"
    using assms by (auto simp: guarded_def symbols_def known_symbols_def platform_symbols_def configure_symbols_def)
  have "m ''USE_LINUX'' \<noteq> None \<longleftrightarrow> ?m ''__CYGWIN__'' \<noteq> None \<or> ?m ''__OpenBSD__'' \<noteq> None \<or>
      ?m ''__FreeBSD__'' \<noteq> None \<or> ?m ''__APPLE__'' \<noteq> None"
    using use_linux(1) [OF s(1)] use_linux(2) [OF s(2)] use_linux(3) [OF s(3)] use_linux(4) [OF s(4)]
      use_linux(5) [OF s(5)] none k(1) [of "''__CYGWININCLUDED''"] k(1) [of "''__CYGWIN__''"]
      k(1,2) [of "''__OPENBSDINCLUDED''"] k(1,2) [of "''__OpenBSD__''"] k(1-3) [of "''__FreeBSD__''"]
      k(1-4) [of "''__APPLEINCLUDED''"] k(1-4) [of "''__APPLE__''"]
    by (simp add: section_defs) blast
  then have "m ''USE_LINUX'' \<noteq> None \<longleftrightarrow> uses_linux (S - {''__linux__''})"
    by (auto simp: guarded_def symbols_def uses_linux_def)
  with m cpp_keeps [OF m] sections_write(1) show ?thesis by blast
qed

lemma linux_needs_run:
  "(\<exists>m'. cpp linux_needs m = Inr m') \<longleftrightarrow>
     m ''HAVE_SOCKET'' \<noteq> None \<and> (m ''HAVE_POLL'' \<noteq> None \<or> m ''HAVE_SELECT'' \<noteq> None)"
  "cpp linux_needs m = Inr m' \<Longrightarrow> m ''USE_SELECT_READ_WRITE'' = None \<Longrightarrow>
     m' ''USE_SELECT_READ_WRITE'' \<noteq> None \<longleftrightarrow> m ''HAVE_POLL'' = None"
proof -
  let ?poll = "[Cond (Undefined ''POLLRDNORM'') [Define ''POLLRDNORM'' ''0x040''] [],
    Cond (Undefined ''POLLWRNORM'') [Define ''POLLWRNORM'' ''0x100''] [],
    Cond (Undefined ''POLLERR'') [Define ''POLLERR'' ''0x008''] []]"
  have poll: "\<exists>q. cpp ?poll m = Inr q" by (rule cpp_succeeds) simp
  have keep: "q ''USE_SELECT_READ_WRITE'' = m ''USE_SELECT_READ_WRITE''" if "cpp ?poll m = Inr q" for q
    by (rule cpp_keeps [OF that]) simp
  have run: "cpp linux_needs m =
    (if m ''HAVE_SOCKET'' = None then Inl ''FIXME (ncarch.h): NetClass requires a socket library''
     else if m ''HAVE_POLL'' \<noteq> None then cpp ?poll m
     else if m ''HAVE_SELECT'' = None then Inl ''FIXME (ncarch.h): NetClass requires either select or poll call''
     else Inr (m(''USE_SELECT_READ_WRITE'' \<mapsto> ''1'')))"
    by (simp add: linux_needs_def del: cpp.simps(4) fun_upd_apply) (simp add: cpp.simps(4) split: sum.split)
  show "(\<exists>m'. cpp linux_needs m = Inr m') \<longleftrightarrow>
     m ''HAVE_SOCKET'' \<noteq> None \<and> (m ''HAVE_POLL'' \<noteq> None \<or> m ''HAVE_SELECT'' \<noteq> None)"
    using poll unfolding run by auto
  show "cpp linux_needs m = Inr m' \<Longrightarrow> m ''USE_SELECT_READ_WRITE'' = None \<Longrightarrow>
     m' ''USE_SELECT_READ_WRITE'' \<noteq> None \<longleftrightarrow> m ''HAVE_POLL'' = None"
    unfolding run using keep by (auto split: if_splits)
qed

definition linux_on :: "macros \<Rightarrow> bool" where
  "linux_on m \<longleftrightarrow> m ''__linux__'' \<noteq> None \<or> m ''USE_LINUX'' \<noteq> None"

lemma linux_section_run:
  assumes "m ''__LINUXINCLUDED'' = None" "m ''USE_SELECT_READ_WRITE'' = None"
  shows "(\<exists>m'. cpp linux_section m = Inr m') \<longleftrightarrow>
      (linux_on m \<longrightarrow> m ''HAVE_SOCKET'' \<noteq> None \<and> (m ''HAVE_POLL'' \<noteq> None \<or> m ''HAVE_SELECT'' \<noteq> None))"
    and "cpp linux_section m = Inr m' \<Longrightarrow>
      m' ''USE_SELECT_READ_WRITE'' \<noteq> None \<longleftrightarrow> linux_on m \<and> m ''HAVE_POLL'' = None"
proof -
  define q where "q = m(''__LINUXINCLUDED'' \<mapsto> '''')"
  have q: "q n = m n" if "n \<noteq> ''__LINUXINCLUDED''" for n using that by (simp add: q_def)
  have run: "cpp linux_section m =
      (if linux_on m then case cpp linux_needs q of Inl e \<Rightarrow> Inl e | Inr r \<Rightarrow> cpp linux_macros r else Inr m)"
    using assms(1)
    by (simp add: linux_section_def linux_on_def cpp_append q_def del: fun_upd_apply split: sum.split)
  have macros: "\<exists>m'. cpp linux_macros r = Inr m'" for r by (rule cpp_succeeds) (simp add: linux_macros_def)
  have keep: "m' ''USE_SELECT_READ_WRITE'' = r ''USE_SELECT_READ_WRITE''" if "cpp linux_macros r = Inr m'" for r m'
    by (rule cpp_keeps [OF that]) (simp add: linux_macros_def)
  have "(\<exists>m'. cpp linux_section m = Inr m') \<longleftrightarrow> (linux_on m \<longrightarrow> (\<exists>r. cpp linux_needs q = Inr r))"
    unfolding run using macros by (auto split: sum.split)
  then show "(\<exists>m'. cpp linux_section m = Inr m') \<longleftrightarrow>
      (linux_on m \<longrightarrow> m ''HAVE_SOCKET'' \<noteq> None \<and> (m ''HAVE_POLL'' \<noteq> None \<or> m ''HAVE_SELECT'' \<noteq> None))"
    unfolding linux_needs_run(1) by (simp add: q)
  show "m' ''USE_SELECT_READ_WRITE'' \<noteq> None \<longleftrightarrow> linux_on m \<and> m ''HAVE_POLL'' = None"
    if "cpp linux_section m = Inr m'"
  proof (cases "linux_on m")
    case True
    with that run obtain r where r: "cpp linux_needs q = Inr r" "cpp linux_macros r = Inr m'"
      by (auto split: sum.splits)
    with linux_needs_run(2) [OF r(1)] keep [OF r(2)] True assms(2) show ?thesis by (simp add: q)
  next
    case False
    with that run assms(2) show ?thesis by simp
  qed
qed

lemma last_section_run:
  "(\<exists>m'. cpp last_section m = Inr m') \<longleftrightarrow> m ''__NetBSD__'' = None \<and>
     (\<exists>p \<in> set platform_symbols. m p \<noteq> None)"
  by (auto simp: last_section_def platform_symbols_def)

lemma uses_linux_cases: "uses_linux S \<longleftrightarrow> ''__linux__'' \<in> S \<or> uses_linux (S - {''__linux__''})"
  by (auto simp: uses_linux_def)

lemma debug_switch:
  assumes "m ''__NCDEBUG_H'' = None"
  shows "\<exists>m'. cpp ncdebug_h m = Inr m' \<and> (m' ''DEBUG'' = Some '''') = (m ''NCDEBUG'' \<noteq> Some ''1'')"
  using assms by (simp add: ncdebug_h_def)

section \<open>The whole header\<close>

definition given_symbols :: "string set" where
  "given_symbols = set platform_symbols \<union> set configure_symbols"

lemma first_sections:
  assumes "known_symbols S"
  shows "\<exists>m. cpp ncarch_h (symbols S) = (case cpp linux_section m of Inl e \<Rightarrow> Inl e | Inr q \<Rightarrow> cpp last_section q) \<and>
    m ''__LINUXINCLUDED'' = None \<and> m ''USE_SELECT_READ_WRITE'' = None \<and> linux_on m = uses_linux S \<and>
    (\<forall>n \<in> given_symbols. m n \<noteq> None \<longleftrightarrow> n \<in> S)"
proof -
  obtain m where m: "cpp platform_sections (guarded S) = Inr m"
    "\<forall>n \<in> set input_names. m n = guarded S n" "m ''USE_LINUX'' \<noteq> None \<longleftrightarrow> uses_linux (S - {''__linux__''})"
    using platform_sections_run [OF assms] by blast
  have sym: "\<forall>n \<in> given_symbols. m n \<noteq> None \<longleftrightarrow> n \<in> S"
    using m(2) by (auto simp: given_symbols_def input_names_def guarded_def symbols_def platform_symbols_def configure_symbols_def)
  moreover have "m ''__LINUXINCLUDED'' = None" "m ''USE_SELECT_READ_WRITE'' = None"
    using m(2) assms
    by (auto simp: input_names_def guarded_def symbols_def known_symbols_def platform_symbols_def configure_symbols_def)
  moreover have "linux_on m = uses_linux S"
    using m(3) sym uses_linux_cases [of S] by (simp add: linux_on_def given_symbols_def platform_symbols_def)
  moreover have "cpp ncarch_h (symbols S) = (case cpp linux_section m of Inl e \<Rightarrow> Inl e | Inr q \<Rightarrow> cpp last_section q)"
  proof -
    have "''__NCARCH_H'' \<notin> S"
      using assms by (auto simp: known_symbols_def platform_symbols_def configure_symbols_def)
    then have "cpp ncarch_h (symbols S) = cpp ncarch_sections (guarded S)"
      by (simp add: ncarch_h_def symbols_def [of _ "''__NCARCH_H''"] symbols_guarded del: fun_upd_apply split: sum.split)
    also have "ncarch_sections = platform_sections @ (linux_section @ last_section)"
      by (simp add: ncarch_sections_def platform_sections_def)
    finally show ?thesis by (simp only: cpp_append m(1) sum.case)
  qed
  ultimately show ?thesis by blast
qed

lemma later_sections_write:
  "n \<in> given_symbols \<Longrightarrow> n \<notin> writes linux_section" "n \<in> given_symbols \<Longrightarrow> n \<notin> writes last_section"
  by (auto simp: given_symbols_def platform_symbols_def configure_symbols_def linux_section_def
      linux_needs_def linux_macros_def last_section_def)

lemma later_sections_keep:
  "n \<in> given_symbols \<Longrightarrow> cpp linux_section m = Inr m' \<Longrightarrow> m' n = m n"
  "n \<in> given_symbols \<Longrightarrow> cpp last_section m = Inr m' \<Longrightarrow> m' n = m n"
  using cpp_keeps later_sections_write by metis+

lemma header_accepts:
  assumes "known_symbols S"
  shows "(\<exists>m. cpp ncarch_h (symbols S) = Inr m) \<longleftrightarrow> supported S"
proof -
  obtain m where m: "cpp ncarch_h (symbols S) =
      (case cpp linux_section m of Inl e \<Rightarrow> Inl e | Inr q \<Rightarrow> cpp last_section q)"
    "m ''__LINUXINCLUDED'' = None" "m ''USE_SELECT_READ_WRITE'' = None" "linux_on m = uses_linux S"
    "\<forall>n \<in> given_symbols. m n \<noteq> None \<longleftrightarrow> n \<in> S" using first_sections [OF assms] by blast
  have given: "set platform_symbols \<subseteq> given_symbols" "''__NetBSD__'' \<in> given_symbols"
    "''HAVE_SOCKET'' \<in> given_symbols" "''HAVE_POLL'' \<in> given_symbols" "''HAVE_SELECT'' \<in> given_symbols"
    by (simp_all add: given_symbols_def platform_symbols_def configure_symbols_def)
  have plat: "(\<exists>r. cpp last_section q = Inr r) \<longleftrightarrow>
      ''__NetBSD__'' \<notin> S \<and> (\<exists>p \<in> set platform_symbols. p \<in> S)" if "cpp linux_section m = Inr q" for q
  proof -
    have "\<forall>n \<in> given_symbols. q n \<noteq> None \<longleftrightarrow> n \<in> S" using later_sections_keep(1) [OF _ that] m(5) by simp
    then show ?thesis unfolding last_section_run using given(1,2) by blast
  qed
  have "(\<exists>m. cpp ncarch_h (symbols S) = Inr m) \<longleftrightarrow> (\<exists>q. cpp linux_section m = Inr q) \<and>
      ''__NetBSD__'' \<notin> S \<and> (\<exists>p \<in> set platform_symbols. p \<in> S)"
    unfolding m(1) using plat by (auto split: sum.split)
  also have "(\<exists>q. cpp linux_section m = Inr q) \<longleftrightarrow>
      (uses_linux S \<longrightarrow> ''HAVE_SOCKET'' \<in> S \<and> (''HAVE_POLL'' \<in> S \<or> ''HAVE_SELECT'' \<in> S))"
    unfolding linux_section_run(1) [OF m(2,3)] m(4) using m(5) given by blast
  also have "''__NetBSD__'' \<notin> S \<and> (\<exists>p \<in> set platform_symbols. p \<in> S) \<longleftrightarrow>
      ''__NetBSD__'' \<notin> S \<and> (''WIN32'' \<in> S \<or> uses_linux S)"
    by (auto simp: platform_symbols_def uses_linux_def)
  finally show ?thesis unfolding supported_def by blast
qed

lemma header_selects:
  assumes "known_symbols S" and h: "cpp ncarch_h (symbols S) = Inr r"
  shows "(r ''USE_SELECT_READ_WRITE'' \<noteq> None \<longleftrightarrow> uses_linux S \<and> ''HAVE_POLL'' \<notin> S) \<and>
    (\<forall>n \<in> given_symbols. r n \<noteq> None \<longleftrightarrow> n \<in> S)"
proof -
  obtain m where m: "cpp ncarch_h (symbols S) =
      (case cpp linux_section m of Inl e \<Rightarrow> Inl e | Inr q \<Rightarrow> cpp last_section q)"
    "m ''__LINUXINCLUDED'' = None" "m ''USE_SELECT_READ_WRITE'' = None" "linux_on m = uses_linux S"
    "\<forall>n \<in> given_symbols. m n \<noteq> None \<longleftrightarrow> n \<in> S" using first_sections [OF assms(1)] by blast
  from h m(1) obtain q where q: "cpp linux_section m = Inr q" "cpp last_section q = Inr r"
    by (auto split: sum.splits)
  have "r ''USE_SELECT_READ_WRITE'' = q ''USE_SELECT_READ_WRITE''"
    by (rule cpp_keeps [OF q(2)]) (simp add: last_section_def)
  moreover have "''HAVE_POLL'' \<in> given_symbols" by (simp add: given_symbols_def configure_symbols_def)
  ultimately show ?thesis
    using linux_section_run(2) [OF m(2,3) q(1)] m(4,5) later_sections_keep(1) [OF _ q(1)]
      later_sections_keep(2) [OF _ q(2)] by auto
qed

text \<open>No directive takes a definition back, and the guard makes a second inclusion empty.\<close>

lemma cpp_defined: "cpp ds m = Inr m' \<Longrightarrow> m n \<noteq> None \<Longrightarrow> m' n \<noteq> None"
proof (induction ds m arbitrary: m' rule: cpp.induct)
  case (2 k b ds m)
  from 2(2) have "cpp ds (m(k \<mapsto> b)) = Inr m'" by (simp del: fun_upd_apply)
  from 2(1) [OF this] 2(3) show ?case by simp
next
  case (4 c xs ys ds m)
  then obtain m1 where m1: "cpp (if cpp_holds c m then xs else ys) m = Inr m1" "cpp ds m1 = Inr m'"
    by (auto split: sum.splits)
  show ?case by (rule 4(2) [OF m1 4(1) [OF m1(1) 4(4)]])
qed simp_all

lemma included_twice: "cpp ncarch_h m = Inr m' \<Longrightarrow> cpp ncarch_h m' = Inr m'"
proof (cases "m ''__NCARCH_H'' = None")
  case True
  assume "cpp ncarch_h m = Inr m'"
  with True have "cpp ncarch_sections (m(''__NCARCH_H'' \<mapsto> '''')) = Inr m'"
    by (simp add: ncarch_h_def del: fun_upd_apply split: sum.splits)
  then have "m' ''__NCARCH_H'' \<noteq> None" by (rule cpp_defined) simp
  then show ?thesis by (auto simp: ncarch_h_def)
next
  case False
  moreover assume "cpp ncarch_h m = Inr m'"
  ultimately show ?thesis by (auto simp: ncarch_h_def)
qed

section \<open>Properties\<close>

text \<open>
  C33: for every set of platform and \<^verbatim>\<open>configure\<close> symbols, several platforms included, the header
  raises an error exactly if NetBSD is among them, no known platform is, or a platform of the Unix
  kind lacks a socket library or both \<open>poll\<close> and \<open>select\<close>; and if it raises none, exactly one of the
  two versions of \<open>writeData\<close> and \<open>readData\<close> is compiled, and including the header again
  changes nothing.
\<close>

theorem header_accepts_supported:
  assumes "known_symbols S"
  shows "case cpp ncarch_h (symbols S) of
      Inl e \<Rightarrow> \<not> supported S
    | Inr m \<Rightarrow> supported S \<and> cpp_holds select_version m = (\<not> cpp_holds poll_version m) \<and>
        cpp ncarch_h m = Inr m"
proof (cases "cpp ncarch_h (symbols S)")
  case (Inl e)
  with header_accepts [OF assms] show ?thesis by auto
next
  case (Inr m)
  with header_accepts [OF assms] have sup: "supported S" by blast
  have given: "''WIN32'' \<in> given_symbols" "''HAVE_POLL'' \<in> given_symbols"
    by (simp_all add: given_symbols_def platform_symbols_def configure_symbols_def)
  from header_selects [OF assms Inr] given have "m ''WIN32'' \<noteq> None \<longleftrightarrow> ''WIN32'' \<in> S"
    "m ''HAVE_POLL'' \<noteq> None \<longleftrightarrow> ''HAVE_POLL'' \<in> S"
    "m ''USE_SELECT_READ_WRITE'' \<noteq> None \<longleftrightarrow> uses_linux S \<and> ''HAVE_POLL'' \<notin> S" by blast+
  with sup Inr included_twice [OF Inr] show ?thesis
    by (auto simp: select_version_def poll_version_def supported_def)
qed

theorem header_accepts_supported_witness:
  "let S = {''__linux__'', ''HAVE_SOCKET'', ''HAVE_SELECT''}
   in supported S \<and> (case cpp ncarch_h (symbols S) of
        Inl e \<Rightarrow> \<not> supported S
      | Inr m \<Rightarrow> supported S \<and> cpp_holds select_version m = (\<not> cpp_holds poll_version m) \<and>
          cpp ncarch_h m = Inr m)"
proof -
  have "known_symbols {''__linux__'', ''HAVE_SOCKET'', ''HAVE_SELECT''}"
    by (simp add: known_symbols_def platform_symbols_def configure_symbols_def)
  moreover have "supported {''__linux__'', ''HAVE_SOCKET'', ''HAVE_SELECT''}"
    by (simp add: supported_def uses_linux_def)
  ultimately show ?thesis using header_accepts_supported by (simp add: Let_def)
qed

end
