(* ===== verification/Nc_Macros.thy ===== *)
theory Nc_Macros
  imports Nc_Arch Nc_Sock_Connect
begin

text \<open>
  What an expression of the source means after the preprocessor has replaced its macros. An
  expression is cut into tokens, its macros are replaced by their bodies, the result is parsed
  with the precedences of C and evaluated. The evaluator knows the operators, variables and library
  functions that the macros of \<^verbatim>\<open>src/ncarch.h\<close> use, and one object in memory,
  \<^verbatim>\<open>servaddr->sin_addr.s_addr\<close>. What it cannot read has no meaning, \<open>None\<close>.
\<close>

section \<open>Tokens\<close>

datatype token = Word string | Sign string

definition flush :: "string \<Rightarrow> token list" where
  "flush w = (if w = [] then [] else [Word w])"

definition long_signs :: "string list" where
  "long_signs = [''=='', ''!='', ''||'', ''&&'', ''->'']"

text \<open>\<open>w\<close> are the characters of the name or number that is being read.\<close>

function tokens :: "string \<Rightarrow> string \<Rightarrow> token list" where
  "tokens w [] = flush w"
| "tokens w (c # cs) =
     (if c = CHR '' '' then flush w @ tokens [] cs
      else if cs \<noteq> [] \<and> [c, hd cs] \<in> set long_signs
      then flush w @ Sign [c, hd cs] # tokens [] (tl cs)
      else if c \<in> set ''()=,<>*&|.-!'' then flush w @ Sign [c] # tokens [] cs
      else tokens (w @ [c]) cs)"
  by pat_completeness auto
termination by (relation "measure (\<lambda>(w, cs). length cs)") auto

section \<open>Replacing macros\<close>

text \<open>The parameters of the macros that have some; the others are replaced by name.\<close>

definition macro_parameters :: "string \<Rightarrow> string list option" where
  "macro_parameters = map_of
     [(''ncGetLastError'', []), (''ncSocketError'', [''a'']), (''ncIsBlockingError'', [''a'']),
      (''ncIsConnected'', [''a'']), (''ncSocketReset'', [''a'']), (''ncSetSocketNonBlocking'', [''a'']),
      (''ncGetInetAddr'', [''host'', ''addrPtr'']), (''ncValidInetAddr'', [''addr'']),
      (''inet_pton'', [''a'', ''b'', ''c''])]"

text \<open>The arguments in front of the closing parenthesis; \<open>d\<close> parentheses are open, \<open>x\<close> was read.\<close>

fun arguments :: "nat \<Rightarrow> token list \<Rightarrow> token list \<Rightarrow> (token list list \<times> token list) option" where
  "arguments d x [] = None"
| "arguments d x (t # ts) =
     (if t = Sign ''('' then arguments (Suc d) (x @ [t]) ts
      else if t = Sign '')'' then
        (case d of 0 \<Rightarrow> Some ([x], ts) | Suc d \<Rightarrow> arguments d (x @ [t]) ts)
      else if t = Sign '','' \<and> d = 0
      then map_option (\<lambda>(xs, ts). (x # xs, ts)) (arguments d [] ts)
      else arguments d (x @ [t]) ts)"

definition substitute :: "string list \<Rightarrow> token list list \<Rightarrow> token list \<Rightarrow> token list" where
  "substitute ps xs ts = concat (map (\<lambda>t. case t of
       Word n \<Rightarrow> (case map_of (zip ps xs) n of Some x \<Rightarrow> x | None \<Rightarrow> [t])
     | Sign s \<Rightarrow> [t]) ts)"

text \<open>One unit of fuel for each token and each replacement.\<close>

fun expand :: "macros \<Rightarrow> nat \<Rightarrow> token list \<Rightarrow> token list option" where
  "expand m 0 ts = None"
| "expand m (Suc k) [] = Some []"
| "expand m (Suc k) (Sign s # ts) = map_option ((#) (Sign s)) (expand m k ts)"
| "expand m (Suc k) (Word n # ts) =
     (case m n of
        None \<Rightarrow> map_option ((#) (Word n)) (expand m k ts)
      | Some b \<Rightarrow>
          (case macro_parameters n of
             None \<Rightarrow> expand m k (tokens [] b @ ts)
           | Some ps \<Rightarrow>
               if ts \<noteq> [] \<and> hd ts = Sign ''(''
               then (case arguments 0 [] (tl ts) of
                       None \<Rightarrow> None
                     | Some (xs, rest) \<Rightarrow> expand m k (substitute ps xs (tokens [] b) @ rest))
               else map_option ((#) (Word n)) (expand m k ts)))"

text \<open>What an expansion gives depends only on the names that can occur in it.\<close>

definition named :: "token list \<Rightarrow> string set" where
  "named ts = {n. Word n \<in> set ts}"

lemma named_simps [simp]:
  "named [] = {}" "named (Word n # ts) = insert n (named ts)" "named (Sign s # ts) = named ts"
  "named (ts @ us) = named ts \<union> named us"
  by (auto simp: named_def)

lemma named_arguments:
  "arguments d x ts = Some (xs, rest) \<Longrightarrow>
     \<Union> (named ` set xs) \<subseteq> named x \<union> named ts \<and> named rest \<subseteq> named ts"
proof (induction ts arbitrary: d x xs rest)
  case (Cons t ts)
  have more: ?case if "arguments d' (x @ [t]) ts = Some (xs, rest)" for d'
    using Cons.IH [OF that] by (cases t) auto
  show ?case
  proof (cases "t = Sign '','' \<and> d = 0")
    case True
    with Cons.prems obtain ys where "xs = x # ys" "arguments 0 [] ts = Some (ys, rest)" by auto
    with Cons.IH [of 0 "[]" ys rest] True show ?thesis by auto
  next
    case False
    with Cons.prems more show ?thesis by (cases d) (auto split: if_splits)
  qed
qed simp

lemma named_substitute: "named (substitute ps xs ts) \<subseteq> named ts \<union> \<Union> (named ` set xs)"
proof (induction ts)
  case (Cons t ts)
  then show ?case
  proof (cases t)
    case (Word n)
    have "map_of (zip ps xs) n = Some x \<Longrightarrow> x \<in> set xs" for x
      using set_zip_rightD by (fastforce dest: map_of_SomeD)
    with Word Cons show ?thesis by (fastforce simp: substitute_def split: option.splits)
  qed (auto simp: substitute_def)
qed (simp add: substitute_def)

definition closed_names :: "macros \<Rightarrow> string set \<Rightarrow> bool" where
  "closed_names m N \<longleftrightarrow> (\<forall>n b. m n = Some b \<longrightarrow> named (tokens [] b) \<subseteq> N)"

lemma expand_cong:
  assumes "closed_names m' N" "\<forall>n \<in> N. m n = m' n"
  shows "named ts \<subseteq> N \<Longrightarrow> expand m k ts = expand m' k ts"
proof (induction k arbitrary: ts)
  case (Suc k)
  show ?case
  proof (cases ts)
    case (Cons t us)
    note ts = this
    show ?thesis
    proof (cases t)
      case (Sign s)
      with ts Suc show ?thesis by simp
    next
      case (Word n)
      then have n: "m n = m' n" and us: "named us \<subseteq> N" using Suc.prems ts assms(2) by auto
      show ?thesis
      proof (cases "m' n")
        case None
        with n us Suc.IH ts Word show ?thesis by simp
      next
        case (Some b)
        have b: "named (tokens [] b) \<subseteq> N" using assms(1) Some by (simp add: closed_names_def)
        have body: "expand m k (substitute ps xs (tokens [] b) @ rest) =
            expand m' k (substitute ps xs (tokens [] b) @ rest)"
          if "arguments 0 [] (tl us) = Some (xs, rest)" "us \<noteq> []" for ps xs rest
        proof -
          have "named (tl us) \<subseteq> N" using us that(2) by (cases us; cases "hd us") auto
          with named_arguments [OF that(1)] have "\<Union> (named ` set xs) \<subseteq> N" "named rest \<subseteq> N" by auto
          with named_substitute [of ps xs "tokens [] b"] b
          have "named (substitute ps xs (tokens [] b)) \<subseteq> N" "named rest \<subseteq> N" by (meson Un_least subset_trans)+
          then show ?thesis by (intro Suc.IH) simp
        qed
        have plain: "expand m k (tokens [] b @ us) = expand m' k (tokens [] b @ us)"
          by (rule Suc.IH) (use b us in simp)
        show ?thesis
        proof (cases "macro_parameters n")
          case None
          with n Some ts Word plain show ?thesis by simp
        next
          case pars: (Some ps)
          show ?thesis
          proof (cases "us \<noteq> [] \<and> hd us = Sign ''(''")
            case True
            show ?thesis
            proof (cases "arguments 0 [] (tl us)")
              case None
              with n Some ts Word pars True show ?thesis by simp
            next
              case args: (Some r)
              obtain xs rest where "r = (xs, rest)" by force
              with n Some ts Word pars True args body [of xs rest ps] show ?thesis by simp
            qed
          next
            case False
            with n Some ts Word pars Suc.IH [OF us] show ?thesis by auto
          qed
        qed
      qed
    qed
  qed simp
qed simp

section \<open>Parsing\<close>

datatype cexpr =
    Name string | Call string "cexpr list" | Deref cexpr | AddressOf cexpr | Minus cexpr
  | Member cexpr string | Cast cexpr | Binary string cexpr cexpr

text \<open>Which binary operator binds tighter; all but the assignment associate to the left.\<close>

definition precedence :: "string \<Rightarrow> nat option" where
  "precedence = map_of [(''='', 1), (''||'', 2), (''&&'', 3), (''|'', 4), (''=='', 5), (''!='', 5),
     (''<'', 6), (''>'', 6)]"

text \<open>
  What a step of the parser is after: an expression whose operators bind at least as tight as the
  number says, the operators that follow an operand, an operand with its prefixes, what follows a
  name, the arguments of a call. The result is one expression, or the list of the arguments.
\<close>

datatype goal = Expression nat | Operators nat cexpr | Prefixed | Suffixes cexpr | Operands

definition one :: "(cexpr \<Rightarrow> cexpr) \<Rightarrow> (cexpr list \<times> token list) option \<Rightarrow> (cexpr list \<times> token list) option" where
  "one f r = map_option (\<lambda>(es, ts). (map f es, ts)) r"

definition next_is :: "string \<Rightarrow> token list \<Rightarrow> bool" where
  "next_is s ts \<longleftrightarrow> ts \<noteq> [] \<and> hd ts = Sign s"

definition next_sign :: "token list \<Rightarrow> string" where
  "next_sign ts = (case ts of Sign s # us \<Rightarrow> s | _ \<Rightarrow> [])"

primrec parse :: "nat \<Rightarrow> goal \<Rightarrow> token list \<Rightarrow> (cexpr list \<times> token list) option" where
  "parse 0 g ts = None"
| "parse (Suc k) g ts =
     (case g of
        Expression p \<Rightarrow>
          Option.bind (parse k Prefixed ts) (\<lambda>(es, us). parse k (Operators p (hd es)) us)
      | Operators p e \<Rightarrow>
          (case precedence (next_sign ts) of
             None \<Rightarrow> Some ([e], ts)
           | Some q \<Rightarrow>
               if q < p then Some ([e], ts)
               else Option.bind (parse k (Expression (if next_sign ts = ''='' then q else Suc q)) (tl ts))
                 (\<lambda>(es, us). parse k (Operators p (Binary (next_sign ts) e (hd es))) us))
      | Prefixed \<Rightarrow>
          (case ts of
             [] \<Rightarrow> None
           | t # us \<Rightarrow>
               (case t of
                  Word n \<Rightarrow> parse k (Suffixes (Name n)) us
                | Sign s \<Rightarrow>
                    if s = ''*'' then one Deref (parse k Prefixed us)
                    else if s = ''&'' then one AddressOf (parse k Prefixed us)
                    else if s = ''-'' then one Minus (parse k Prefixed us)
                    else if s \<noteq> ''('' then None
                    else if take 4 us = [Word ''unsigned'', Word ''long'', Sign ''*'', Sign '')'']
                    then one Cast (parse k Prefixed (drop 4 us))
                    else Option.bind (parse k (Expression 0) us)
                      (\<lambda>(es, vs). if next_is '')'' vs then parse k (Suffixes (hd es)) (tl vs) else None)))
      | Suffixes e \<Rightarrow>
          if next_is ''('' ts
          then (case e of
                  Name f \<Rightarrow> Option.bind (parse k Operands (tl ts)) (\<lambda>(es, us). parse k (Suffixes (Call f es)) us)
                | _ \<Rightarrow> None)
          else if next_is ''->'' ts \<or> next_is ''.'' ts
          then (case tl ts of
                  [] \<Rightarrow> None
                | t # us \<Rightarrow>
                    (case t of
                       Word f \<Rightarrow> parse k (Suffixes (Member (if next_is ''.'' ts then e else Deref e) f)) us
                     | Sign s \<Rightarrow> None))
          else Some ([e], ts)
      | Operands \<Rightarrow>
          if next_is '')'' ts then Some ([], tl ts)
          else Option.bind (parse k (Expression 0) ts)
            (\<lambda>(es, us).
               if next_is '')'' us then Some (es, tl us)
               else if next_is '','' us
               then map_option (\<lambda>(fs, vs). (es @ fs, vs)) (parse k Operands (tl us))
               else None))"

text \<open>The expression that a text of the source stands for; the fuel is more than the header needs.\<close>

definition read_source :: "macros \<Rightarrow> string \<Rightarrow> cexpr option" where
  "read_source m text =
     (case expand m 100 (tokens [] text) of
        None \<Rightarrow> None
      | Some ts \<Rightarrow> (case parse 100 (Expression 0) ts of Some ([e], []) \<Rightarrow> Some e | _ \<Rightarrow> None))"

lemma read_source_cong:
  assumes "closed_names m' N" "\<forall>n \<in> N. m n = m' n" "named (tokens [] text) \<subseteq> N"
  shows "read_source m text = read_source m' text"
  by (simp add: read_source_def expand_cong [OF assms])

section \<open>Evaluation\<close>

text \<open>What an expression is evaluated in: the system, the variables of the methods and the last error.\<close>

record world =
  w_os :: os
  w_host :: cstring
  w_fd :: fd
  w_count :: int
  w_err :: oserr

text \<open>
  Values: an \<open>int\<close>, a 32-bit unsigned number, an error number, a named constant of the system, the
  pointers to the host name and to \<open>s_addr\<close>, some other pointer, and flags with \<open>O_NONBLOCK\<close> set.
  The state is the number in \<open>s_addr\<close> and the history.
\<close>

datatype cval =
    Num int | Unsigned "32 word" | Errno oserr | Constant string | Host | Cell | Pointer | NonBlocking "32 word"

type_synonym cstate = "32 word \<times> hist"

definition error_numbers :: "(string \<times> oserr) list" where
  "error_numbers =
     [(''EALREADY'', EALREADY), (''EINPROGRESS'', EINPROGRESS), (''EAGAIN'', EAGAIN), (''EPIPE'', EPIPE),
      (''ECONNRESET'', ECONNRESET), (''EADDRINUSE'', EADDRINUSE), (''EBUSY'', EBUSY), (''EBADF'', EBADF),
      (''WSAEALREADY'', WSAEALREADY), (''WSAEWOULDBLOCK'', WSAEWOULDBLOCK), (''WSAEINVAL'', WSAEINVAL),
      (''WSAEISCONN'', WSAEISCONN), (''WSAECONNRESET'', WSAECONNRESET), (''WSAESHUTDOWN'', WSAESHUTDOWN),
      (''WSAEADDRINUSE'', WSAEADDRINUSE)]"

definition variable :: "world \<Rightarrow> string \<Rightarrow> cval option" where
  "variable W n =
     (if n = ''err'' \<or> n = ''errno'' then Some (Errno (w_err W))
      else if n = ''nSent'' \<or> n = ''nRead'' then Some (Num (w_count W))
      else if n = ''m_sockfd'' then Some (Num (w_fd W))
      else if n = ''m_hostname'' then Some Host
      else if n = ''0'' then Some (Num 0)
      else if n = ''1'' then Some (Num 1)
      else if n = ''0x01'' then Some (Num 1)
      else if n = ''SOCKET_ERROR'' then Some (Num (-1))
      else if n = ''INADDR_NONE'' then Some (Unsigned INADDR_NONE)
      else if n \<in> set [''AF_INET'', ''F_GETFD'', ''F_SETFL'', ''O_NONBLOCK'', ''FIONBIO'', ''MSG_NOSIGNAL'']
      then Some (Constant n)
      else map_option Errno (map_of error_numbers n))"

definition library_call :: "world \<Rightarrow> string \<Rightarrow> cval list \<Rightarrow> cstate \<Rightarrow> (cval \<times> cstate) option" where
  "library_call W f vs s =
     (let (a, h) = s; K = w_os W; fd = w_fd W
      in if f = ''inet_addr'' \<and> vs = [Host]
         then (let r = os_inet_addr K h (w_host W)
               in Some (Unsigned r, a, SysInetAddr (w_host W) r # h))
         else if f = ''inet_pton'' \<and> vs = [Constant ''AF_INET'', Host, Cell]
         then (let (r, b) = os_inet_pton K h (w_host W)
               in Some (Num r, if r = 1 then b else a, SysInetPton (w_host W) r b # h))
         else if f = ''WSAGetLastError'' \<and> vs = [] then Some (Errno (w_err W), a, h)
         else if f = ''fcntl'' \<and> vs = [Num fd, Constant ''F_GETFD'']
         then (let fl = os_fcntl_getfd K h fd in Some (Unsigned fl, a, SysFcntlGetfd fd fl # h))
         else if f = ''fcntl'' \<and> take 2 vs = [Num fd, Constant ''F_SETFL'']
         then (case drop 2 vs of
                 v # us \<Rightarrow> (case v of NonBlocking fl \<Rightarrow> Some (Num 0, a, SysFcntlSetfl fd fl # h) | _ \<Rightarrow> None)
               | [] \<Rightarrow> None)
         else if f = ''ioctlsocket'' \<and> vs = [Num fd, Constant ''FIONBIO'', Pointer]
         then Some (Num 0, a, SysIoctlNonblock fd # h)
         else None)"

text \<open>An \<open>int\<close> next to an unsigned number is converted to one.\<close>

definition unsigned_value :: "cval \<Rightarrow> 32 word option" where
  "unsigned_value v = (case v of Num n \<Rightarrow> Some (word_of_int n) | Unsigned w \<Rightarrow> Some w | _ \<Rightarrow> None)"

definition compared :: "(int \<Rightarrow> int \<Rightarrow> bool) \<Rightarrow> (32 word \<Rightarrow> 32 word \<Rightarrow> bool) \<Rightarrow> cval \<Rightarrow> cval \<Rightarrow> cval option" where
  "compared f g v u =
     (case (v, u) of
        (Num m, Num n) \<Rightarrow> Some (Num (of_bool (f m n)))
      | _ \<Rightarrow> (case (unsigned_value v, unsigned_value u) of
                (Some x, Some y) \<Rightarrow> Some (Num (of_bool (g x y)))
              | _ \<Rightarrow> None))"

definition equal_values :: "cval \<Rightarrow> cval \<Rightarrow> bool option" where
  "equal_values v u =
     (case (v, u) of
        (Errno d, Errno e) \<Rightarrow> Some (d = e)
      | _ \<Rightarrow> map_option (\<lambda>r. r = Num 1) (compared (=) (=) v u))"

definition operate :: "string \<Rightarrow> cval \<Rightarrow> cval \<Rightarrow> cval option" where
  "operate o1 v u =
     (if o1 = ''=='' then map_option (\<lambda>b. Num (of_bool b)) (equal_values v u)
      else if o1 = ''!='' then map_option (\<lambda>b. Num (of_bool (\<not> b))) (equal_values v u)
      else if o1 = ''<'' then compared (<) (<) v u
      else if o1 = ''>'' then compared (\<lambda>x y. y < x) (\<lambda>x y. y < x) v u
      else if o1 = ''|'' \<and> u = Constant ''O_NONBLOCK'' then map_option NonBlocking (unsigned_value v)
      else None)"

definition truth :: "cval \<Rightarrow> bool option" where
  "truth v = (case v of Num n \<Rightarrow> Some (n \<noteq> 0) | Unsigned w \<Rightarrow> Some (w \<noteq> 0) | _ \<Rightarrow> None)"

definition is_cell :: "cexpr \<Rightarrow> bool" where
  "is_cell e \<longleftrightarrow> e = Member (Member (Deref (Name ''servaddr'')) ''sin_addr'') ''s_addr''"

text \<open>\<open>place\<close>: the expression denotes \<open>s_addr\<close>, the one object that can be assigned to.\<close>

fun eval :: "world \<Rightarrow> cexpr \<Rightarrow> cstate \<Rightarrow> (cval \<times> cstate) option"
  and place :: "world \<Rightarrow> cexpr \<Rightarrow> cstate \<Rightarrow> cstate option"
  and evals :: "world \<Rightarrow> cexpr list \<Rightarrow> cstate \<Rightarrow> (cval list \<times> cstate) option" where
  "eval W (Name n) s = map_option (\<lambda>v. (v, s)) (variable W n)"
| "eval W (Call f es) s =
     (case evals W es s of None \<Rightarrow> None | Some (vs, s) \<Rightarrow> library_call W f vs s)"
| "eval W (Deref e) s =
     (case eval W e s of None \<Rightarrow> None
      | Some (v, s) \<Rightarrow> if v = Cell then Some (Unsigned (fst s), s) else None)"
| "eval W (AddressOf e) s = map_option (\<lambda>s. (Cell, s)) (place W e s)"
| "eval W (Minus e) s =
     (case eval W e s of None \<Rightarrow> None
      | Some (v, s) \<Rightarrow> (case v of Num n \<Rightarrow> Some (Num (- n), s) | _ \<Rightarrow> None))"
| "eval W (Member e f) s = (if is_cell (Member e f) then Some (Unsigned (fst s), s) else None)"
| "eval W (Cast e) s = map_option (\<lambda>(v, s). (Pointer, s)) (eval W e s)"
| "eval W (Binary o1 d e) s =
     (if o1 = ''='' then
        (case eval W e s of None \<Rightarrow> None
         | Some (v, s) \<Rightarrow>
             (case place W d s of None \<Rightarrow> None
              | Some s \<Rightarrow> map_option (\<lambda>w. (Unsigned w, w, snd s)) (unsigned_value v)))
      else
        (case eval W d s of None \<Rightarrow> None
         | Some (v, s) \<Rightarrow>
             if o1 = ''||'' \<and> truth v = Some True then Some (Num 1, s)
             else if o1 = ''&&'' \<and> truth v = Some False then Some (Num 0, s)
             else
               (case eval W e s of None \<Rightarrow> None
                | Some (u, s) \<Rightarrow>
                    if o1 = ''||'' \<or> o1 = ''&&''
                    then (if truth v = None then None
                          else map_option (\<lambda>b. (Num (of_bool b), s)) (truth u))
                    else map_option (\<lambda>r. (r, s)) (operate o1 v u))))"
| "place W (Deref e) s =
     (case eval W e s of None \<Rightarrow> None | Some (v, s) \<Rightarrow> if v = Cell then Some s else None)"
| "place W (Member e f) s = (if is_cell (Member e f) then Some s else None)"
| "place W e s = None"
| "evals W [] s = Some ([], s)"
| "evals W (e # es) s =
     (case eval W e s of None \<Rightarrow> None
      | Some (v, s) \<Rightarrow> map_option (\<lambda>(vs, s). (v # vs, s)) (evals W es s))"

text \<open>A text of the source as a condition, and as a value.\<close>

definition expr_holds :: "world \<Rightarrow> cexpr \<Rightarrow> cstate \<Rightarrow> (bool \<times> cstate) option" where
  "expr_holds W e s =
     (case eval W e s of None \<Rightarrow> None | Some (v, s) \<Rightarrow> map_option (\<lambda>b. (b, s)) (truth v))"

definition source_holds :: "macros \<Rightarrow> world \<Rightarrow> string \<Rightarrow> cstate \<Rightarrow> (bool \<times> cstate) option" where
  "source_holds m W text s =
     (case read_source m text of None \<Rightarrow> None | Some e \<Rightarrow> expr_holds W e s)"

definition source_value :: "macros \<Rightarrow> world \<Rightarrow> string \<Rightarrow> cstate \<Rightarrow> (cval \<times> cstate) option" where
  "source_value m W text s = (case read_source m text of None \<Rightarrow> None | Some e \<Rightarrow> eval W e s)"

lemmas eval_defs = expr_holds_def variable_def error_numbers_def library_call_def unsigned_value_def compared_def
  equal_values_def operate_def truth_def is_cell_def

end
