(* ===== verification/Nc_Build.thy ===== *)
theory Nc_Build
  imports Nc_Macros
begin

text \<open>
  What a configuration of the model stands for: the symbols it gives to the preprocessor, and the
  code that the macros of \<^verbatim>\<open>src/ncarch.h\<close> then select. The other theories choose between the
  branches with the fields of \<open>config\<close>; here the choice is checked against the header itself: the
  conditions of the source, with the macros of the header replaced in them, are parsed and
  evaluated as \<open>Nc_Macros\<close> does it.
\<close>

section \<open>From a configuration to the macros\<close>

definition platform_symbol :: "platform \<Rightarrow> string" where
  "platform_symbol p = (case p of Linux \<Rightarrow> ''__linux__'' | Cygwin \<Rightarrow> ''__CYGWIN__'' | OpenBSD \<Rightarrow> ''__OpenBSD__''
     | FreeBSD \<Rightarrow> ''__FreeBSD__'' | Darwin \<Rightarrow> ''__APPLE__'' | Win32 \<Rightarrow> ''WIN32'')"

definition build_symbols :: "platform \<Rightarrow> bool \<Rightarrow> bool \<Rightarrow> bool \<Rightarrow> string list" where
  "build_symbols p poll threads pton =
     platform_symbol p # [''HAVE_SOCKET'', ''HAVE_SELECT'', ''HAVE_GETHOSTBYNAME''] @
     (if poll then [''HAVE_POLL''] else []) @ (if threads then [''HAVE_THREADS''] else []) @
     (if pton then [''HAVE_INET_PTON''] else [])"

definition config_symbols :: "config \<Rightarrow> string set" where
  "config_symbols c =
     set (build_symbols (cfg_platform c) (cfg_have_poll c) (cfg_have_threads c) (cfg_have_inet_pton c))"

section \<open>The conditions of the source\<close>

text \<open>
  The texts of \<^verbatim>\<open>src/ncsocket.cpp\<close> and \<^verbatim>\<open>src/ncsocklist.cpp\<close> in which the macros occur, and what
  they come to on a platform once the macros are replaced.
\<close>

abbreviation test :: "string \<Rightarrow> string \<Rightarrow> cexpr" where
  "test x n \<equiv> Binary ''=='' (Name x) (Name n)"

abbreviation either :: "cexpr \<Rightarrow> cexpr \<Rightarrow> cexpr" where
  "either d e \<equiv> Binary ''||'' d e"

definition address_cell :: cexpr where
  "address_cell = Member (Member (Deref (Name ''servaddr'')) ''sin_addr'') ''s_addr''"

definition blocking_expr :: "platform \<Rightarrow> cexpr" where
  "blocking_expr p = (if p = Win32
     then either (either (test ''err'' ''WSAEALREADY'') (test ''err'' ''WSAEWOULDBLOCK'')) (test ''err'' ''WSAEINVAL'')
     else either (either (test ''err'' ''EALREADY'') (test ''err'' ''EINPROGRESS'')) (test ''err'' ''EAGAIN''))"

definition reset_expr :: "platform \<Rightarrow> cexpr" where
  "reset_expr p = (if p = Win32 then either (test ''err'' ''WSAECONNRESET'') (test ''err'' ''WSAESHUTDOWN'')
     else either (test ''err'' ''EPIPE'') (test ''err'' ''ECONNRESET''))"

definition failed_expr :: "platform \<Rightarrow> cexpr" where
  "failed_expr p = (if p = Win32 then test ''nSent'' ''SOCKET_ERROR'' else Binary ''=='' (Name ''nSent'') (Minus (Name ''1'')))"

definition address_expr :: "platform \<Rightarrow> bool \<Rightarrow> cexpr" where
  "address_expr p pton =
     (if p = Win32 \<or> p = FreeBSD \<or> p = Darwin
      then Binary ''='' (Deref (AddressOf address_cell))
        (Binary ''!='' (Call ''inet_addr'' [Name ''m_hostname'']) (Name ''INADDR_NONE''))
      else if p = Cygwin \<and> \<not> pton then Binary ''>'' (Call ''inet_addr'' [Name ''m_hostname'']) (Name ''0'')
      else Binary ''>'' (Call ''inet_pton'' [Name ''AF_INET'', Name ''m_hostname'', AddressOf address_cell]) (Name ''0''))"

definition nonblocking_expr :: "platform \<Rightarrow> cexpr" where
  "nonblocking_expr p = (if p = Win32
     then Call ''ioctlsocket'' [Name ''m_sockfd'', Name ''FIONBIO'', Cast (Name ''0x01'')]
     else Call ''fcntl'' [Name ''m_sockfd'', Name ''F_SETFL'',
       Binary ''|'' (Call ''fcntl'' [Name ''m_sockfd'', Name ''F_GETFD'']) (Name ''O_NONBLOCK'')])"

definition source_texts :: "platform \<Rightarrow> bool \<Rightarrow> (string \<times> cexpr) list" where
  "source_texts p pton =
     [(''ncIsBlockingError(err)'', blocking_expr p),
      (''ncIsConnected(err)'', if p = Win32 then test ''err'' ''WSAEISCONN'' else Name ''0''),
      (''ncSocketReset(err)'', reset_expr p),
      (''ncSocketError(nSent) && ncSocketReset(err)'', Binary ''&&'' (failed_expr p) (reset_expr p)),
      (''(nSent > 0) || ncIsBlockingError(err)'', either (Binary ''>'' (Name ''nSent'') (Name ''0'')) (blocking_expr p)),
      (''(nRead > 0) || ((nRead == 0) && ncIsBlockingError(err))'',
       either (Binary ''>'' (Name ''nRead'') (Name ''0''))
         (Binary ''&&'' (Binary ''=='' (Name ''nRead'') (Name ''0'')) (blocking_expr p))),
      (''ncAddrInUse'', if p = Win32 then Binary ''=='' (Call ''WSAGetLastError'' []) (Name ''WSAEADDRINUSE'')
       else test ''errno'' ''EADDRINUSE''),
      (''ncValidInetAddr(ncGetInetAddr(m_hostname,&servaddr->sin_addr.s_addr))'', address_expr p pton),
      (''ncSetSocketNonBlocking(m_sockfd)'', nonblocking_expr p),
      (''ncRecvFlag'', Name (if p = Linux then ''MSG_NOSIGNAL'' else ''0''))]"

section \<open>The header on the symbols of a configuration\<close>

text \<open>The macros that occur in these texts, with their bodies; one run of the header for each configuration.\<close>

definition macro_names :: "string list" where
  "macro_names = [''ncGetLastError'', ''ncSocketError'', ''ncIsBlockingError'', ''ncIsConnected'', ''ncSocketReset'',
     ''ncAddrInUse'', ''ncSetSocketNonBlocking'', ''ncRecvFlag'', ''ncGetInetAddr'', ''ncValidInetAddr'', ''inet_pton'']"

definition macro_table :: "platform \<Rightarrow> bool \<Rightarrow> (string \<times> string) list" where
  "macro_table p pton =
     (if p = Win32 then
       [(''ncGetLastError'', ''WSAGetLastError()''),
        (''ncSocketError'', ''(a == SOCKET_ERROR)''),
        (''ncIsBlockingError'', ''((a == WSAEALREADY) || (a == WSAEWOULDBLOCK) || (a == WSAEINVAL))''),
        (''ncIsConnected'', ''(a == WSAEISCONN)''),
        (''ncSocketReset'', ''((a == WSAECONNRESET) || (a == WSAESHUTDOWN))''),
        (''ncAddrInUse'', ''(ncGetLastError() == WSAEADDRINUSE)''),
        (''ncSetSocketNonBlocking'', ''ioctlsocket(a,FIONBIO,(unsigned long *)0x01)'')]
      else
       [(''ncGetLastError'', ''errno''),
        (''ncSocketError'', ''(a == -1)''),
        (''ncIsBlockingError'', ''((a == EALREADY) || (a == EINPROGRESS) || (a == EAGAIN))''),
        (''ncIsConnected'', ''0''),
        (''ncSocketReset'', ''((a == EPIPE) || (a == ECONNRESET))''),
        (''ncAddrInUse'', ''(errno == EADDRINUSE)''),
        (''ncSetSocketNonBlocking'', ''fcntl(m_sockfd,F_SETFL,fcntl(a,F_GETFD) | O_NONBLOCK)'')]) @
     [(''ncRecvFlag'', if p = Linux then ''MSG_NOSIGNAL'' else ''0'')] @
     (if p = Win32 \<or> p = FreeBSD \<or> p = Darwin
      then [(''ncGetInetAddr'', ''*addrPtr = inet_addr(host)''), (''ncValidInetAddr'', ''(addr != INADDR_NONE)'')]
      else [(''ncGetInetAddr'', ''inet_pton(AF_INET,host,addrPtr)''), (''ncValidInetAddr'', ''(addr > 0)'')]) @
     (if p = Cygwin \<and> \<not> pton then [(''inet_pton'', ''inet_addr(b)'')] else [])"

definition header_ok :: "platform \<Rightarrow> bool \<Rightarrow> bool \<Rightarrow> bool \<Rightarrow> bool" where
  "header_ok p poll threads pton =
     (case cpp ncarch_h (symbols (set (build_symbols p poll threads pton))) of
        Inl e \<Rightarrow> False
      | Inr m \<Rightarrow> list_all (\<lambda>n. m n = map_of (macro_table p pton) n) macro_names \<and>
          cpp_holds select_version m = (p = Win32 \<or> \<not> poll) \<and>
          cpp_holds poll_version m = (\<not> (p = Win32 \<or> \<not> poll)) \<and>
          cpp_holds mutex_methods m = (p \<noteq> Cygwin \<and> p \<noteq> Darwin))"

definition header_always_ok :: "platform \<Rightarrow> bool" where
  "header_always_ok p = list_all (\<lambda>a. list_all (\<lambda>b. list_all (\<lambda>d. header_ok p a b d)
     [True, False]) [True, False]) [True, False]"

lemma header_computed_linux: "header_always_ok Linux"
  by code_simp

lemma header_computed_cygwin: "header_always_ok Cygwin"
  by code_simp

lemma header_computed_openbsd: "header_always_ok OpenBSD"
  by code_simp

lemma header_computed_freebsd: "header_always_ok FreeBSD"
  by code_simp

lemma header_computed_darwin: "header_always_ok Darwin"
  by code_simp

lemma header_computed_win: "header_always_ok Win32"
  by code_simp

lemma header_ok_all: "header_ok p a b d"
proof -
  have "header_always_ok p"
    using header_computed_linux header_computed_cygwin header_computed_openbsd header_computed_freebsd
      header_computed_darwin header_computed_win by (cases p) simp_all
  then show ?thesis by (cases a; cases b; cases d; simp add: header_always_ok_def)
qed

text \<open>The other names in the texts and in the bodies are no macros.\<close>

definition plain_names :: "string list" where
  "plain_names = map fst error_numbers @
     [''err'', ''errno'', ''nSent'', ''nRead'', ''m_sockfd'', ''m_hostname'', ''servaddr'', ''sin_addr'', ''s_addr'',
      ''a'', ''b'', ''c'', ''host'', ''addr'', ''addrPtr'', ''0'', ''1'', ''0x01'', ''unsigned'', ''long'',
      ''AF_INET'', ''INADDR_NONE'', ''SOCKET_ERROR'', ''F_GETFD'', ''F_SETFL'', ''O_NONBLOCK'', ''FIONBIO'',
      ''MSG_NOSIGNAL'', ''WSAGetLastError'', ''inet_addr'', ''fcntl'', ''ioctlsocket'']"

definition text_names :: "string set" where
  "text_names = set (macro_names @ plain_names)"

definition within_names :: "string \<Rightarrow> bool" where
  "within_names t = list_all (\<lambda>x. case x of token.Word n \<Rightarrow> n \<in> set macro_names \<or> n \<in> set plain_names | Sign s \<Rightarrow> True)
     (tokens [] t)"

lemma within_names: "within_names t \<Longrightarrow> named (tokens [] t) \<subseteq> text_names"
  by (auto simp: within_names_def named_def text_names_def list_all_iff)

definition table_ok :: "platform \<Rightarrow> bool \<Rightarrow> bool" where
  "table_ok p pton \<longleftrightarrow>
     list_all (\<lambda>(n, b). within_names b) (macro_table p pton) \<and>
     list_all (\<lambda>n. map_of (macro_table p pton) n = None) plain_names \<and>
     list_all (\<lambda>(t, e). within_names t \<and> read_source (map_of (macro_table p pton)) t = Some e) (source_texts p pton)"

lemma table_computed_linux: "table_ok Linux True" "table_ok Linux False"
  by code_simp+

lemma table_computed_cygwin: "table_ok Cygwin True" "table_ok Cygwin False"
  by code_simp+

lemma table_computed_openbsd: "table_ok OpenBSD True" "table_ok OpenBSD False"
  by code_simp+

lemma table_computed_freebsd: "table_ok FreeBSD True" "table_ok FreeBSD False"
  by code_simp+

lemma table_computed_darwin: "table_ok Darwin True" "table_ok Darwin False"
  by code_simp+

lemma table_computed_win: "table_ok Win32 True" "table_ok Win32 False"
  by code_simp+

lemma table_ok_all: "table_ok p pton"
  using table_computed_linux table_computed_cygwin table_computed_openbsd table_computed_freebsd
    table_computed_darwin table_computed_win by (cases p; cases pton) simp_all

lemma plain_names_kept:
  "list_all (\<lambda>n. n \<notin> writes ncarch_h \<and> n \<notin> set (platform_symbols @ configure_symbols)) plain_names"
  by code_simp

lemma build_symbols_known: "set (build_symbols p poll threads pton) \<subseteq> set (platform_symbols @ configure_symbols)"
  by (cases p; cases poll; cases threads; cases pton)
    (simp_all add: build_symbols_def platform_symbol_def platform_symbols_def configure_symbols_def)

lemma plain_names_undefined:
  assumes "cpp ncarch_h (symbols (config_symbols c)) = Inr m" "n \<in> set plain_names"
  shows "m n = None"
proof -
  have "n \<notin> writes ncarch_h" "n \<notin> config_symbols c"
    using plain_names_kept assms(2)
      build_symbols_known [of "cfg_platform c" "cfg_have_poll c" "cfg_have_threads c" "cfg_have_inet_pton c"]
    unfolding list_all_iff config_symbols_def by blast+
  with cpp_keeps [OF assms(1)] show ?thesis by (simp add: symbols_def)
qed

lemma texts_read:
  assumes m: "cpp ncarch_h (symbols (config_symbols c)) = Inr m"
    and same: "list_all (\<lambda>n. m n = map_of (macro_table (cfg_platform c) (cfg_have_inet_pton c)) n) macro_names"
  shows "list_all (\<lambda>(t, e). read_source m t = Some e) (source_texts (cfg_platform c) (cfg_have_inet_pton c))"
proof -
  let ?t = "macro_table (cfg_platform c) (cfg_have_inet_pton c)"
  have ok: "table_ok (cfg_platform c) (cfg_have_inet_pton c)" by (rule table_ok_all)
  have agree: "\<forall>n \<in> text_names. m n = map_of ?t n"
    using ok same plain_names_undefined [OF m] by (auto simp: table_ok_def text_names_def list_all_iff)
  have closed: "closed_names (map_of ?t) text_names"
    using ok within_names by (fastforce simp: table_ok_def closed_names_def list_all_iff dest: map_of_SomeD)
  have "read_source m t = read_source (map_of ?t) t" if "within_names t" for t
    by (rule read_source_cong [OF closed agree within_names [OF that]])
  with ok show ?thesis by (auto simp: table_ok_def list_all_iff)
qed

section \<open>What the conditions mean\<close>

lemma blocking_holds:
  assumes "w_err W = e"
  shows "eval W (blocking_expr (cfg_platform c)) s = Some (Num (of_bool (ncIsBlockingError c e)), s)"
  using assms by (cases s) (simp add: blocking_expr_def eval_defs ncIsBlockingError_def)

lemma reset_holds:
  assumes "w_err W = e"
  shows "eval W (reset_expr (cfg_platform c)) s = Some (Num (of_bool (ncSocketReset c e)), s)"
  using assms by (cases s) (simp add: reset_expr_def eval_defs ncSocketReset_def)

lemma failed_holds:
  assumes "w_count W = n"
  shows "eval W (failed_expr (cfg_platform c)) s = Some (Num (of_bool (ncSocketError n)), s)"
  using assms by (cases s) (simp add: failed_expr_def eval_defs ncSocketError_def)

lemma address_holds:
  assumes "w_os W = K" "w_host W = host"
  shows "expr_holds W (address_expr (cfg_platform c) (cfg_have_inet_pton c)) (a, h) =
    Some (ncGetInetAddr K c host a h)"
  using assms
  by (simp add: address_expr_def address_cell_def eval_defs ncGetInetAddr_defs Let_def split: prod.split)

lemma nonblocking_holds:
  assumes "w_os W = K" "w_fd W = fd"
  shows "eval W (nonblocking_expr (cfg_platform c)) (a, h) =
    Some (Num 0, a, ncSetSocketNonBlocking K c fd h)"
  using assms
  by (simp add: nonblocking_expr_def eval_defs ncSetSocketNonBlocking_defs Let_def)

lemma conditions_hold:
  assumes "w_err W = err" "w_count W = n" and p_def: "p = cfg_platform c"
  shows "expr_holds W (blocking_expr p) s = Some (ncIsBlockingError c err, s)"
    and "expr_holds W (if p = Win32 then test ''err'' ''WSAEISCONN'' else Name ''0'') s = Some (ncIsConnected c err, s)"
    and "expr_holds W (reset_expr p) s = Some (ncSocketReset c err, s)"
    and "expr_holds W (Binary ''&&'' (failed_expr p) (reset_expr p)) s =
      Some (ncSocketError n \<and> ncSocketReset c err, s)"
    and "expr_holds W (either (Binary ''>'' (Name ''nSent'') (Name ''0'')) (blocking_expr p)) s =
      Some (0 < n \<or> ncIsBlockingError c err, s)"
    and "expr_holds W (either (Binary ''>'' (Name ''nRead'') (Name ''0''))
        (Binary ''&&'' (Binary ''=='' (Name ''nRead'') (Name ''0'')) (blocking_expr p))) s =
      Some (0 < n \<or> n = 0 \<and> ncIsBlockingError c err, s)"
    and "expr_holds W (if p = Win32 then Binary ''=='' (Call ''WSAGetLastError'' []) (Name ''WSAEADDRINUSE'')
        else test ''errno'' ''EADDRINUSE'') s = Some (ncAddrInUse c err, s)"
proof -
  note b = blocking_holds [OF assms(1), of c] and r = reset_holds [OF assms(1), of c]
    and f = failed_holds [OF assms(2), of c]
  show "expr_holds W (blocking_expr p) s = Some (ncIsBlockingError c err, s)"
    by (simp add: expr_holds_def p_def b truth_def)
  show "expr_holds W (if p = Win32 then test ''err'' ''WSAEISCONN'' else Name ''0'') s = Some (ncIsConnected c err, s)"
    using assms(1) by (simp add: eval_defs p_def ncIsConnected_def)
  show "expr_holds W (reset_expr p) s = Some (ncSocketReset c err, s)"
    by (simp add: expr_holds_def p_def r truth_def)
  show "expr_holds W (Binary ''&&'' (failed_expr p) (reset_expr p)) s = Some (ncSocketError n \<and> ncSocketReset c err, s)"
    by (simp add: expr_holds_def p_def f r truth_def)
  show "expr_holds W (either (Binary ''>'' (Name ''nSent'') (Name ''0'')) (blocking_expr p)) s =
      Some (0 < n \<or> ncIsBlockingError c err, s)"
    using assms(2) by (simp add: p_def b eval_defs)
  show "expr_holds W (either (Binary ''>'' (Name ''nRead'') (Name ''0''))
        (Binary ''&&'' (Binary ''=='' (Name ''nRead'') (Name ''0'')) (blocking_expr p))) s =
      Some (0 < n \<or> n = 0 \<and> ncIsBlockingError c err, s)"
    using assms(2) by (simp add: p_def b eval_defs)
  show "expr_holds W (if p = Win32 then Binary ''=='' (Call ''WSAGetLastError'' []) (Name ''WSAEADDRINUSE'')
        else test ''errno'' ''EADDRINUSE'') s = Some (ncAddrInUse c err, s)"
    using assms(1) by (cases s) (simp add: eval_defs p_def ncAddrInUse_def)
qed

lemma flag_value:
  "eval W (Name (if cfg_platform c = Linux then ''MSG_NOSIGNAL'' else ''0'')) s =
    Some (case ncRecvFlag c of NoFlag \<Rightarrow> Num 0 | MSG_NOSIGNAL \<Rightarrow> Constant ''MSG_NOSIGNAL'', s)"
  by (simp add: eval_defs ncRecvFlag_def)

section \<open>Properties\<close>

text \<open>
  C19: for every configuration of the model the header, run on the symbols the configuration stands
  for, raises no error and compiles the version of the transfers that the model takes; on Cygwin
  and on Darwin it leaves the methods of \<^verbatim>\<open>ncMutex\<close> out. And the expressions of the source in
  which its macros occur, parsed and evaluated after the macros are replaced, mean what the model's
  definitions say, in every world: the flag of the calls that move data, the tests of error numbers
  and of failed calls, the conversion of an address with all that it stores, and the call for
  non-blocking mode.
\<close>

theorem model_follows_header:
  "case cpp ncarch_h (symbols (config_symbols c)) of
     Inl e \<Rightarrow> False
   | Inr m \<Rightarrow>
       (let s = (a, h); W = \<lparr>w_os = K, w_host = host, w_fd = fd, w_count = n, w_err = err\<rparr>
        in cpp_holds select_version m = uses_select c \<and> cpp_holds poll_version m = (\<not> uses_select c) \<and>
          cpp_holds mutex_methods m = (cfg_platform c \<noteq> Cygwin \<and> cfg_platform c \<noteq> Darwin) \<and>
          source_value m W ''ncRecvFlag'' s =
            Some (case ncRecvFlag c of NoFlag \<Rightarrow> Num 0 | MSG_NOSIGNAL \<Rightarrow> Constant ''MSG_NOSIGNAL'', s) \<and>
          source_holds m W ''ncIsBlockingError(err)'' s = Some (ncIsBlockingError c err, s) \<and>
          source_holds m W ''ncIsConnected(err)'' s = Some (ncIsConnected c err, s) \<and>
          source_holds m W ''ncSocketReset(err)'' s = Some (ncSocketReset c err, s) \<and>
          source_holds m W ''ncSocketError(nSent) && ncSocketReset(err)'' s =
            Some (ncSocketError n \<and> ncSocketReset c err, s) \<and>
          source_holds m W ''(nSent > 0) || ncIsBlockingError(err)'' s =
            Some (0 < n \<or> ncIsBlockingError c err, s) \<and>
          source_holds m W ''(nRead > 0) || ((nRead == 0) && ncIsBlockingError(err))'' s =
            Some (0 < n \<or> n = 0 \<and> ncIsBlockingError c err, s) \<and>
          source_holds m W ''ncAddrInUse'' s = Some (ncAddrInUse c err, s) \<and>
          source_holds m W ''ncValidInetAddr(ncGetInetAddr(m_hostname,&servaddr->sin_addr.s_addr))'' s =
            Some (ncGetInetAddr K c host a h) \<and>
          source_value m W ''ncSetSocketNonBlocking(m_sockfd)'' s =
            Some (Num 0, a, ncSetSocketNonBlocking K c fd h))"
proof -
  let ?W = "\<lparr>w_os = K, w_host = host, w_fd = fd, w_count = n, w_err = err\<rparr>"
  have ok: "header_ok (cfg_platform c) (cfg_have_poll c) (cfg_have_threads c) (cfg_have_inet_pton c)"
    by (rule header_ok_all)
  then obtain m where m: "cpp ncarch_h (symbols (config_symbols c)) = Inr m"
    by (auto simp: header_ok_def config_symbols_def split: sum.splits)
  with ok have sel: "cpp_holds select_version m = uses_select c" "cpp_holds poll_version m = (\<not> uses_select c)"
    "cpp_holds mutex_methods m = (cfg_platform c \<noteq> Cygwin \<and> cfg_platform c \<noteq> Darwin)"
    and same: "list_all (\<lambda>n. m n = map_of (macro_table (cfg_platform c) (cfg_have_inet_pton c)) n) macro_names"
    by (simp_all add: header_ok_def config_symbols_def uses_select_def)
  note read = texts_read [OF m same, unfolded source_texts_def list.pred_inject prod.case]
  have W: "w_os ?W = K" "w_host ?W = host" "w_fd ?W = fd" "w_count ?W = n" "w_err ?W = err" by simp_all
  note means = conditions_hold [OF W(5,4) refl, of c] address_holds [OF W(1,2), of c]
    nonblocking_holds [OF W(1,3), of c] flag_value [of ?W c]
  show ?thesis
    using m sel read by (simp only: sum.case Let_def source_holds_def source_value_def option.case means simp_thms)
qed

end
