(* ===== verification/Nc_Mutex_Calls.thy ===== *)
theory Nc_Mutex_Calls
  imports Nc_Mutex
begin

text \<open>
  The public interface of \<^verbatim>\<open>src/ncmutex.h\<close>: any sequence of calls that any threads make on one
  object, one call at a time, compared with an abstract lock that is nothing but its holder and, on
  Windows, the memory that a refused \<open>trylock\<close> has wiped out the flag of \<open>isLocked\<close>.
\<close>

datatype mutex_method = Lock | Unlock | Trylock | IsLocked

text \<open>A call that blocks leaves the object alone; it may be made again later in the sequence.\<close>

datatype mutex_answer = Returns | Blocks | Code retcode | Flag int

fun mutex_call ::
    "config \<Rightarrow> 'm mutex_api \<Rightarrow> tid \<times> mutex_method \<Rightarrow> 'm ncMutex \<Rightarrow> mutex_answer \<times> 'm ncMutex" where
  "mutex_call c A (t, Lock) M =
     (case (if cfg_platform c = Win32 then ncMutex_lock_win A t M else ncMutex_lock A t M) of
        None \<Rightarrow> (Blocks, M)
      | Some N \<Rightarrow> (Returns, N))"
| "mutex_call c A (t, Unlock) M =
     (Returns, if cfg_platform c = Win32 then ncMutex_unlock_win A t M else ncMutex_unlock A t M)"
| "mutex_call c A (t, Trylock) M =
     (let (r, N) = (if cfg_platform c = Win32 then ncMutex_trylock_win c A t M else ncMutex_trylock_posix A t M)
      in (Code r, N))"
| "mutex_call c A (t, IsLocked) M = (Flag (ncMutex_isLocked M), M)"

fun mutex_calls ::
    "config \<Rightarrow> 'm mutex_api \<Rightarrow> (tid \<times> mutex_method) list \<Rightarrow> 'm ncMutex \<Rightarrow> mutex_answer list \<times> 'm ncMutex" where
  "mutex_calls c A [] M = ([], M)"
| "mutex_calls c A (m # ms) M =
     (let (a, M) = mutex_call c A m M; (as, M) = mutex_calls c A ms M in (a # as, M))"

definition mutex_end :: "config \<Rightarrow> 'm mutex_api \<Rightarrow> tid \<Rightarrow> 'm ncMutex \<Rightarrow> 'm" where
  "mutex_end c A t M = (if cfg_platform c = Win32 then ncMutex_destroy_win A t M else ncMutex_destroy A t M)"

section \<open>The reference\<close>

text \<open>
  A lock is its holder. \<open>k\<close> is the holder and \<open>lost\<close> says that \<open>isLocked\<close> has come to deny it: on
  Windows a \<open>trylock\<close> that meets a holder has that effect until the lock is taken the next time.
\<close>

type_synonym lock_ref = "tid option \<times> bool"

fun lock_call :: "config \<Rightarrow> tid \<times> mutex_method \<Rightarrow> lock_ref \<Rightarrow> mutex_answer \<times> lock_ref" where
  "lock_call c (t, Lock) (k, lost) = (if k = None then (Returns, Some t, False) else (Blocks, k, lost))"
| "lock_call c (t, Unlock) (k, lost) = (Returns, None, False)"
| "lock_call c (t, Trylock) (k, lost) =
     (if cfg_platform c = Win32 \<and> \<not> cfg_winnt4 c then (Code NC_NOTSUPPORTED, k, lost)
      else if k = None then (Code NC_OK, Some t, False)
      else (Code NC_FAILED, k, lost \<or> cfg_platform c = Win32))"
| "lock_call c (t, IsLocked) (k, lost) = (Flag (if k = None \<or> lost then 0 else 1), k, lost)"

fun lock_calls :: "config \<Rightarrow> (tid \<times> mutex_method) list \<Rightarrow> lock_ref \<Rightarrow> mutex_answer list \<times> lock_ref" where
  "lock_calls c [] x = ([], x)"
| "lock_calls c (m # ms) x = (let (a, x) = lock_call c m x; (as, x) = lock_calls c ms x in (a # as, x))"

text \<open>
  The uses that the platforms define alike: no thread takes the lock again while it holds it, and
  only the holder gives it back.
\<close>

fun fair_call :: "tid \<times> mutex_method \<Rightarrow> lock_ref \<Rightarrow> bool" where
  "fair_call (t, Lock) x = (fst x \<noteq> Some t)"
| "fair_call (t, Unlock) x = (fst x = Some t)"
| "fair_call (t, Trylock) x = (fst x \<noteq> Some t)"
| "fair_call (t, IsLocked) x = True"

fun fair_calls :: "config \<Rightarrow> (tid \<times> mutex_method) list \<Rightarrow> lock_ref \<Rightarrow> bool" where
  "fair_calls c [] x = True"
| "fair_calls c (m # ms) x = (fair_call m x \<and> fair_calls c ms (snd (lock_call c m x)))"

section \<open>Lemmas\<close>

definition held_by :: "config \<Rightarrow> 'm mutex_api \<Rightarrow> lock_ref \<Rightarrow> 'm ncMutex \<Rightarrow> bool" where
  "held_by c A x M \<longleftrightarrow> (let (k, lost) = x in
     mutex_doc A \<and> mx_owner A (m_mutex M) = k \<and> mx_depth A (m_mutex M) = (if k = None then 0 else 1) \<and>
     m_locked M = (if k = None \<or> lost then 0 else 1) \<and> (lost \<longrightarrow> k \<noteq> None \<and> cfg_platform c = Win32))"

lemma held_by_init: "mutex_doc A \<Longrightarrow> held_by c A (None, False) (ncMutex_init A)"
  using mutex_doc_init [of A] by (simp add: held_by_def ncMutex_init_def)

lemma held_by_lock:
  assumes "held_by c A (k, lost) M" "k \<noteq> Some t"
  shows "\<exists>N. mutex_call c A (t, Lock) M = (fst (lock_call c (t, Lock) (k, lost)), N) \<and>
    held_by c A (snd (lock_call c (t, Lock) (k, lost))) N"
proof -
  from assms(1) have doc: "mutex_doc A" by (simp add: held_by_def)
  show ?thesis
  proof (cases k)
    case None
    with assms(1) have own: "mx_owner A (m_mutex M) = None" by (simp add: held_by_def)
    obtain m where m: "mx_lock A t (m_mutex M) = Some m" using mutex_doc_free(2) [OF doc own] by blast
    with mutex_doc_takes [OF doc disjI1 [OF m]] mutex_doc_free(1) [OF doc own] None doc show ?thesis
      by (simp add: win_same ncMutex_lock_def held_by_def)
  next
    case (Some u)
    have "mx_lock A t (m_mutex M) = None"
    proof (cases "mx_lock A t (m_mutex M)")
      case (Some m)
      from mutex_doc_takes(1) [OF doc disjI1 [OF Some]] assms \<open>k = Some u\<close> show ?thesis
        by (simp add: held_by_def)
    qed
    with Some assms(1) show ?thesis by (simp add: win_same ncMutex_lock_def)
  qed
qed

lemma held_by_trylock:
  assumes "held_by c A (k, lost) M" "k \<noteq> Some t"
  shows "\<exists>N. mutex_call c A (t, Trylock) M = (fst (lock_call c (t, Trylock) (k, lost)), N) \<and>
    held_by c A (snd (lock_call c (t, Trylock) (k, lost))) N"
proof -
  from assms(1) have doc: "mutex_doc A" and own: "mx_owner A (m_mutex M) = k" by (simp_all add: held_by_def)
  obtain e m where m: "mx_trylock A t (m_mutex M) = (e, m)" by force
  show ?thesis
  proof (cases k)
    case None
    with trylock_cases(1) [OF doc m] own doc assms(1) m show ?thesis
      by (simp add: ncMutex_trylock_posix_def ncMutex_trylock_win_def held_by_def)
  next
    case (Some u)
    with trylock_cases(2) [OF doc m] own doc assms m show ?thesis
      by (simp add: ncMutex_trylock_posix_def ncMutex_trylock_win_def held_by_def)
  qed
qed

lemma held_by_call:
  assumes "held_by c A x M" "fair_call m x"
  shows "\<exists>N. mutex_call c A m M = (fst (lock_call c m x), N) \<and> held_by c A (snd (lock_call c m x)) N"
proof -
  obtain t f where m: "m = (t, f)" by force
  obtain k lost where x: "x = (k, lost)" by force
  show ?thesis
  proof (cases f)
    case Lock
    with assms m x held_by_lock [of c A k lost M t] show ?thesis
      by (simp del: mutex_call.simps lock_call.simps)
  next
    case Trylock
    with assms m x held_by_trylock [of c A k lost M t] show ?thesis
      by (simp del: mutex_call.simps lock_call.simps)
  next
    case Unlock
    with assms m x mutex_doc_unlocks [of A "m_mutex M" t] show ?thesis
      by (simp add: held_by_def win_same ncMutex_unlock_def)
  next
    case IsLocked
    with assms m x show ?thesis by (simp add: held_by_def ncMutex_isLocked_def)
  qed
qed

lemma held_by_calls:
  "held_by c A x M \<Longrightarrow> fair_calls c ms x \<Longrightarrow>
     \<exists>N. mutex_calls c A ms M = (fst (lock_calls c ms x), N) \<and> held_by c A (snd (lock_calls c ms x)) N"
proof (induction ms arbitrary: x M)
  case (Cons m ms)
  then obtain N where N: "mutex_call c A m M = (fst (lock_call c m x), N)" "held_by c A (snd (lock_call c m x)) N"
    using held_by_call [of c A x M m] by auto
  with Cons.IH [OF N(2)] Cons.prems(2) show ?case by (auto simp: split_beta)
qed simp

lemma held_by_end:
  assumes "held_by c A (k, lost) M" "k = None \<or> k = Some t"
  shows "mx_owner A (mutex_end c A t M) = (if lost then k else None)"
  using assms mutex_doc_unlocks(2) [of A "m_mutex M" t]
  by (auto simp: mutex_end_def win_same ncMutex_destroy_def ncMutex_unlock_def held_by_def split: if_splits)

section \<open>Properties\<close>

text \<open>
  C18: for every sequence of calls on a new object in which no thread takes the lock while it holds
  it and only the holder unlocks, every answer (returns or blocks, the code of \<open>trylock\<close>, the value
  of \<open>isLocked\<close>) is the one of the reference, whose state is the holder and the bit \<open>lost\<close>, and the
  lock of the platform has that holder. On the POSIX platforms the bit is never set, so the object
  is a lock and \<open>isLocked\<close> tells the truth. On Windows a \<open>trylock\<close> that meets another holder sets it:
  from then on \<open>isLocked\<close> denies that the lock is held, until it is next taken. The destructor, run
  by the holder or on a free lock, leaves the lock free unless the bit is set; then it destroys the
  lock while it is held.
\<close>

theorem mutex_calls_reference:
  assumes "mutex_doc A" "fair_calls c ms (None, False)" "lock_calls c ms (None, False) = (as, k, lost)"
  shows "\<exists>N. mutex_calls c A ms (ncMutex_init A) = (as, N) \<and> mx_owner A (m_mutex N) = k \<and>
    (lost \<longrightarrow> k \<noteq> None \<and> cfg_platform c = Win32) \<and>
    (\<forall>t. k = None \<or> k = Some t \<longrightarrow> mx_owner A (mutex_end c A t N) = (if lost then k else None))"
proof -
  from held_by_calls [OF held_by_init [OF assms(1)] assms(2)] assms(3) obtain N where
    N: "mutex_calls c A ms (ncMutex_init A) = (as, N)" "held_by c A (k, lost) N" by auto
  with held_by_end [OF N(2)] show ?thesis by (auto simp: held_by_def)
qed

text \<open>On Linux a contended \<open>trylock\<close> leaves the flag alone; on Windows \<open>isLocked\<close> is wrong after it.\<close>

theorem mutex_calls_reference_witness:
  "\<exists>N W. mutex_calls linux_config owner_lock [(1, Lock), (2, Trylock), (2, IsLocked), (2, Lock), (1, Unlock), (2, Lock)]
      (ncMutex_init owner_lock) = ([Returns, Code NC_FAILED, Flag 1, Blocks, Returns, Returns], N) \<and>
    mx_owner owner_lock (m_mutex N) = Some 2 \<and>
    mx_owner owner_lock (mutex_end linux_config owner_lock 2 N) = None \<and>
    mutex_calls win32_config owner_lock [(1, Lock), (2, IsLocked), (2, Trylock), (2, IsLocked)]
      (ncMutex_init owner_lock) = ([Returns, Flag 1, Code NC_FAILED, Flag 0], W) \<and>
    mx_owner owner_lock (m_mutex W) = Some 1 \<and>
    mx_owner owner_lock (mutex_end win32_config owner_lock 1 W) = Some 1"
proof -
  let ?ms = "[(1, Lock), (2, Trylock), (2, IsLocked), (2, Lock), (1, Unlock), (2, Lock)]"
  let ?ws = "[(1, Lock), (2, IsLocked), (2, Trylock), (2, IsLocked)]"
  have "\<exists>N. mutex_calls linux_config owner_lock ?ms (ncMutex_init owner_lock) =
      ([Returns, Code NC_FAILED, Flag 1, Blocks, Returns, Returns], N) \<and>
    mx_owner owner_lock (m_mutex N) = Some 2 \<and>
    (False \<longrightarrow> Some (2::tid) \<noteq> None \<and> cfg_platform linux_config = Win32) \<and>
    (\<forall>t. Some (2::tid) = None \<or> Some 2 = Some t \<longrightarrow>
      mx_owner owner_lock (mutex_end linux_config owner_lock t N) = (if False then Some 2 else None))"
    by (rule mutex_calls_reference [OF owner_lock_doc]) (simp_all add: linux_config_def)
  moreover have "\<exists>N. mutex_calls win32_config owner_lock ?ws (ncMutex_init owner_lock) =
      ([Returns, Flag 1, Code NC_FAILED, Flag 0], N) \<and>
    mx_owner owner_lock (m_mutex N) = Some 1 \<and>
    (True \<longrightarrow> Some (1::tid) \<noteq> None \<and> cfg_platform win32_config = Win32) \<and>
    (\<forall>t. Some (1::tid) = None \<or> Some 1 = Some t \<longrightarrow>
      mx_owner owner_lock (mutex_end win32_config owner_lock t N) = (if True then Some 1 else None))"
    by (rule mutex_calls_reference [OF owner_lock_doc]) (simp_all add: win32_config_def)
  ultimately show ?thesis by auto
qed

end
