(* ===== verification/Nc_Connect_Ref.thy ===== *)
theory Nc_Connect_Ref
  imports Nc_Sock_Connect
begin

text \<open>
  \<open>connect\<close> against a reference. A list of \<open>attempt\<close>s says what the kernel answers to each call of
  \<^verbatim>\<open>connect(2)\<close>; \<open>ref_connect\<close> computes from it and from the time out the code that the method
  returns and how many calls it makes.
\<close>

datatype attempt = Accepted | Pending | Already | Refused

text \<open>
  The answers to the calls that follow when \<open>w\<close> have been made: the result of each and, where it
  fails, the class of the error number it leaves.
\<close>

fun answers :: "os \<Rightarrow> config \<Rightarrow> nat \<Rightarrow> attempt list \<Rightarrow> bool" where
  "answers K c w [] = True"
| "answers K c w (a # as) =
     ((\<forall>h fd addr. connects h = w \<longrightarrow> (os_connect K h fd addr < 0) = (a \<noteq> Accepted)) \<and>
      (\<forall>h. connects h = Suc w \<longrightarrow> a \<noteq> Accepted \<longrightarrow> ncIsBlockingError c (os_errno K h) = (a = Pending) \<and>
         ncIsConnected c (os_errno K h) = (a = Already)) \<and>
      answers K c (Suc w) as)"

text \<open>\<open>k\<close> more attempts may be made after the next one, a tenth of a second apart.\<close>

fun ref_connect :: "nat \<Rightarrow> attempt list \<Rightarrow> (retcode \<times> nat) option" where
  "ref_connect k [] = None"
| "ref_connect k (a # as) =
     (case a of
        Accepted \<Rightarrow> Some (NC_OK, 1)
      | Already \<Rightarrow> Some (NC_OK, 1)
      | Refused \<Rightarrow> Some (NC_FAILED, 1)
      | Pending \<Rightarrow> if k = 0 then Some (NC_TIMEDOUT, 1)
          else map_option (\<lambda>(r, n). (r, Suc n)) (ref_connect (k - 1) as))"

lemma ref_connect_total: "k < length as \<Longrightarrow> \<exists>r n. ref_connect k as = Some (r, n)"
proof (induction k as rule: ref_connect.induct)
  case (2 k a as)
  then show ?case by (cases a) auto
qed simp

section \<open>The loop\<close>

text \<open>One call of \<^verbatim>\<open>connect(2)\<close> and what the loop makes of its answer.\<close>

lemma connect_body_answer:
  assumes "connect_clock_fits c limit" "t \<le> ucast limit" "answers K c (connects h) (a # as)"
    and t: "unat t = 100 * i" and k: "k + i = unat limit div 100"
  shows "\<exists>g. connects g = Suc (connects h) \<and>
    (case a of
       Accepted \<Rightarrow> connect_body K c fd addr limit (t, h) = Inr (NC_OK, g)
     | Already \<Rightarrow> connect_body K c fd addr limit (t, h) = Inr (NC_OK, g)
     | Refused \<Rightarrow> connect_body K c fd addr limit (t, h) = Inr (NC_FAILED, g)
     | Pending \<Rightarrow> if k = 0 then connect_body K c fd addr limit (t, h) = Inr (NC_TIMEDOUT, g)
         else \<exists>t'. connect_body K c fd addr limit (t, h) = Inl (t', g) \<and> t' \<le> ucast limit \<and>
           unat t' = 100 * Suc i)"
proof -
  let ?h = "SysConnect fd addr (os_connect K h fd addr) # h"
  have neg: "(os_connect K h fd addr < 0) = (a \<noteq> Accepted)"
    and err: "a \<noteq> Accepted \<Longrightarrow> ncIsBlockingError c (os_errno K ?h) = (a = Pending)"
      "a \<noteq> Accepted \<Longrightarrow> ncIsConnected c (os_errno K ?h) = (a = Already)"
    using assms(3) by simp_all
  have u: "unat (ulong c (t + 100)) = unat t + 100" by (rule ulong_add_100 [OF assms(1,2)])
  have over: "(ucast limit < ulong c (t + 100)) = (k = 0)"
  proof -
    have "(ucast limit < ulong c (t + 100)) = (unat limit < 100 * Suc i)"
      using u t by (simp add: word_less_nat_alt unat_ucast_32_64 algebra_simps)
    also have "\<dots> = (unat limit div 100 < Suc i)" by (simp add: div_less_iff_less_mult mult.commute)
    also have "\<dots> = (k = 0)" using k by linarith
    finally show ?thesis .
  qed
  show ?thesis
  proof (cases a)
    case Pending
    then show ?thesis
      using neg err over u t
      by (cases "k = 0") (auto simp: connect_body_def Let_def not_less intro!: exI [of _ "SysSleep 100 # ?h"] exI [of _ ?h])
  qed (use neg err in \<open>auto simp: connect_body_def Let_def intro!: exI [of _ ?h]\<close>)
qed

lemma connect_loop_ref:
  assumes "connect_clock_fits c limit"
  shows "ref_connect k as = Some (r, n) \<Longrightarrow> answers K c (connects h) as \<Longrightarrow> t \<le> ucast limit \<Longrightarrow>
    unat t = 100 * i \<Longrightarrow> k + i = unat limit div 100 \<Longrightarrow>
    \<exists>g. run_loop (connect_body K c fd addr limit) (t, h) = Some (r, g) \<and> connects g = connects h + n"
proof (induction as arbitrary: k n h t i)
  case (Cons a as)
  let ?b = "connect_body K c fd addr limit"
  from connect_body_answer [OF assms Cons.prems(3,2,4,5), of fd addr] obtain g where
    g: "connects g = Suc (connects h)" and b: "case a of
       Accepted \<Rightarrow> ?b (t, h) = Inr (NC_OK, g) | Already \<Rightarrow> ?b (t, h) = Inr (NC_OK, g)
     | Refused \<Rightarrow> ?b (t, h) = Inr (NC_FAILED, g)
     | Pending \<Rightarrow> if k = 0 then ?b (t, h) = Inr (NC_TIMEDOUT, g)
         else \<exists>t'. ?b (t, h) = Inl (t', g) \<and> t' \<le> ucast limit \<and> unat t' = 100 * Suc i" by blast
  show ?case
  proof (cases "a = Pending \<and> k \<noteq> 0")
    case True
    with b obtain t' where t': "?b (t, h) = Inl (t', g)" "t' \<le> ucast limit" "unat t' = 100 * Suc i" by auto
    from True Cons.prems(1) obtain m where m: "ref_connect (k - 1) as = Some (r, m)" "n = Suc m" by auto
    have "answers K c (connects g) as" using Cons.prems(2) g by simp
    from Cons.IH [OF m(1) this t'(2,3)] True Cons.prems(5) obtain g' where
      "run_loop ?b (t', g) = Some (r, g')" "connects g' = connects g + m" by auto
    with t'(1) g m(2) show ?thesis by (simp add: run_loop.simps [of ?b "(t, h)"])
  next
    case False
    with b g Cons.prems(1) show ?thesis
      by (cases a) (auto simp: run_loop.simps [of ?b "(t, h)"])
  qed
qed simp

lemma front_connects: "connect_front K c tmp S h = (r, S', h') \<Longrightarrow> connects h' = connects h"
  by (auto simp: connect_front_def Let_def connects_resolve split: if_splits prod.splits option.splits)

section \<open>Properties\<close>

text \<open>
  C13: whatever the kernel answers to the attempts, a call of \<open>connect\<close> that finds an address
  returns the code and makes the number of attempts that the reference computes from these answers
  and the time out; one that finds none fails without an attempt.
\<close>

theorem connect_reference:
  assumes "connect_clock_fits c (m_timeout S)" "answers K c (connects h) as"
    and "unat (m_timeout S) div 100 < length as"
  shows "case connect_front K c tmp S h of
      (None, S', g) \<Rightarrow> ncSocket_connect K c tmp S h = Some (NC_FAILED, S', g) \<and> connects g = connects h
    | (Some addr, S', _) \<Rightarrow> \<exists>r n g. ref_connect (unat (m_timeout S) div 100) as = Some (r, n) \<and>
        ncSocket_connect K c tmp S h = Some (r, S', g) \<and> connects g = connects h + n"
proof -
  obtain found S' h' where f: "connect_front K c tmp S h = (found, S', h')" by (metis prod_cases3)
  note h' = front_connects [OF f]
  show ?thesis
  proof (cases found)
    case None
    with f h' show ?thesis by (simp add: ncSocket_connect_def)
  next
    case (Some addr)
    have lim: "m_timeout S' = m_timeout S"
      using f by (auto simp: connect_front_def Let_def split: if_splits prod.splits option.splits)
    obtain r n where r: "ref_connect (unat (m_timeout S) div 100) as = Some (r, n)"
      using ref_connect_total [OF assms(3)] by blast
    have "\<exists>g. run_loop (connect_body K c (m_sockfd S') addr (m_timeout S)) (0, h') = Some (r, g) \<and>
        connects g = connects h' + n"
      by (rule connect_loop_ref [OF assms(1) r, where i = 0]) (simp_all add: assms(2) h')
    with Some f r lim h' show ?thesis by (auto simp: ncSocket_connect_def)
  qed
qed

theorem connect_reference_witness:
  "let S = setTimeout 300 (ncSocket_of_host linux_config [49, 50] 80 SOCKTYPE_TCPIP); c = linux_config;
       K = third_time_os; tmp = zero_sockaddr; as = [Pending, Pending, Accepted, Pending]
   in fst (connect_front K c tmp S []) \<noteq> None \<and>
      ref_connect (unat (m_timeout S) div 100) as = Some (NC_OK, 3) \<and>
      (case connect_front K c tmp S [] of
         (None, S', g) \<Rightarrow> ncSocket_connect K c tmp S [] = Some (NC_FAILED, S', g) \<and> connects g = connects []
       | (Some addr, S', _) \<Rightarrow> \<exists>r n g. ref_connect (unat (m_timeout S) div 100) as = Some (r, n) \<and>
           ncSocket_connect K c tmp S [] = Some (r, S', g) \<and> connects g = connects [] + n)"
proof -
  let ?S = "setTimeout 300 (ncSocket_of_host linux_config [49, 50] 80 SOCKTYPE_TCPIP)"
  let ?as = "[Pending, Pending, Accepted, Pending]"
  have t: "m_timeout ?S = 300" by (simp add: setTimeout_def)
  have found: "fst (connect_front third_time_os linux_config zero_sockaddr ?S []) \<noteq> None"
    by (simp add: connect_front_def Let_def third_time_os_def linux_config_def ncGetInetAddr_defs)
  have fits: "connect_clock_fits linux_config (m_timeout ?S)"
    by (simp add: connect_clock_fits_def linux_config_def)
  have ans: "answers third_time_os linux_config (connects []) ?as"
    by (simp add: third_time_os_def linux_config_def ncIsBlockingError_def ncIsConnected_def)
  have long: "unat (m_timeout ?S) div 100 < length ?as" by (simp add: t)
  note connect_reference [OF fits ans long, of zero_sockaddr]
  moreover have "ref_connect (unat (m_timeout ?S) div 100) ?as = Some (NC_OK, 3)" by (simp add: t)
  ultimately show ?thesis using found unfolding Let_def by blast
qed

end
