(* ===== verification/Spec2Isabelle.thy ===== *)
theory Spec2Isabelle
  imports Nc_Net_Live Nc_Thread_Life Nc_Sock_Type Nc_Stream Nc_Reference Nc_Mutex_Race Nc_Udp_Race Nc_Listener_Life Nc_Init
    Nc_Build Nc_Mutex_Calls Nc_Connect_Ref Nc_Start_Race
begin

text \<open>
  NetClass: a model of the socket and thread library in \<^verbatim>\<open>src/\<close>, and what is proved of it.

  \<^bold>\<open>The program.\<close> NetClass wraps the socket, thread and mutex interfaces of POSIX systems and of
  Windows in five classes. \<open>ncSocket\<close> connects, reads and writes with a time out.
  \<open>ncSocketListener\<close> is a server: it accepts connections, or receives datagrams, and hands each
  as an \<open>ncSocket\<close> or a \<open>udpData\<close> to a callback, on request in an \<open>ncThread\<close> of its own.
  \<open>ncMutex\<close> is a lock with a flag that says whether it is taken. \<open>netClass\<close> starts the
  Windows socket library.

  \<^bold>\<open>What stands for the outside.\<close> The operating system is not part of the repository. It is the
  parameter \<open>K\<close> of type \<open>os\<close> (theory \<open>Nc_Kernel\<close>): one function per call, which sees the
  history of all calls so far and answers. A kernel, a peer and the other threads of the process
  are all such functions. The code's calls are recorded in the history, a list of \<open>call\<close>,
  newest first; properties are stated over it. What is assumed of the calls is named:
  \<open>poll_doc\<close>, \<open>send_doc\<close>, \<open>recv_doc\<close>, \<open>mutex_doc\<close>, \<open>view_doc\<close>,
  \<open>recv_works\<close>, \<open>threads_work\<close>, \<open>fresh_doc\<close>. Each property
  with such an assumption has a witness with a concrete system that meets it. The preprocessor's
  choices (platform, \<open>HAVE_POLL\<close>, \<open>HAVE_THREADS\<close>, the data model) are a record \<open>config\<close>.

  \<^bold>\<open>The theories.\<close>
  \<^item> \<open>Nc_Prelude\<close>: loops (\<open>run_loop\<close> with rules for invariants, termination and
    divergence), memory relative to a buffer, the theorem collections.
  \<^item> \<open>Nc_Platform\<close>: \<^verbatim>\<open>ncconsts.h\<close>, \<^verbatim>\<open>ncenums.h\<close>, the macros of \<^verbatim>\<open>ncarch.h\<close>.
  \<^item> \<open>Nc_Arch\<close>: \<^verbatim>\<open>ncarch.h\<close> and \<^verbatim>\<open>ncdebug.h\<close> as lists of preprocessor directives with an interpreter
    \<open>cpp\<close>; which symbols the header refuses and which version of the code it selects. \<open>Nc_Macros\<close>: an
    expression of the source as C reads it: tokens, replacement of macros, a parser with the
    precedences of C, an evaluator. \<open>Nc_Build\<close>: the symbols a \<open>config\<close> stands for, and that the
    definitions of \<open>Nc_Platform\<close> and \<open>Nc_Sock_Connect\<close> that branch on a \<open>config\<close> are what the
    conditions of the source mean with the macros that the header then defines.
  \<^item> \<open>Nc_Data\<close>: the members of the classes as records; addresses and byte order.
  \<^item> \<open>Nc_Kernel\<close>: calls, histories, the operating system and its documentation.
  \<^item> \<open>Nc_Sock\<close>: constructors, destructor, \<open>close\<close>, \<open>flush\<close>, accessors and
    \<open>checkTimeout\<close> of \<^verbatim>\<open>ncsocket.cpp\<close>.
  \<^item> \<open>Nc_Transfer\<close>: what the four read and write loops share: their locals (\<open>xfer\<close>),
    recurring fragments, and two locales. \<open>clocked_loop\<close> is the contract of the clock: every
    trip that goes on adds the poll time, hence the loop ends and waits boundedly often.
    \<open>transfer_loop\<close> extends it by the contract of the data: the bytes moved are the bytes of the
    buffer in order, abstracted as the relation \<open>xstep\<close>; the meaning of the results follows.
  \<^item> \<open>Nc_Sock_Poll\<close>, \<open>Nc_Sock_Select\<close>, \<open>Nc_Sock_IO\<close>: the two versions of
    \<open>writeData\<close> and \<open>readData\<close>, their interpretations, and the choice between the versions.
  \<^item> \<open>Nc_Stream\<close>: a writer and a reader at the two ends of a connection.
  \<^item> \<open>Nc_Script\<close>, \<open>Nc_Reference\<close>: the transfers against a reference evaluator. A script says what
    the kernel answers on each trip round the loop; \<open>ref_run\<close> computes the result from it. The
    locale \<open>scripted_loop\<close> says what one trip does and is interpreted on the four loop bodies; that
    the versions agree, that a transfer completes and what the clock really counts follow.
  \<^item> \<open>Nc_Sock_Connect\<close>: both \<open>connect\<close> methods with name resolution;
    \<open>Nc_Connect_Ref\<close>: the connect loop against a reference evaluator.
  \<^item> \<open>Nc_Sock_Life\<close>: sequences of methods on one object and its descriptor;
    \<open>Nc_Sock_Type\<close>: what holds of the object's members, and of the names given to the resolver,
    after any such sequence.
  \<^item> \<open>Nc_Thread\<close>: \<^verbatim>\<open>ncthread.cpp\<close>, a Windows and a POSIX version of each operation and the choice
    between them; the locale \<open>thread_class\<close>, interpreted on the POSIX operations, is what the
    listener relies on. \<open>Nc_Thread_Life\<close>: sequences of methods on one thread object.
  \<^item> \<open>Nc_Mutex\<close>: \<^verbatim>\<open>ncmutex.cpp\<close> method by method; the locales \<open>mutex_class\<close> and
    \<open>mutex_try_class\<close>, interpreted for POSIX and for Windows. \<open>Nc_Mutex_Race\<close>: the methods as
    interleaved steps of any number of threads, reachable states, their invariant, and the
    refinement of an abstract lock (\<open>lock_spec\<close>). \<open>Nc_Mutex_Calls\<close>: sequences of calls by several
    threads against a lock that is its holder and, on Windows, a bit that says whether \<open>isLocked\<close>
    denies it.
  \<^item> \<open>Nc_Udp\<close>: \<^verbatim>\<open>udpdata.h\<close>, with the conversion of the length to \<open>size_t\<close>.
  \<^item> \<open>Nc_Listener\<close>: \<^verbatim>\<open>ncsocklist.cpp\<close>; \<open>Nc_Listener_Start\<close>: arguments, bind loop,
    descriptor; \<open>Nc_Listener_Serve\<close>: the accept and datagram loops; \<open>Nc_Listener_Race\<close>: the
    accept loop and \<open>stopListening\<close> as interleaved steps of two threads; \<open>Nc_Listener_Live\<close>: their
    fair infinite runs; \<open>Nc_Udp_Race\<close>: the same for the datagram loop; \<open>Nc_Listener_Life\<close>:
    the life of one listener, in which starts and stops run in two threads, and its descriptors.
  \<^item> \<open>Nc_Start_Steps\<close>: the whole of \<open>startListening\<close>, set-up and both services, as steps between
    accesses of the shared members; the locale \<open>stepped_loop\<close> relates a loop to the steps of its trips
    and is interpreted on the three loops; the steps compute the sequential methods.
    \<open>Nc_Start_Race\<close>: any number of starts and stops of one listener in any order; which stops are
    heeded, what an early stop and an early restart do.
  \<^item> \<open>Nc_Session\<close>: a server together with the callbacks that use and delete the objects of its
    clients.
  \<^item> \<open>Nc_Sock_Calls\<close>: which calls the methods of a socket object make (\<open>talks\<close>); the locale
    \<open>talking_loop\<close> extends \<open>clocked_loop\<close> and is interpreted on the four transfer bodies.
    \<open>Nc_Descriptors\<close>: the descriptor table as a history shows it, and \<open>deed\<close>, the abstract
    specification of the owner of one descriptor. \<open>Nc_Client\<close>: a thread that uses one socket
    object, in steps between which others may run; that these steps are the sequential methods and
    refine \<open>deed\<close>. \<open>Nc_Net\<close>: the listener, the stopper and any number of client threads
    interleaved, who owns which descriptor, and what goes wrong without the sleep of
    \<open>stopListening\<close>; \<open>Nc_Net_Live\<close>: fair infinite runs of the whole process.
  \<^item> \<open>Nc_Init\<close>: \<^verbatim>\<open>netclass.cpp\<close>, and sequences of constructions, destructions and calls of
    \<open>initialize\<close>.

  \<^bold>\<open>Loops.\<close> There is no fuel. A loop is \<open>run_loop\<close> of its body; \<open>None\<close> means that it does
  not return, and returning is proved: for transfers and \<open>connect\<close> from the clock, whose 32-bit
  or \<open>unsigned long\<close> wrap-around is modelled (\<open>clock_fits\<close>, \<open>connect_clock_fits\<close> say when
  it does not interfere, \<open>readData_poll_no_timeout\<close> and \<open>connect_loop_no_timeout\<close> what happens
  otherwise); for the bind loop from its counter; for the service loops from another thread's
  \<open>stopListening\<close>, in the sequential model from what that thread has made of the object and in
  the interleaved one from the fairness of the run (\<open>both_threads_return\<close>, \<open>process_winds_down\<close>). A script that is to
  determine a transfer has to be as long as the time out divided by the poll time
  (\<open>long_enough\<close>), which is why no more of it is needed.

  \<^bold>\<open>Integers.\<close> \<open>unsigned\<close> values are words of their width. An \<open>int\<close> is an integer: the
  buffer lengths, counters and descriptors it is used for stay in range as long as the caller's
  length does. A descriptor is an integer too, with -1 for none; on Windows, where it is unsigned,
  \<open>fd_positive\<close> reads its one comparison by size that way. Error numbers are symbolic.

  \<^bold>\<open>Not modelled.\<close> What \<open>DEBUG\<close> prints and its effect on \<open>errno\<close>; the build files; the
  body of callbacks, which are events of the history and act through \<open>os_view\<close>, except that
  \<open>Nc_Session\<close> and \<open>Nc_Net\<close> let them call methods of the object they are given; running out of
  memory, except where the code tests for it (the \<open>new\<close> of \<open>serve_client\<close> gives a null pointer then,
  as the code expects, and does not throw); \<open>ncMutex\<close> on Cygwin and Darwin, for which the source
  has no methods (\<open>model_follows_header\<close>); the headers that \<^verbatim>\<open>ncarch.h\<close> includes and its two
  typedefs; a descriptor too large for an \<open>fd_set\<close>, or the -1 of a closed object, for which \<open>FD_SET\<close> is undefined; a call into the
  kernel that never returns. The process of \<open>Nc_Net\<close> has one TCP listener
  that is stopped once; the datagram service, whose only descriptor is the listener's, is in
  \<open>Nc_Udp_Race\<close>, several starts and stops in \<open>Nc_Start_Race\<close>.

  \<^bold>\<open>Reading the properties.\<close> The text before a theorem that is a property of the manifest
  starts with its number. \<open>transfer_post\<close> is the contract of a read or a write,
  \<open>connect_post\<close> of the connect loop, \<open>bind_post\<close> of the bind loop, \<open>clients_post\<close> and
  \<open>udp_post\<close> of the two services. Where the code does not do what its interface says, the
  property states what it does: the text says so.
\<close>

end
